(* ===== verification/Prelude.thy ===== *)
theory Prelude
  imports Main "HOL-Library.Word" "HOL-Library.Signed_Division"
begin

text \<open>
  The vocabulary every other theory uses: machine integers as words, failures as values of
  a sum type with their sequencing operator, and little-endian byte strings.

  The C++ sources run on a little-endian host (\<open>helper.hh\<close> has a \<open>static_assert\<close> for
  it), so a \<open>reinterpret_cast\<close> of a byte pointer to a wider integer reads the bytes least
  significant first. Signed arithmetic that overflows is modelled by the wrap-around the
  compiled code has.
\<close>

unbundle bit_operations_syntax

section \<open>Machine integers\<close>

type_synonym u5 = "5 word"
type_synonym u8 = "8 word"
type_synonym u16 = "16 word"
type_synonym u32 = "32 word"
type_synonym u64 = "64 word"

named_theorems word_fields \<open>the fields of concrete or assembled instruction words\<close>
named_theorems failure_simps \<open>sequencing of computations that may fail\<close>
named_theorems le_simps \<open>little-endian encoding and decoding\<close>

lemma nat_less_5_cases: "(k::nat) < 5 \<Longrightarrow> k = 0 \<or> k = 1 \<or> k = 2 \<or> k = 3 \<or> k = 4"
  by presburger

lemma one_bit_word: "(x :: 1 word) = 0 \<longleftrightarrow> \<not> bit x 0"
proof
  assume "\<not> bit x 0"
  then show "x = 0" by (intro bit_word_eqI) simp
qed simp

lemma bit_beyond: "LENGTH('a::len) \<le> n \<Longrightarrow> bit (w :: 'a word) n \<longleftrightarrow> False"
  using bit_imp_le_length [of w n] by auto

lemma unat_of_nat_small: "n < 2 ^ LENGTH('a) \<Longrightarrow> unat (of_nat n :: 'a::len word) = n"
  by (simp add: unsigned_of_nat take_bit_nat_eq_self)

lemma unat_plus_1: "w \<noteq> - 1 \<Longrightarrow> unat (w + 1) = unat w + 1"
  using unatSuc [of w] by (auto simp: add.commute [of 1] add_eq_0_iff2)

lemma xor_right_cancel [simp]: "a XOR x = b XOR x \<longleftrightarrow> a = (b :: 'a::len word)"
  by (metis xor.assoc xor.right_neutral xor_self_eq)

lemma xor_left_cancel [simp]: "x XOR a = x XOR b \<longleftrightarrow> a = (b :: 'a::len word)"
  by (simp add: xor.commute [of x])

lemma xor_eq_0_iff [simp]: "a XOR b = 0 \<longleftrightarrow> a = (b :: 'a::len word)"
  using xor_right_cancel [of a b b] by simp

section \<open>Failures as values\<close>

text \<open>
  A C++ run that does not return normally is a value: a failed \<open>assert\<close>, a call of
  \<open>exit\<close> with its code, a call of \<open>abort\<close> (the \<open>die\<close> macro), an access outside the
  object it points into (the 4 GiB of the guest's memory, a mapped file, an array), a null
  pointer, the processor's divide trap, a lookup of an absent key, or a shift by at least
  the width of its operand, which the language leaves undefined.
\<close>

datatype failure =
    Assert_failed
  | Exit_called int
  | Abort_called
  | Bad_access nat
  | Null_deref
  | Div_trap
  | Key_not_found
  | Undefined_shift nat

definition bind_r :: "failure + 'a \<Rightarrow> ('a \<Rightarrow> failure + 'b) \<Rightarrow> failure + 'b" where
  "bind_r x f = (case x of Inl e \<Rightarrow> Inl e | Inr a \<Rightarrow> f a)"

definition assert_r :: "bool \<Rightarrow> failure + unit" where
  "assert_r b = (if b then Inr () else Inl Assert_failed)"

lemma bind_r_Inl [simp, failure_simps]: "bind_r (Inl e) f = Inl e"
  by (simp add: bind_r_def)

lemma bind_r_Inr [simp, failure_simps]: "bind_r (Inr a) f = f a"
  by (simp add: bind_r_def)

lemma bind_r_eq_Inr_iff: "bind_r x f = Inr b \<longleftrightarrow> (\<exists>a. x = Inr a \<and> f a = Inr b)"
  by (cases x) auto

lemma bind_r_eq_Inl_iff: "bind_r x f = Inl e \<longleftrightarrow> x = Inl e \<or> (\<exists>a. x = Inr a \<and> f a = Inl e)"
  by (cases x) auto

lemma bind_r_InrE:
  assumes "bind_r x f = Inr b"
  obtains a where "x = Inr a" and "f a = Inr b"
  using assms by (auto simp: bind_r_eq_Inr_iff)

lemma bind_r_assoc: "bind_r (bind_r x f) g = bind_r x (\<lambda>a. bind_r (f a) g)"
  by (cases x) auto

lemma bind_r_cong [fundef_cong]:
  "x = y \<Longrightarrow> (\<And>a. y = Inr a \<Longrightarrow> f a = g a) \<Longrightarrow> bind_r x f = bind_r y g"
  by (cases y) auto

lemma assert_r_True [simp, failure_simps]: "assert_r True = Inr ()"
  by (simp add: assert_r_def)

lemma assert_r_False [simp, failure_simps]: "assert_r False = Inl Assert_failed"
  by (simp add: assert_r_def)

lemma assert_r_eq_Inr [simp]: "assert_r b = Inr u \<longleftrightarrow> b"
  by (simp add: assert_r_def)

text \<open>
  Partial correctness of such a computation: \<open>ok_r P x\<close> says that its result, if there is
  one, satisfies \<open>P\<close>; \<open>err_r P x\<close> that its failure, if there is one, does. Both move
  through the sequencing operator and the conditional by rewriting.
\<close>

definition ok_r :: "('a \<Rightarrow> bool) \<Rightarrow> failure + 'a \<Rightarrow> bool" where
  "ok_r P x = (case x of Inl _ \<Rightarrow> True | Inr a \<Rightarrow> P a)"

definition err_r :: "(failure \<Rightarrow> bool) \<Rightarrow> failure + 'a \<Rightarrow> bool" where
  "err_r P x = (case x of Inl e \<Rightarrow> P e | Inr _ \<Rightarrow> True)"

lemma ok_r_simps [simp]:
  "ok_r P (Inl e) = True" "ok_r P (Inr a) = P a"
  "ok_r P (if b then x else y) = (if b then ok_r P x else ok_r P y)"
  "ok_r P (Let v g) = (let w = v in ok_r P (g w))"
  by (simp_all add: ok_r_def)

lemma ok_r_bind [simp]: "ok_r P (bind_r x f) \<longleftrightarrow> ok_r (\<lambda>a. ok_r P (f a)) x"
  by (cases x) simp_all

lemma ok_r_True [simp]: "ok_r (\<lambda>_. True) x"
  by (cases x) simp_all

lemma ok_r_mono: "ok_r P x \<Longrightarrow> (\<And>a. x = Inr a \<Longrightarrow> P a \<Longrightarrow> Q a) \<Longrightarrow> ok_r Q x"
  by (cases x) simp_all

lemma ok_rI: "(\<And>a. x = Inr a \<Longrightarrow> P a) \<Longrightarrow> ok_r P x"
  by (cases x) simp_all

lemma ok_rD: "ok_r P x \<Longrightarrow> x = Inr a \<Longrightarrow> P a"
  by simp

lemma err_r_simps [simp]:
  "err_r P (Inl e) = P e" "err_r P (Inr a) = True"
  "err_r P (if b then x else y) = (if b then err_r P x else err_r P y)"
  "err_r P (Let v g) = (let w = v in err_r P (g w))"
  by (simp_all add: err_r_def)

lemma err_r_bind: "err_r P (bind_r x f) \<longleftrightarrow> err_r P x \<and> ok_r (\<lambda>a. err_r P (f a)) x"
  by (cases x) simp_all

lemma err_r_True [simp]: "err_r (\<lambda>_. True) x"
  by (cases x) simp_all

lemma err_rI: "(\<And>e. x = Inl e \<Longrightarrow> P e) \<Longrightarrow> err_r P x"
  by (cases x) simp_all

lemma err_rD: "err_r P x \<Longrightarrow> x = Inl e \<Longrightarrow> P e"
  by simp

section \<open>Little-endian byte strings\<close>

definition le_bytes :: "nat \<Rightarrow> 'a::len word \<Rightarrow> u8 list" where
  "le_bytes n w = map (\<lambda>i. ucast (drop_bit (8 * i) w)) [0..<n]"

fun le_word :: "u8 list \<Rightarrow> 'a::len word" where
  "le_word [] = 0"
| "le_word (b # bs) = ucast b OR push_bit 8 (le_word bs)"

lemma length_le_bytes [simp, le_simps]: "length (le_bytes n w) = n"
  by (simp add: le_bytes_def)

lemma le_bytes_nth [le_simps]: "i < n \<Longrightarrow> le_bytes n w ! i = ucast (drop_bit (8 * i) w)"
  by (simp add: le_bytes_def)

lemma bit_le_word_Cons:
  "bit (le_word (b # bs) :: 'a::len word) k \<longleftrightarrow>
     k < LENGTH('a) \<and> (if k < 8 then bit b k else bit (le_word bs :: 'a word) (k - 8))"
proof (cases "k < 8")
  case True
  then show ?thesis by (auto simp: bit_or_iff bit_push_bit_iff bit_ucast_iff)
next
  case False
  then have "\<not> bit b k" using bit_imp_le_length [of b k] by auto
  with False show ?thesis
    by (auto simp: bit_or_iff bit_push_bit_iff bit_ucast_iff dest: bit_imp_le_length)
qed

lemma bit_le_word_iff:
  "bit (le_word bs :: 'a::len word) k \<longleftrightarrow>
     k < LENGTH('a) \<and> k < 8 * length bs \<and> bit (bs ! (k div 8)) (k mod 8)"
proof (induction bs arbitrary: k)
  case Nil
  then show ?case by simp
next
  case (Cons b bs)
  show ?case
  proof (cases "k < 8")
    case True
    then show ?thesis by (simp add: bit_le_word_Cons del: le_word.simps)
  next
    case False
    then have "k = (k - 8) + 8" by simp
    then obtain j where j: "k = j + 8" by blast
    have "j + 8 < LENGTH('a) \<Longrightarrow> j < LENGTH('a)" and "(j + 8) div 8 = Suc (j div 8)" by simp_all
    then show ?thesis
      using Cons.IH [of j] by (auto simp: j bit_le_word_Cons simp del: le_word.simps)
  qed
qed

lemma le_word_le_bytes:
  "8 * n = LENGTH('a) \<Longrightarrow> le_word (le_bytes n (w :: 'a::len word)) = w"
  by (rule bit_word_eqI)
    (auto simp: bit_le_word_iff le_bytes_nth bit_ucast_iff bit_drop_bit_eq dest: bit_imp_le_length)

lemma le_word_le_bytes_mask:
  "8 * n \<le> LENGTH('a) \<Longrightarrow> le_word (le_bytes n (w :: 'a::len word)) = take_bit (8 * n) w"
  by (rule bit_word_eqI)
    (auto simp: bit_le_word_iff le_bytes_nth bit_ucast_iff bit_drop_bit_eq bit_take_bit_iff
      dest: bit_imp_le_length)

lemma le_bytes_le_word:
  assumes "8 * length bs \<le> LENGTH('a::len)"
  shows "le_bytes (length bs) (le_word bs :: 'a word) = bs"
proof (rule nth_equalityI)
  show "length (le_bytes (length bs) (le_word bs :: 'a word)) = length bs" by simp
next
  fix i assume "i < length (le_bytes (length bs) (le_word bs :: 'a word))"
  then have i: "i < length bs" by simp
  show "le_bytes (length bs) (le_word bs :: 'a word) ! i = bs ! i"
  proof (rule bit_word_eqI)
    fix n assume n: "n < LENGTH(8)"
    then have "8 * i + n < 8 * length bs" using i by simp
    moreover have "(8 * i + n) div 8 = i" "(8 * i + n) mod 8 = n" using n by auto
    ultimately show "bit (le_bytes (length bs) (le_word bs :: 'a word) ! i) n = bit (bs ! i) n"
      using i n assms by (auto simp: le_bytes_nth bit_ucast_iff bit_drop_bit_eq bit_le_word_iff)
  qed
qed

section \<open>Encodings of fixed length\<close>

text \<open>
  The contract of a structure that is written as a fixed number of bytes and read back: what
  its client needs is that a sequence of them can be taken apart again.
\<close>

locale codec =
  fixes enc :: "'x \<Rightarrow> u8 list" and dec :: "u8 list \<Rightarrow> 'x" and valid :: "'x \<Rightarrow> bool" and width :: nat
  assumes enc_length: "valid x \<Longrightarrow> length (enc x) = width"
    and dec_enc: "valid x \<Longrightarrow> dec (enc x) = x"
begin

lemma enc_inject: "valid x \<Longrightarrow> valid y \<Longrightarrow> enc x = enc y \<longleftrightarrow> x = y"
  by (metis dec_enc)

lemma read_first:
  assumes "valid x"
  shows "length (take width (enc x @ rest)) = width" "dec (take width (enc x @ rest)) = x"
    "drop width (enc x @ rest) = rest"
  using assms by (simp_all add: enc_length dec_enc)

lemma slot:
  assumes "\<And>x. x \<in> set xs \<Longrightarrow> valid x" and "j < length xs"
  shows "dec (take width (drop (width * j) (concat (map enc xs)))) = xs ! j"
  using assms
proof (induction xs arbitrary: j)
  case (Cons x xs)
  then show ?case by (cases j) (simp_all add: enc_length dec_enc)
qed simp

end

interpretation le32: codec "le_bytes 4" "le_word :: u8 list \<Rightarrow> u32" "\<lambda>_. True" 4
  by unfold_locales (simp_all add: le_word_le_bytes)

interpretation le64: codec "le_bytes 8" "le_word :: u8 list \<Rightarrow> u64" "\<lambda>_. True" 8
  by unfold_locales (simp_all add: le_word_le_bytes)

section \<open>Views of a word\<close>

text \<open>
  The contract of a bit-field struct that a union overlays on a word: the word and the struct
  determine each other.
\<close>

locale overlay =
  fixes view :: "'w \<Rightarrow> 's" and raw :: "'s \<Rightarrow> 'w"
  assumes view_raw: "view (raw x) = x"
    and raw_view: "raw (view w) = w"
begin

lemma view_eq_iff: "view w = x \<longleftrightarrow> w = raw x"
  using view_raw raw_view by metis

lemma raw_inject: "raw x = raw y \<longleftrightarrow> x = y"
  by (metis view_raw)

lemma view_inject: "view v = view w \<longleftrightarrow> v = w"
  by (metis raw_view)

end

text \<open>
  A struct that overlays a 32-bit word is, in memory, a structure of four bytes: the contract
  of an overlay gives that of a codec.
\<close>

locale word_struct = overlay view raw for view :: "u32 \<Rightarrow> 's" and raw :: "'s \<Rightarrow> u32"

sublocale word_struct \<subseteq> bytes: codec "\<lambda>x. le_bytes 4 (raw x)" "\<lambda>bs. view (le_word bs)" "\<lambda>_. True" 4
  by unfold_locales (simp_all add: view_raw le_word_le_bytes)

end
