(* ===== verification/Memory.thy ===== *)
theory Memory
  imports Prelude
begin

text \<open>
  The guest's memory: the 4 GiB region \<open>top.hh: mmap4G\<close> maps and \<open>state_t.mem\<close> points
  to, and the typed accesses every component makes through that pointer
  (\<open>*reinterpret_cast<T*>(mem + a)\<close>; \<open>top.hh: mem_r32, mem_r64, mem_w32, mem_w64,
  get_insn\<close>). Addresses are offsets from the start of the
  mapping. An access that leaves the mapping is the failure \<open>Bad_access\<close>.

  The locale \<open>byte_store\<close> is the contract its clients rely on: what a load returns after a
  store, at the same place and at a disjoint one, and when an access succeeds.
\<close>

unbundle bit_operations_syntax

type_synonym mem = "nat \<Rightarrow> u8"

definition mem_size :: nat where
  "mem_size = 2 ^ 32"

lemma mem_size_val: "mem_size = 4294967296"
  by (simp add: mem_size_def)

section \<open>Byte blocks: memcpy, memset and raw reads\<close>

definition read_bytes :: "mem \<Rightarrow> nat \<Rightarrow> nat \<Rightarrow> u8 list" where
  "read_bytes m a n = map m [a..<a + n]"

definition write_bytes :: "mem \<Rightarrow> nat \<Rightarrow> u8 list \<Rightarrow> mem" where
  "write_bytes m a bs = (\<lambda>i. if a \<le> i \<and> i < a + length bs then bs ! (i - a) else m i)"

text \<open>An access of \<open>n\<close> bytes at offset \<open>a\<close> stays inside the mapping.\<close>

definition in_mem :: "nat \<Rightarrow> nat \<Rightarrow> bool" where
  "in_mem a n \<longleftrightarrow> a + n \<le> mem_size"

definition load :: "nat \<Rightarrow> mem \<Rightarrow> nat \<Rightarrow> failure + 'a::len word" where
  "load n m a = (if in_mem a n then Inr (le_word (read_bytes m a n)) else Inl (Bad_access a))"

definition store :: "nat \<Rightarrow> mem \<Rightarrow> nat \<Rightarrow> 'a::len word \<Rightarrow> failure + mem" where
  "store n m a w = (if in_mem a n then Inr (write_bytes m a (le_bytes n w)) else Inl (Bad_access a))"

definition copy_in :: "mem \<Rightarrow> nat \<Rightarrow> u8 list \<Rightarrow> failure + mem" where
  "copy_in m a bs = (if in_mem a (length bs) then Inr (write_bytes m a bs) else Inl (Bad_access a))"

lemma unat_plus_4: "unat (a :: u32) + 4 < 2 ^ 32 \<Longrightarrow> unat (a + 4) = unat a + 4"
  by (subst unat_add_lem [THEN iffD1]) simp_all

lemma length_read_bytes [simp]: "length (read_bytes m a n) = n"
  by (simp add: read_bytes_def)

lemma read_bytes_nth: "i < n \<Longrightarrow> read_bytes m a n ! i = m (a + i)"
  by (simp add: read_bytes_def)

lemma write_bytes_Nil [simp]: "write_bytes m a [] = m"
  by (auto simp: write_bytes_def fun_eq_iff)

lemma write_bytes_out: "i < a \<or> a + length bs \<le> i \<Longrightarrow> write_bytes m a bs i = m i"
  by (auto simp: write_bytes_def)

lemma write_bytes_in: "a \<le> i \<Longrightarrow> i < a + length bs \<Longrightarrow> write_bytes m a bs i = bs ! (i - a)"
  by (auto simp: write_bytes_def)

lemma read_write_same [simp]:
  "length bs = n \<Longrightarrow> read_bytes (write_bytes m a bs) a n = bs"
  by (rule nth_equalityI) (auto simp: read_bytes_nth write_bytes_in)

lemma read_write_disjoint:
  "a + length bs \<le> b \<or> b + n \<le> a \<Longrightarrow> read_bytes (write_bytes m a bs) b n = read_bytes m b n"
  by (rule nth_equalityI) (auto simp: read_bytes_nth write_bytes_out)

lemma write_read_same [simp]: "write_bytes m a (read_bytes m a n) = m"
  by (auto simp: write_bytes_def read_bytes_nth fun_eq_iff)

lemma write_write_same:
  "length bs = length cs \<Longrightarrow> write_bytes (write_bytes m a bs) a cs = write_bytes m a cs"
  by (auto simp: write_bytes_def fun_eq_iff)

lemma write_write_append:
  "write_bytes (write_bytes m a bs) (a + length bs) cs = write_bytes m a (bs @ cs)"
  by (auto simp: write_bytes_def fun_eq_iff nth_append)

lemma read_bytes_cong: "(\<And>i. a \<le> i \<Longrightarrow> i < a + n \<Longrightarrow> m i = m' i) \<Longrightarrow> read_bytes m a n = read_bytes m' a n"
  by (auto simp: read_bytes_def)

lemma read_bytes_append: "read_bytes m a (n + k) = read_bytes m a n @ read_bytes m (a + n) k"
  using upt_add_eq_append [of a "a + n" k] by (simp add: read_bytes_def add.assoc)

lemma take_drop_read_bytes:
  "i + k \<le> n \<Longrightarrow> take k (drop i (read_bytes m a n)) = read_bytes m (a + i) k"
  by (rule nth_equalityI) (auto simp: read_bytes_nth add.assoc)

lemma in_mem_mono: "in_mem a n \<Longrightarrow> b + k \<le> a + n \<Longrightarrow> in_mem b k"
  by (simp add: in_mem_def)

lemma in_mem_u32 [simp]: "in_mem (unat (a :: u32)) (Suc 0)"
  using unsigned_less [of a, where ?'a = nat] by (simp add: in_mem_def mem_size_def)

section \<open>The typed accesses\<close>

abbreviation mem_r8 :: "mem \<Rightarrow> nat \<Rightarrow> failure + u8" where "mem_r8 \<equiv> load 1"
abbreviation mem_r16 :: "mem \<Rightarrow> nat \<Rightarrow> failure + u16" where "mem_r16 \<equiv> load 2"
abbreviation mem_r32 :: "mem \<Rightarrow> nat \<Rightarrow> failure + u32" where "mem_r32 \<equiv> load 4"
abbreviation mem_r64 :: "mem \<Rightarrow> nat \<Rightarrow> failure + u64" where "mem_r64 \<equiv> load 8"
abbreviation mem_w8 :: "mem \<Rightarrow> nat \<Rightarrow> u8 \<Rightarrow> failure + mem" where "mem_w8 \<equiv> store 1"
abbreviation mem_w16 :: "mem \<Rightarrow> nat \<Rightarrow> u16 \<Rightarrow> failure + mem" where "mem_w16 \<equiv> store 2"
abbreviation mem_w32 :: "mem \<Rightarrow> nat \<Rightarrow> u32 \<Rightarrow> failure + mem" where "mem_w32 \<equiv> store 4"
abbreviation mem_w64 :: "mem \<Rightarrow> nat \<Rightarrow> u64 \<Rightarrow> failure + mem" where "mem_w64 \<equiv> store 8"

lemma load_eq_Inr_iff: "load n m a = Inr w \<longleftrightarrow> in_mem a n \<and> w = le_word (read_bytes m a n)"
  by (auto simp: load_def)

lemma store_eq_Inr_iff: "store n m a w = Inr m' \<longleftrightarrow> in_mem a n \<and> m' = write_bytes m a (le_bytes n w)"
  by (auto simp: store_def)

lemma load_in: "in_mem a n \<Longrightarrow> load n m a = Inr (le_word (read_bytes m a n))"
  by (simp add: load_def)

lemma store_in: "in_mem a n \<Longrightarrow> store n m a w = Inr (write_bytes m a (le_bytes n w))"
  by (simp add: store_def)

lemma ok_r_load [simp]: "ok_r P (load n m a) \<longleftrightarrow> (in_mem a n \<longrightarrow> P (le_word (read_bytes m a n)))"
  by (simp add: load_def)

lemma ok_r_store [simp]:
  "ok_r P (store n m a w) \<longleftrightarrow> (in_mem a n \<longrightarrow> P (write_bytes m a (le_bytes n w)))"
  by (simp add: store_def)

lemma err_r_load [simp]: "err_r P (load n m a) \<longleftrightarrow> in_mem a n \<or> P (Bad_access a)"
  by (simp add: load_def)

lemma err_r_store [simp]: "err_r P (store n m a w) \<longleftrightarrow> in_mem a n \<or> P (Bad_access a)"
  by (simp add: store_def)

section \<open>The contract of a byte-addressed store\<close>

locale byte_store =
  fixes ld :: "nat \<Rightarrow> 'm \<Rightarrow> nat \<Rightarrow> failure + 'a::len word"
    and st :: "nat \<Rightarrow> 'm \<Rightarrow> nat \<Rightarrow> 'a word \<Rightarrow> failure + 'm"
    and ok :: "nat \<Rightarrow> nat \<Rightarrow> bool"
  assumes st_ok: "ok a n \<Longrightarrow> \<exists>m'. st n m a w = Inr m'"
    and ld_ok: "ok a n \<Longrightarrow> \<exists>w. ld n m a = Inr w"
    and st_bad: "\<not> ok a n \<Longrightarrow> st n m a w = Inl (Bad_access a)"
    and ld_bad: "\<not> ok a n \<Longrightarrow> ld n m a = Inl (Bad_access a)"
    and ld_st_same: "st n m a w = Inr m' \<Longrightarrow> 8 * n = LENGTH('a) \<Longrightarrow> ld n m' a = Inr w"
    and ld_st_disjoint:
      "st n m a w = Inr m' \<Longrightarrow> a + n \<le> b \<or> b + k \<le> a \<Longrightarrow> ld k m' b = ld k m b"
begin

text \<open>A run of stores at consecutive slots: the first failure ends it.\<close>

fun st_all :: "nat \<Rightarrow> 'm \<Rightarrow> nat \<Rightarrow> 'a word list \<Rightarrow> failure + 'm" where
  "st_all n m a [] = Inr m"
| "st_all n m a (w # ws) = bind_r (st n m a w) (\<lambda>m'. st_all n m' (a + n) ws)"

lemma st_all_disjoint:
  assumes "st_all n m a ws = Inr m'" and "a + n * length ws \<le> b \<or> b + k \<le> a"
  shows "ld k m' b = ld k m b"
  using assms
proof (induction ws arbitrary: m a)
  case Nil
  then show ?case by simp
next
  case (Cons w ws)
  then obtain m1 where m1: "st n m a w = Inr m1" and r: "st_all n m1 (a + n) ws = Inr m'"
    by (auto simp: bind_r_eq_Inr_iff)
  from Cons.prems(2) have "a + n \<le> b \<or> b + k \<le> a" and "a + n + n * length ws \<le> b \<or> b + k \<le> a + n"
    by auto
  with Cons.IH [OF r] ld_st_disjoint [OF m1] show ?case by simp
qed

lemma st_all_nth:
  assumes "st_all n m a ws = Inr m'" and "8 * n = LENGTH('a)" and "i < length ws"
  shows "ld n m' (a + n * i) = Inr (ws ! i)"
  using assms
proof (induction ws arbitrary: m a i)
  case Nil
  then show ?case by simp
next
  case (Cons w ws)
  then obtain m1 where m1: "st n m a w = Inr m1" and r: "st_all n m1 (a + n) ws = Inr m'"
    by (auto simp: bind_r_eq_Inr_iff)
  show ?case
  proof (cases i)
    case 0
    have "ld n m' a = ld n m1 a" by (rule st_all_disjoint [OF r]) simp
    with 0 ld_st_same [OF m1 Cons.prems(2)] show ?thesis by simp
  next
    case (Suc j)
    with Cons.IH [OF r Cons.prems(2), of j] Cons.prems(3) show ?thesis
      by (simp add: algebra_simps)
  qed
qed

lemma st_all_ok:
  assumes "\<And>i. i < length ws \<Longrightarrow> ok (a + n * i) n"
  shows "\<exists>m'. st_all n m a ws = Inr m'"
  using assms
proof (induction ws arbitrary: m a)
  case Nil
  then show ?case by simp
next
  case (Cons w ws)
  from Cons.prems [of 0] obtain m1 where "st n m a w = Inr m1" using st_ok by force
  moreover have "\<exists>m'. st_all n m1 (a + n) ws = Inr m'"
  proof (rule Cons.IH)
    fix i assume "i < length ws"
    then show "ok (a + n + n * i) n" using Cons.prems [of "Suc i"] by (simp add: algebra_simps)
  qed
  ultimately show ?case by simp
qed

end

interpretation ram: byte_store load store in_mem
proof (unfold_locales)
  fix n m a m' and w :: "'a::len word"
  assume "store n m a w = Inr m'" and "8 * n = LENGTH('a)"
  then show "load n m' a = Inr w"
    by (simp add: store_eq_Inr_iff load_eq_Inr_iff le_word_le_bytes)
next
  fix n m a b k m' and w :: "'a::len word"
  assume "store n m a w = Inr m'" and "a + n \<le> b \<or> b + k \<le> a"
  then show "(load k m' b :: failure + 'a word) = load k m b"
    by (auto simp: store_eq_Inr_iff load_def read_write_disjoint)
qed (auto simp: load_def store_def)

section \<open>Loads after block writes\<close>

lemma load_write_same:
  "8 * n = LENGTH('a::len) \<Longrightarrow> in_mem a n \<Longrightarrow>
     load n (write_bytes m a (le_bytes n (w :: 'a word))) a = Inr w"
  by (simp add: load_def le_word_le_bytes)

lemma load_write_disjoint:
  "a + length bs \<le> b \<or> b + n \<le> a \<Longrightarrow> load n (write_bytes m a bs) b = load n m b"
  by (simp add: load_def read_write_disjoint)

lemma le_word_zeros [simp]: "le_word (replicate n 0) = (0 :: 'a::len word)"
  by (induction n) simp_all

lemma load_zeros: "load n (\<lambda>_. 0) a = (if in_mem a n then Inr 0 else Inl (Bad_access a))"
  by (simp add: load_def read_bytes_def map_replicate_const)

lemma in_mem_val: "in_mem a n \<longleftrightarrow> a + n \<le> 4294967296"
  by (simp add: in_mem_def mem_size_val)

end
