(* ===== verification/Machine_State.thy ===== *)
theory Machine_State
  imports Memory
begin

text \<open>
  The simulator's machine state, \<open>interpret.hh: state_t\<close>, and the helpers that work on it:
  \<open>initState\<close>, \<open>checksum_gprs\<close>, and the memory accessors of \<open>top.hh\<close> and the DPI
  functions \<open>top.cc: read_word, write_byte, write_half, write_word\<close>.

  A register index is always a 5-bit field, so the register file \<open>int32_t gpr[32]\<close> is a
  total function on 5-bit words; register values are 32-bit words, read by \<open>sint\<close> where
  the code treats them as signed. The pointer \<open>mem\<close> is modelled by the contents of the
  mapping it points to: the program sets it once, to a fresh zero-filled mapping.
\<close>

unbundle bit_operations_syntax

section \<open>The state\<close>

record state_t =
  pc :: u32
  last_pc :: u32
  gpr :: "u5 \<Rightarrow> u32"
  mem :: mem
  brk :: u8
  bad_addr :: u8
  epc :: u32
  maxicnt :: u64
  icnt :: u64

text \<open>\<open>mmap4G\<close>: an anonymous private mapping, which the kernel fills with zeros.\<close>

definition mmap4G :: mem where
  "mmap4G = (\<lambda>_. 0)"

definition initState :: state_t where
  "initState = \<lparr>pc = 0, last_pc = 0, gpr = (\<lambda>_. 0), mem = mmap4G, brk = 0, bad_addr = 0,
     epc = 0, maxicnt = 0, icnt = 0\<rparr>"

fun xor_upto :: "(u5 \<Rightarrow> u32) \<Rightarrow> nat \<Rightarrow> u32 \<Rightarrow> u32" where
  "xor_upto g 0 h = h"
| "xor_upto g (Suc n) h = xor_upto g n h XOR g (of_nat n)"

definition checksum_gprs :: "state_t \<Rightarrow> u32" where
  "checksum_gprs s = xor_upto (gpr s) 32 0"

section \<open>Updates the instructions make\<close>

definition set_gpr :: "state_t \<Rightarrow> u5 \<Rightarrow> u32 \<Rightarrow> state_t" where
  "set_gpr s r v = s\<lparr>gpr := (gpr s)(r := v)\<rparr>"

definition next_pc :: "state_t \<Rightarrow> state_t" where
  "next_pc s = s\<lparr>pc := pc s + 4\<rparr>"

lemma set_gpr_sel [simp]:
  "pc (set_gpr s r v) = pc s" "last_pc (set_gpr s r v) = last_pc s"
  "gpr (set_gpr s r v) = (gpr s)(r := v)" "mem (set_gpr s r v) = mem s"
  "brk (set_gpr s r v) = brk s" "bad_addr (set_gpr s r v) = bad_addr s"
  "epc (set_gpr s r v) = epc s" "maxicnt (set_gpr s r v) = maxicnt s"
  "icnt (set_gpr s r v) = icnt s"
  by (simp_all add: set_gpr_def)

lemma next_pc_sel [simp]:
  "pc (next_pc s) = pc s + 4" "last_pc (next_pc s) = last_pc s"
  "gpr (next_pc s) = gpr s" "mem (next_pc s) = mem s"
  "brk (next_pc s) = brk s" "bad_addr (next_pc s) = bad_addr s"
  "epc (next_pc s) = epc s" "maxicnt (next_pc s) = maxicnt s"
  "icnt (next_pc s) = icnt s"
  by (simp_all add: next_pc_def)

section \<open>Accessors used by the testbench\<close>

definition get_insn :: "u32 \<Rightarrow> state_t \<Rightarrow> failure + u32" where
  "get_insn a s = mem_r32 (mem s) (unat a)"

definition st_r32 :: "state_t \<Rightarrow> u32 \<Rightarrow> failure + u32" where
  "st_r32 s a = mem_r32 (mem s) (unat a)"

definition st_r64 :: "state_t \<Rightarrow> u32 \<Rightarrow> failure + u64" where
  "st_r64 s a = mem_r64 (mem s) (unat a)"

definition st_w32 :: "state_t \<Rightarrow> u32 \<Rightarrow> u32 \<Rightarrow> failure + state_t" where
  "st_w32 s a x = bind_r (mem_w32 (mem s) (unat a) x) (\<lambda>m. Inr (s\<lparr>mem := m\<rparr>))"

definition st_w64 :: "state_t \<Rightarrow> u32 \<Rightarrow> u64 \<Rightarrow> failure + state_t" where
  "st_w64 s a x = bind_r (mem_w64 (mem s) (unat a) x) (\<lambda>m. Inr (s\<lparr>mem := m\<rparr>))"

text \<open>The DPI functions take \<open>int\<close> addresses and reinterpret them as unsigned.\<close>

definition read_word :: "state_t \<Rightarrow> u32 \<Rightarrow> failure + u32" where
  "read_word s a = mem_r32 (mem s) (unat a)"

definition write_byte :: "state_t \<Rightarrow> u32 \<Rightarrow> u8 \<Rightarrow> failure + state_t" where
  "write_byte s a d = bind_r (mem_w8 (mem s) (unat a) d) (\<lambda>m. Inr (s\<lparr>mem := m\<rparr>))"

definition write_half :: "state_t \<Rightarrow> u32 \<Rightarrow> u16 \<Rightarrow> failure + state_t" where
  "write_half s a d = bind_r (mem_w16 (mem s) (unat a) d) (\<lambda>m. Inr (s\<lparr>mem := m\<rparr>))"

definition write_word :: "state_t \<Rightarrow> u32 \<Rightarrow> u32 \<Rightarrow> failure + state_t" where
  "write_word s a d = bind_r (mem_w32 (mem s) (unat a) d) (\<lambda>m. Inr (s\<lparr>mem := m\<rparr>))"

definition check_insn_bytes :: "state_t \<Rightarrow> u64 \<Rightarrow> u32 \<Rightarrow> failure + bool" where
  "check_insn_bytes s a data = bind_r (get_insn (ucast a) s) (\<lambda>insn. Inr (data = insn))"

lemma xor_upto_upd:
  "n \<le> 32 \<Longrightarrow> xor_upto (g(r := v)) n h =
     (if unat r < n then xor_upto g n h XOR g r XOR v else xor_upto g n h)"
proof (induction n)
  case 0
  then show ?case by simp
next
  case (Suc n)
  have "unat (of_nat n :: u5) = n" using Suc.prems by (simp add: unat_of_nat)
  then have eq: "of_nat n = r \<longleftrightarrow> n = unat r" by auto
  show ?case using Suc eq by (auto simp: ac_simps)
qed

text \<open>
  Writing one register changes the checksum by the exclusive or of its old and new value.
\<close>

lemma checksum_set_gpr: "checksum_gprs (set_gpr s r v) = checksum_gprs s XOR gpr s r XOR v"
proof -
  have "unat r < 32" using unsigned_less [of r, where ?'a = nat] by simp
  then show ?thesis by (simp add: checksum_gprs_def xor_upto_upd)
qed

end
