(* ===== verification/Memory_Port.thy ===== *)
theory Memory_Port
  imports Machine_State
begin

text \<open>
  The memory behind the Verilog core, as the loop of \<open>top.cc: main\<close> plays it: one request at
  a time, answered after a fixed number of cycles with a 64-byte line of the state \<open>s\<close>
  (opcode 4) or after twice that number with a line written to it (opcode 7). The variables
  the loop keeps for it are the record \<open>mem_port\<close>; \<open>mem_service\<close> is one iteration.
\<close>

unbundle bit_operations_syntax

section \<open>Lines\<close>

text \<open>
  The sixteen word accesses of a request. The address is 32 bits wide, so an address past
  the end of the memory wraps around.
\<close>

fun load_line :: "nat \<Rightarrow> mem \<Rightarrow> u32 \<Rightarrow> failure + u32 list" where
  "load_line 0 m a = Inr []"
| "load_line (Suc n) m a =
     bind_r (mem_r32 m (unat a)) (\<lambda>w. bind_r (load_line n m (a + 4)) (\<lambda>ws. Inr (w # ws)))"

fun store_line :: "mem \<Rightarrow> u32 \<Rightarrow> u32 list \<Rightarrow> failure + mem" where
  "store_line m a [] = Inr m"
| "store_line m a (w # ws) = bind_r (mem_w32 m (unat a) w) (\<lambda>m'. store_line m' (a + 4) ws)"

section \<open>The port\<close>

record mem_req =
  mem_req_valid :: bool
  mem_req_addr :: u32
  mem_req_opcode :: u8
  mem_req_store_data :: "nat \<Rightarrow> u32"

record mem_port =
  mem_rsp_valid :: bool
  mem_rsp_load_data :: "u32 list"
  mem_reply_cycle :: u64
  mem_reqs :: u64
  n_loads :: u64
  n_stores :: u64
  last_load_addr :: u64
  last_store_addr :: u64
  last_addr :: u64
  touched_lines :: "nat \<Rightarrow> bool"

definition mem_port_init :: mem_port where
  "mem_port_init = \<lparr>mem_rsp_valid = False, mem_rsp_load_data = replicate 16 0,
     mem_reply_cycle = - 1, mem_reqs = 0, n_loads = 0, n_stores = 0, last_load_addr = 0,
     last_store_addr = 0, last_addr = 0, touched_lines = (\<lambda>_. False)\<rparr>"

definition mem_accept :: "u64 \<Rightarrow> u64 \<Rightarrow> mem_req \<Rightarrow> mem_port \<Rightarrow> mem_port" where
  "mem_accept mem_lat cyc q p =
    (if mem_req_valid q \<and> mem_reply_cycle p = - 1
     then p\<lparr>mem_reqs := mem_reqs p + 1,
            mem_reply_cycle := cyc + (if mem_req_opcode q = 4 then 1 else 2) * mem_lat\<rparr>
     else p)"

definition mem_reply :: "mem_req \<Rightarrow> mem \<Rightarrow> mem_port \<Rightarrow> failure + mem \<times> mem_port" where
  "mem_reply q m p =
    (let a = mem_req_addr q; p1 = p\<lparr>mem_reply_cycle := - 1\<rparr> in
     bind_r (assert_r (mem_req_valid q)) (\<lambda>_.
     bind_r
       (if mem_req_opcode q = 4 then
          bind_r (load_line 16 m a) (\<lambda>ws.
          bind_r (assert_r (a AND 0xf = 0)) (\<lambda>_.
          Inr (m, p1\<lparr>mem_rsp_load_data := ws, last_load_addr := ucast a,
            touched_lines := (touched_lines p1)(unat (drop_bit 4 a) := True),
            n_loads := n_loads p1 + 1\<rparr>)))
        else if mem_req_opcode q = 7 then
          bind_r (store_line m a (map (mem_req_store_data q) [0..<16])) (\<lambda>m'.
          Inr (m', p1\<lparr>last_store_addr := ucast a, n_stores := n_stores p1 + 1\<rparr>))
        else Inr (m, p1)) (\<lambda>(m', p2).
     Inr (m', p2\<lparr>last_addr := ucast a, mem_rsp_valid := True\<rparr>))))"

text \<open>The third component says whether the request was answered; the loop then resets its watchdog.\<close>

definition mem_service ::
    "u64 \<Rightarrow> u64 \<Rightarrow> mem_req \<Rightarrow> mem \<Rightarrow> mem_port \<Rightarrow> failure + mem \<times> mem_port \<times> bool" where
  "mem_service mem_lat cyc q m p =
    (let p1 = mem_accept mem_lat cyc q (p\<lparr>mem_rsp_valid := False\<rparr>) in
     if mem_reply_cycle p1 = cyc then bind_r (mem_reply q m p1) (\<lambda>(m', p2). Inr (m', p2, True))
     else Inr (m, p1, False))"

text \<open>Consecutive iterations, with the responses they present to the core.\<close>

fun mem_run :: "u64 \<Rightarrow> u64 \<Rightarrow> mem_req list \<Rightarrow> mem \<Rightarrow> mem_port \<Rightarrow> failure + mem \<times> mem_port \<times> bool list" where
  "mem_run mem_lat cyc [] m p = Inr (m, p, [])"
| "mem_run mem_lat cyc (q # qs) m p =
     bind_r (mem_service mem_lat cyc q m p) (\<lambda>(m1, p1, r).
     bind_r (mem_run mem_lat (cyc + 1) qs m1 p1) (\<lambda>(m2, p2, rs). Inr (m2, p2, r # rs)))"

section \<open>Lines as words of memory\<close>

text \<open>A line that does not cross the end of the memory is sixteen consecutive words.\<close>

lemma load_line_Inr:
  assumes "unat a + 4 * n \<le> 2 ^ 32"
  shows "load_line n m a = Inr (map (\<lambda>i. le_word (read_bytes m (unat a + 4 * i) 4)) [0..<n])"
  using assms
proof (induction n arbitrary: a)
  case 0
  then show ?case by simp
next
  case (Suc n)
  have r: "mem_r32 m (unat a) = Inr (le_word (read_bytes m (unat a) 4))"
    using Suc.prems by (intro load_in) (simp add: in_mem_val)
  have "load_line n m (a + 4) = Inr (map (\<lambda>i. le_word (read_bytes m (unat a + 4 * Suc i) 4)) [0..<n])"
  proof (cases "n = 0")
    case True
    then show ?thesis by simp
  next
    case False
    with Suc.prems have u: "unat (a + 4) = unat a + 4" by (intro unat_plus_4) simp
    with Suc.prems have "unat (a + 4) + 4 * n \<le> 2 ^ 32" by simp
    with Suc.IH [of "a + 4"] show ?thesis by (simp add: u add.assoc)
  qed
  moreover have "map (\<lambda>i. le_word (read_bytes m (unat a + 4 * i) 4) :: u32) [0..<Suc n] =
      le_word (read_bytes m (unat a) 4) # map (\<lambda>i. le_word (read_bytes m (unat a + 4 * Suc i) 4)) [0..<n]"
    by (simp add: map_upt_Suc del: upt_Suc)
  ultimately show ?case using r by (simp del: upt_Suc)
qed

lemma store_line_st_all:
  "unat a + 4 * length ws \<le> 2 ^ 32 \<Longrightarrow> store_line m a ws = ram.st_all 4 m (unat a) ws"
proof (induction ws arbitrary: m a)
  case Nil
  then show ?case by (simp add: ram.st_all.simps)
next
  case (Cons w ws)
  have "store_line m' (a + 4) ws = ram.st_all 4 m' (unat a + 4) ws" for m'
  proof (cases "ws = []")
    case True
    then show ?thesis by (simp add: ram.st_all.simps)
  next
    case False
    with Cons.prems have u: "unat (a + 4) = unat a + 4"
      by (intro unat_plus_4) (cases ws, simp_all)
    with Cons.prems have "unat (a + 4) + 4 * length ws \<le> 2 ^ 32" by simp
    with Cons.IH [of "a + 4" m'] show ?thesis by (simp add: u)
  qed
  then show ?case by (simp add: ram.st_all.simps)
qed

lemma aligned_line:
  assumes "unat (a :: u32) mod 64 = 0"
  shows "unat a + 64 \<le> 2 ^ 32"
proof -
  from assms obtain k where k: "unat a = 64 * k" by (auto simp: mod_eq_0_iff_dvd dvd_def)
  have "unat a < 2 ^ 32" using unsigned_less [of a, where ?'a = nat] by simp
  with k show ?thesis by simp
qed

lemma aligned_lines_apart:
  assumes "unat (a :: u32) mod 64 = 0" and "unat (b :: u32) mod 64 = 0" and "a \<noteq> b"
  shows "unat a + 64 \<le> unat b \<or> unat b + 64 \<le> unat a"
proof -
  from assms(1,2) obtain k j where "unat a = 64 * k" "unat b = 64 * j"
    by (auto simp: mod_eq_0_iff_dvd dvd_def)
  moreover have "unat a \<noteq> unat b" using assms(3) by (metis word_unat_eq_iff)
  ultimately show ?thesis by (cases "k < j") auto
qed

lemma load_line_cong:
  assumes "\<And>i. i < n \<Longrightarrow> (mem_r32 m (unat a + 4 * i) :: failure + u32) = mem_r32 m' (unat a + 4 * i)"
    and "unat a + 4 * n \<le> 2 ^ 32"
  shows "load_line n m a = load_line n m' a"
proof -
  have "(le_word (read_bytes m (unat a + 4 * i) 4) :: u32) = le_word (read_bytes m' (unat a + 4 * i) 4)"
    if "i < n" for i
  proof -
    have "in_mem (unat a + 4 * i) 4" using that assms(2) by (simp add: in_mem_val)
    then show ?thesis using assms(1) [OF that] by (simp add: load_in)
  qed
  then show ?thesis by (simp add: load_line_Inr [OF assms(2)])
qed

lemma line_stored:
  assumes "unat a mod 64 = 0" and "unat b mod 64 = 0" and "length ws = 16"
  shows "\<exists>m'. store_line m a ws = Inr m' \<and>
    load_line 16 m' b = (if b = a then Inr ws else load_line 16 m b)"
proof -
  note fit = aligned_line [OF assms(1)]
  have st: "store_line m a ws = ram.st_all 4 m (unat a) ws"
    using fit assms(3) by (intro store_line_st_all) simp
  have "\<exists>m'. ram.st_all 4 m (unat a) ws = Inr m'"
    using fit assms(3) by (intro ram.st_all_ok) (simp add: in_mem_val)
  then obtain m' where m': "ram.st_all 4 m (unat a) ws = Inr m'" by blast
  have "load_line 16 m' b = (if b = a then Inr ws else load_line 16 m b)"
  proof (cases "b = a")
    case True
    have "le_word (read_bytes m' (unat a + 4 * i) 4) = ws ! i" if "i < 16" for i
      using ram.st_all_nth [OF m', of i] that assms(3) by (simp add: load_eq_Inr_iff)
    then have "map (\<lambda>i. le_word (read_bytes m' (unat a + 4 * i) 4)) [0..<16] = ws"
      using assms(3) by (intro nth_equalityI) (simp_all del: upt_rec_numeral)
    then show ?thesis using True load_line_Inr [of a 16 m'] fit by (simp del: upt_rec_numeral)
  next
    case False
    have "load_line 16 m' b = load_line 16 m b"
    proof (rule load_line_cong)
      fix i :: nat
      assume "i < 16"
      then show "(mem_r32 m' (unat b + 4 * i) :: failure + u32) = mem_r32 m (unat b + 4 * i)"
        using aligned_lines_apart [OF assms(1,2)] False assms(3)
        by (intro ram.st_all_disjoint [OF m']) auto
    qed (use aligned_line [OF assms(2)] in simp)
    with False show ?thesis by simp
  qed
  with st m' show ?thesis by simp
qed

text \<open>
  Lines. Writing a 64-byte line at an aligned address always goes through; reading a
  line back gives the sixteen words written, and every other aligned line is unchanged.
\<close>

theorem line_roundtrip:
  assumes "unat a mod 64 = 0" and "unat b mod 64 = 0" and "length ws = 16"
  shows "\<exists>m'. store_line m a ws = Inr m' \<and>
    load_line 16 m' b = (if b = a then Inr ws else load_line 16 m b)"
  using assms by (rule line_stored)

theorem line_roundtrip_witness:
  "\<exists>m'. store_line mmap4G 64 (replicate 16 7) = Inr m' \<and> load_line 16 m' 64 = Inr (replicate 16 7)"
  using line_roundtrip [of 64 64 "replicate 16 7" mmap4G] by simp

section \<open>The time of an answer\<close>

lemma mem_service_wait:
  assumes "mem_reply_cycle p \<noteq> - 1" and "mem_reply_cycle p \<noteq> cyc"
  shows "mem_service mem_lat cyc q m p = Inr (m, p\<lparr>mem_rsp_valid := False\<rparr>, False)"
  using assms by (simp add: mem_service_def mem_accept_def Let_def)

lemma mem_run_wait:
  assumes "mem_reply_cycle p \<noteq> - 1" and "unat cyc + k = unat (mem_reply_cycle p)"
    and "\<not> mem_rsp_valid p"
  shows "mem_run mem_lat cyc (replicate k q @ qs) m p =
    bind_r (mem_run mem_lat (mem_reply_cycle p) qs m p) (\<lambda>(m2, p2, rs). Inr (m2, p2, replicate k False @ rs))"
  using assms
proof (induction k arbitrary: cyc)
  case 0
  then have "cyc = mem_reply_cycle p" by (simp add: word_unat_eq_iff)
  then show ?case by (cases "mem_run mem_lat cyc qs m p") auto
next
  case (Suc k)
  then have "unat cyc < unat (mem_reply_cycle p)" by simp
  then have ne: "mem_reply_cycle p \<noteq> cyc" by auto
  have "unat (mem_reply_cycle p) < 2 ^ 64"
    using unsigned_less [of "mem_reply_cycle p", where ?'a = nat] by simp
  then have "unat (cyc + 1) = unat cyc + 1"
    using Suc.prems(2) by (subst unat_add_lem [THEN iffD1]) simp_all
  with Suc.prems have "unat (cyc + 1) + k = unat (mem_reply_cycle p)" by simp
  note IH = Suc.IH [OF Suc.prems(1) this Suc.prems(3)]
  have "p\<lparr>mem_rsp_valid := False\<rparr> = p" using Suc.prems(3) by simp
  with mem_service_wait [OF Suc.prems(1) ne, of mem_lat q m] IH show ?case
    by (cases "mem_run mem_lat (mem_reply_cycle p) qs m p") auto
qed

text \<open>How long a request takes: a write twice as long as a read.\<close>

definition mem_latency :: "u64 \<Rightarrow> mem_req \<Rightarrow> nat" where
  "mem_latency mem_lat q = (if mem_req_opcode q = 4 then 1 else 2) * unat mem_lat"

lemma mem_accept_idle:
  assumes "mem_req_valid q" and "mem_reply_cycle p = - 1"
    and "unat cyc + mem_latency mem_lat q < 2 ^ 64 - 1"
  shows "mem_accept mem_lat cyc q p = p\<lparr>mem_reqs := mem_reqs p + 1,
    mem_reply_cycle := of_nat (unat cyc + mem_latency mem_lat q)\<rparr>"
  using assms by (simp add: mem_accept_def mem_latency_def)

lemma mem_reply_line:
  assumes "mem_req_valid q" and "unat (mem_req_addr q) mod 64 = 0" and "mem_req_opcode q = 4 \<or> mem_req_opcode q = 7"
  shows "\<exists>m' p'. mem_reply q m p = Inr (m', p') \<and> mem_rsp_valid p' \<and> mem_reply_cycle p' = - 1 \<and>
    mem_reqs p' = mem_reqs p \<and>
    (if mem_req_opcode q = 4
     then m' = m \<and> load_line 16 m (mem_req_addr q) = Inr (mem_rsp_load_data p') \<and> n_loads p' = n_loads p + 1
     else store_line m (mem_req_addr q) (map (mem_req_store_data q) [0..<16]) = Inr m' \<and>
       n_stores p' = n_stores p + 1)"
proof -
  let ?a = "mem_req_addr q"
  note fit = aligned_line [OF assms(2)]
  have "?a AND 0xf = 0"
  proof -
    have "unat (take_bit 4 ?a) = take_bit 4 (unat ?a)" by (simp add: unsigned_take_bit_eq)
    also have "\<dots> = unat ?a mod 16" by (simp add: take_bit_eq_mod)
    also have "\<dots> = 0" using assms(2) by presburger
    finally have "take_bit 4 ?a = 0" by (simp only: word_unat_eq_iff unsigned_0)
    then show ?thesis by (simp add: take_bit_eq_mask mask_eq_exp_minus_1)
  qed
  moreover obtain ws where "load_line 16 m ?a = Inr ws"
    using fit load_line_Inr [of ?a 16 m] by simp
  moreover obtain m' where "store_line m ?a (map (mem_req_store_data q) [0..<16]) = Inr m'"
    using line_stored [OF assms(2,2), of "map (mem_req_store_data q) [0..<16]" m] by auto
  ultimately show ?thesis using assms(1,3) by (auto simp: mem_reply_def Let_def)
qed

text \<open>
  C22. Every memory request is answered, once, and on time. When the port is idle and the core
  holds a read (opcode 4) or write (opcode 7) of an aligned line until the answer, the port
  presents no response for exactly \<open>mem_lat\<close> iterations (twice as many for a write) and a
  response in the next one: for a read the line as the memory holds it, for a write after
  storing the line; then it is idle again and has counted one request.
\<close>

theorem request_answered_on_time:
  assumes "mem_req_valid q" and "unat (mem_req_addr q) mod 64 = 0"
    and "mem_req_opcode q = 4 \<or> mem_req_opcode q = 7" and "mem_reply_cycle p = - 1"
    and "unat cyc + mem_latency mem_lat q < 2 ^ 64 - 1"
  shows "\<exists>m' p'. mem_run mem_lat cyc (replicate (mem_latency mem_lat q + 1) q) m p =
      Inr (m', p', replicate (mem_latency mem_lat q) False @ [True]) \<and>
    mem_rsp_valid p' \<and> mem_reply_cycle p' = - 1 \<and> mem_reqs p' = mem_reqs p + 1 \<and>
    (if mem_req_opcode q = 4
     then m' = m \<and> load_line 16 m (mem_req_addr q) = Inr (mem_rsp_load_data p')
     else store_line m (mem_req_addr q) (map (mem_req_store_data q) [0..<16]) = Inr m')"
proof -
  define n where "n = mem_latency mem_lat q"
  define r :: u64 where "r = of_nat (unat cyc + n)"
  have r: "unat r = unat cyc + n" using assms(5) by (simp add: r_def n_def unat_of_nat_small del: of_nat_add)
  with assms(5) have r1: "r \<noteq> - 1" by (auto simp: n_def unsigned_minus_1_eq_mask mask_eq_exp_minus_1)
  define p1 where "p1 = p\<lparr>mem_rsp_valid := False, mem_reqs := mem_reqs p + 1, mem_reply_cycle := r\<rparr>"
  from mem_reply_line [OF assms(1-3), of m p1] obtain m' p' where
    rep: "mem_reply q m p1 = Inr (m', p')" and
    p': "mem_rsp_valid p' \<and> mem_reply_cycle p' = - 1 \<and> mem_reqs p' = mem_reqs p1 \<and>
      (if mem_req_opcode q = 4
       then m' = m \<and> load_line 16 m (mem_req_addr q) = Inr (mem_rsp_load_data p')
       else store_line m (mem_req_addr q) (map (mem_req_store_data q) [0..<16]) = Inr m')"
    by (auto split: if_splits)
  have acc: "mem_accept mem_lat cyc q (p\<lparr>mem_rsp_valid := False\<rparr>) = p1"
    using assms(4,5) by (subst mem_accept_idle [OF assms(1)]) (simp_all add: p1_def r_def n_def)
  have fin: "mem_service mem_lat r q m p1 = Inr (m', p', True)"
  proof -
    have "p1\<lparr>mem_rsp_valid := False\<rparr> = p1" and "mem_reply_cycle p1 = r" by (simp_all add: p1_def)
    with rep r1 show ?thesis by (simp add: mem_service_def mem_accept_def)
  qed
  have "mem_run mem_lat cyc (replicate (n + 1) q) m p = Inr (m', p', replicate n False @ [True])"
  proof (cases n)
    case 0
    then have "r = cyc" using r by (simp add: word_unat_eq_iff)
    then show ?thesis using rep acc 0 by (simp add: mem_service_def p1_def)
  next
    case (Suc k)
    then have "r \<noteq> cyc" using r by (auto simp: word_unat_eq_iff)
    then have "mem_service mem_lat cyc q m p = Inr (m, p1, False)"
      using acc by (simp add: mem_service_def p1_def)
    moreover have "unat (cyc + 1) = unat cyc + 1"
      using assms(5) r unsigned_less [of r, where ?'a = nat] Suc
      by (subst unat_add_lem [THEN iffD1]) simp_all
    then have "mem_run mem_lat (cyc + 1) (replicate k q @ [q]) m p1 =
        Inr (m', p', replicate k False @ [True])"
      using fin r r1 Suc by (subst mem_run_wait) (simp_all add: p1_def)
    ultimately show ?thesis using Suc by (simp add: replicate_append_same)
  qed
  with p' show ?thesis by (auto simp: n_def p1_def)
qed

text \<open>A read of the line at 128.\<close>

definition read_demo :: mem_req where
  "read_demo = \<lparr>mem_req_valid = True, mem_req_addr = 128, mem_req_opcode = 4,
     mem_req_store_data = (\<lambda>_. 0)\<rparr>"

theorem request_answered_on_time_witness:
  "\<exists>m' p'. mem_run 4 10 (replicate 5 read_demo) mmap4G mem_port_init =
    Inr (m', p', [False, False, False, False, True]) \<and> mem_rsp_valid p'"
proof -
  have "mem_latency 4 read_demo = 4" "mem_req_valid read_demo"
    "unat (mem_req_addr read_demo) mod 64 = 0" "mem_req_opcode read_demo = 4"
    "mem_reply_cycle mem_port_init = - 1"
    by (simp_all add: mem_latency_def read_demo_def mem_port_init_def)
  with request_answered_on_time [of read_demo mem_port_init 10 4 mmap4G] obtain m' p' where
    "mem_run 4 10 (replicate (4 + 1) read_demo) mmap4G mem_port_init =
       Inr (m', p', replicate 4 False @ [True])" and "mem_rsp_valid p'"
    by auto
  moreover have "replicate 4 False @ [True] = [False, False, False, False, True]"
    by (simp add: numeral_eq_Suc)
  moreover have "(4 :: nat) + 1 = 5" by simp
  ultimately show ?thesis by (metis (no_types))
qed

end
