(* ===== verification/Insn_Formats.thy ===== *)
theory Insn_Formats
  imports Prelude
begin

text \<open>
  The instruction formats of \<open>interpret.hh\<close>: the bit-field structs \<open>utype_t\<close>, \<open>branch_t\<close>,
  \<open>jal_t\<close>, \<open>jalr_t\<close>, \<open>rtype_t\<close>, \<open>itype_t\<close>, \<open>store_t\<close> and \<open>load_t\<close>, and the
  union \<open>riscv_t\<close> that overlays them on the raw 32-bit word. Bit fields are allocated from
  the least significant bit, as the compilers the Makefile names do. Field names carry their
  struct's initial, because record fields share one name space.

  Each struct has the view of a raw word through the union (\<open>..._of\<close>) and the raw word of
  a filled-in struct (\<open>raw_of_...\<close>); the two are inverse to each other.
\<close>

unbundle bit_operations_syntax

section \<open>Reading and placing one bit field\<close>

definition field :: "nat \<Rightarrow> u32 \<Rightarrow> 'a::len word" where
  "field n w = ucast (drop_bit n w)"

definition place :: "nat \<Rightarrow> 'a::len word \<Rightarrow> u32" where
  "place n x = push_bit n (ucast x)"

lemma bit_field_iff [bit_simps]:
  "bit (field n w :: 'a::len word) k \<longleftrightarrow> k < LENGTH('a) \<and> bit w (n + k)"
  by (auto simp: field_def bit_ucast_iff bit_drop_bit_eq dest: bit_imp_le_length)

lemma bit_place_iff [bit_simps]:
  "bit (place n (x :: 'a::len word)) k \<longleftrightarrow> n \<le> k \<and> k < 32 \<and> bit x (k - n)"
  by (auto simp: place_def bit_push_bit_iff bit_ucast_iff dest: bit_imp_le_length)

lemma field_OR: "field n (a OR b) = field n a OR field n b"
  by (rule bit_word_eqI) (auto simp: bit_simps)

lemma field_place_same: "n + LENGTH('a) \<le> 32 \<Longrightarrow> field n (place n (x :: 'a::len word)) = x"
  by (rule bit_word_eqI) (auto simp: bit_simps dest: bit_imp_le_length)

lemma field_place_above: "n + LENGTH('a) \<le> k \<Longrightarrow> (field n (place k (x :: 'b::len word)) :: 'a::len word) = 0"
  by (rule bit_word_eqI) (auto simp: bit_simps)

lemma field_place_below: "k + LENGTH('b) \<le> n \<Longrightarrow> (field n (place k (x :: 'b::len word)) :: 'a::len word) = 0"
  by (rule bit_word_eqI) (auto simp: bit_simps dest: bit_imp_le_length)

lemmas field_laws [word_fields] =
  field_OR field_place_same field_place_above field_place_below

lemma place_field: "place n (field n w :: 'a::len word) = w AND push_bit n (mask LENGTH('a))"
  by (rule bit_word_eqI) (auto simp: bit_simps dest: bit_imp_le_length)

text \<open>Rebuilding a word from fields that tile its 32 bits, in terms of single bits.\<close>

lemma bit_place_field_iff [bit_simps]:
  "bit (place n (field n w :: 'a::len word)) k \<longleftrightarrow> n \<le> k \<and> k < n + LENGTH('a) \<and> bit w k"
  by (auto simp: bit_simps dest: bit_imp_le_length)

section \<open>The structs and their views\<close>

record utype_t =
  u_opcode :: "7 word"
  u_rd :: u5
  u_imm :: "20 word"

definition utype_of :: "u32 \<Rightarrow> utype_t" where
  "utype_of w = \<lparr>u_opcode = field 0 w, u_rd = field 7 w, u_imm = field 12 w\<rparr>"

definition raw_of_utype :: "utype_t \<Rightarrow> u32" where
  "raw_of_utype x = place 0 (u_opcode x) OR place 7 (u_rd x) OR place 12 (u_imm x)"

record branch_t =
  b_opcode :: "7 word"
  b_imm11 :: "1 word"
  b_imm4_1 :: "4 word"
  b_sel :: "3 word"
  b_rs1 :: u5
  b_rs2 :: u5
  b_imm10_5 :: "6 word"
  b_imm12 :: "1 word"

definition branch_of :: "u32 \<Rightarrow> branch_t" where
  "branch_of w = \<lparr>b_opcode = field 0 w, b_imm11 = field 7 w, b_imm4_1 = field 8 w,
     b_sel = field 12 w, b_rs1 = field 15 w, b_rs2 = field 20 w, b_imm10_5 = field 25 w,
     b_imm12 = field 31 w\<rparr>"

definition raw_of_branch :: "branch_t \<Rightarrow> u32" where
  "raw_of_branch x = place 0 (b_opcode x) OR place 7 (b_imm11 x) OR place 8 (b_imm4_1 x) OR
     place 12 (b_sel x) OR place 15 (b_rs1 x) OR place 20 (b_rs2 x) OR place 25 (b_imm10_5 x) OR
     place 31 (b_imm12 x)"

record jal_t =
  j_opcode :: "7 word"
  j_rd :: u5
  j_imm19_12 :: u8
  j_imm11 :: "1 word"
  j_imm10_1 :: "10 word"
  j_imm20 :: "1 word"

definition jal_of :: "u32 \<Rightarrow> jal_t" where
  "jal_of w = \<lparr>j_opcode = field 0 w, j_rd = field 7 w, j_imm19_12 = field 12 w,
     j_imm11 = field 20 w, j_imm10_1 = field 21 w, j_imm20 = field 31 w\<rparr>"

definition raw_of_jal :: "jal_t \<Rightarrow> u32" where
  "raw_of_jal x = place 0 (j_opcode x) OR place 7 (j_rd x) OR place 12 (j_imm19_12 x) OR
     place 20 (j_imm11 x) OR place 21 (j_imm10_1 x) OR place 31 (j_imm20 x)"

record jalr_t =
  jj_opcode :: "7 word"
  jj_rd :: u5
  jj_mbz :: "3 word"
  jj_rs1 :: u5
  jj_imm11_0 :: "12 word"

definition jalr_of :: "u32 \<Rightarrow> jalr_t" where
  "jalr_of w = \<lparr>jj_opcode = field 0 w, jj_rd = field 7 w, jj_mbz = field 12 w,
     jj_rs1 = field 15 w, jj_imm11_0 = field 20 w\<rparr>"

definition raw_of_jalr :: "jalr_t \<Rightarrow> u32" where
  "raw_of_jalr x = place 0 (jj_opcode x) OR place 7 (jj_rd x) OR place 12 (jj_mbz x) OR
     place 15 (jj_rs1 x) OR place 20 (jj_imm11_0 x)"

record rtype_t =
  r_opcode :: "7 word"
  r_rd :: u5
  r_sel :: "3 word"
  r_rs1 :: u5
  r_rs2 :: u5
  r_special :: "7 word"

definition rtype_of :: "u32 \<Rightarrow> rtype_t" where
  "rtype_of w = \<lparr>r_opcode = field 0 w, r_rd = field 7 w, r_sel = field 12 w,
     r_rs1 = field 15 w, r_rs2 = field 20 w, r_special = field 25 w\<rparr>"

definition raw_of_rtype :: "rtype_t \<Rightarrow> u32" where
  "raw_of_rtype x = place 0 (r_opcode x) OR place 7 (r_rd x) OR place 12 (r_sel x) OR
     place 15 (r_rs1 x) OR place 20 (r_rs2 x) OR place 25 (r_special x)"

record itype_t =
  i_opcode :: "7 word"
  i_rd :: u5
  i_sel :: "3 word"
  i_rs1 :: u5
  i_imm :: "12 word"

definition itype_of :: "u32 \<Rightarrow> itype_t" where
  "itype_of w = \<lparr>i_opcode = field 0 w, i_rd = field 7 w, i_sel = field 12 w,
     i_rs1 = field 15 w, i_imm = field 20 w\<rparr>"

definition raw_of_itype :: "itype_t \<Rightarrow> u32" where
  "raw_of_itype x = place 0 (i_opcode x) OR place 7 (i_rd x) OR place 12 (i_sel x) OR
     place 15 (i_rs1 x) OR place 20 (i_imm x)"

record store_t =
  s_opcode :: "7 word"
  s_imm4_0 :: u5
  s_sel :: "3 word"
  s_rs1 :: u5
  s_rs2 :: u5
  s_imm11_5 :: "7 word"

definition store_of :: "u32 \<Rightarrow> store_t" where
  "store_of w = \<lparr>s_opcode = field 0 w, s_imm4_0 = field 7 w, s_sel = field 12 w,
     s_rs1 = field 15 w, s_rs2 = field 20 w, s_imm11_5 = field 25 w\<rparr>"

definition raw_of_store :: "store_t \<Rightarrow> u32" where
  "raw_of_store x = place 0 (s_opcode x) OR place 7 (s_imm4_0 x) OR place 12 (s_sel x) OR
     place 15 (s_rs1 x) OR place 20 (s_rs2 x) OR place 25 (s_imm11_5 x)"

record load_t =
  l_opcode :: "7 word"
  l_rd :: u5
  l_sel :: "3 word"
  l_rs1 :: u5
  l_imm11_0 :: "12 word"

definition load_of :: "u32 \<Rightarrow> load_t" where
  "load_of w = \<lparr>l_opcode = field 0 w, l_rd = field 7 w, l_sel = field 12 w,
     l_rs1 = field 15 w, l_imm11_0 = field 20 w\<rparr>"

definition raw_of_load :: "load_t \<Rightarrow> u32" where
  "raw_of_load x = place 0 (l_opcode x) OR place 7 (l_rd x) OR place 12 (l_sel x) OR
     place 15 (l_rs1 x) OR place 20 (l_imm11_0 x)"

lemmas view_defs = utype_of_def branch_of_def jal_of_def jalr_of_def rtype_of_def itype_of_def
  store_of_def load_of_def

lemmas raw_defs = raw_of_utype_def raw_of_branch_def raw_of_jal_def raw_of_jalr_def
  raw_of_rtype_def raw_of_itype_def raw_of_store_def raw_of_load_def

section \<open>The views and the raw word determine each other\<close>

lemma utype_of_raw: "utype_of (raw_of_utype x) = x"
  by (simp add: view_defs raw_defs word_fields)

lemma branch_of_raw: "branch_of (raw_of_branch x) = x"
  by (simp add: view_defs raw_defs word_fields)

lemma jal_of_raw: "jal_of (raw_of_jal x) = x"
  by (simp add: view_defs raw_defs word_fields)

lemma jalr_of_raw: "jalr_of (raw_of_jalr x) = x"
  by (simp add: view_defs raw_defs word_fields)

lemma rtype_of_raw: "rtype_of (raw_of_rtype x) = x"
  by (simp add: view_defs raw_defs word_fields)

lemma itype_of_raw: "itype_of (raw_of_itype x) = x"
  by (simp add: view_defs raw_defs word_fields)

lemma store_of_raw: "store_of (raw_of_store x) = x"
  by (simp add: view_defs raw_defs word_fields)

lemma load_of_raw: "load_of (raw_of_load x) = x"
  by (simp add: view_defs raw_defs word_fields)

lemma raw_utype_of: "raw_of_utype (utype_of w) = w"
  by (rule bit_word_eqI) (auto simp: view_defs raw_defs bit_or_iff bit_place_field_iff)

lemma raw_branch_of: "raw_of_branch (branch_of w) = w"
  by (rule bit_word_eqI) (auto simp: view_defs raw_defs bit_or_iff bit_place_field_iff)

lemma raw_jal_of: "raw_of_jal (jal_of w) = w"
  by (rule bit_word_eqI) (auto simp: view_defs raw_defs bit_or_iff bit_place_field_iff)

lemma raw_jalr_of: "raw_of_jalr (jalr_of w) = w"
  by (rule bit_word_eqI) (auto simp: view_defs raw_defs bit_or_iff bit_place_field_iff)

lemma raw_rtype_of: "raw_of_rtype (rtype_of w) = w"
  by (rule bit_word_eqI) (auto simp: view_defs raw_defs bit_or_iff bit_place_field_iff)

lemma raw_itype_of: "raw_of_itype (itype_of w) = w"
  by (rule bit_word_eqI) (auto simp: view_defs raw_defs bit_or_iff bit_place_field_iff)

lemma raw_store_of: "raw_of_store (store_of w) = w"
  by (rule bit_word_eqI) (auto simp: view_defs raw_defs bit_or_iff bit_place_field_iff)

lemma raw_load_of: "raw_of_load (load_of w) = w"
  by (rule bit_word_eqI) (auto simp: view_defs raw_defs bit_or_iff bit_place_field_iff)

lemmas of_raw [word_fields] = utype_of_raw branch_of_raw jal_of_raw jalr_of_raw rtype_of_raw
  itype_of_raw store_of_raw load_of_raw

interpretation utype_view: word_struct utype_of raw_of_utype
  by unfold_locales (simp_all add: utype_of_raw raw_utype_of)

interpretation branch_view: word_struct branch_of raw_of_branch
  by unfold_locales (simp_all add: branch_of_raw raw_branch_of)

interpretation jal_view: word_struct jal_of raw_of_jal
  by unfold_locales (simp_all add: jal_of_raw raw_jal_of)

interpretation jalr_view: word_struct jalr_of raw_of_jalr
  by unfold_locales (simp_all add: jalr_of_raw raw_jalr_of)

interpretation rtype_view: word_struct rtype_of raw_of_rtype
  by unfold_locales (simp_all add: rtype_of_raw raw_rtype_of)

interpretation itype_view: word_struct itype_of raw_of_itype
  by unfold_locales (simp_all add: itype_of_raw raw_itype_of)

interpretation store_view: word_struct store_of raw_of_store
  by unfold_locales (simp_all add: store_of_raw raw_store_of)

interpretation load_view: word_struct load_of raw_of_load
  by unfold_locales (simp_all add: load_of_raw raw_load_of)

end
