(* ===== verification/Interpreter.thy ===== *)
theory Interpreter
  imports Machine_State Insn_Formats
begin

text \<open>
  The instruction switch of \<open>interpret.cc: execRiscv\<close>, one definition per \<open>case\<close> of the
  opcode, in the source's order; \<open>exec_insn\<close> is the switch itself. The call of
  \<open>handle_syscall\<close> before it and the bookkeeping around it are in theory Exec.

  Signed host arithmetic that C++ leaves undefined is modelled by what the compiled code
  does: additions, subtractions, products and left shifts wrap, and the two overflowing
  quotients (\<open>INT_MIN / -1\<close>, \<open>INT_MIN % -1\<close>) are the failure \<open>Div_trap\<close>, the
  divide error of the x86 \<open>idiv\<close> instruction.
\<close>

unbundle bit_operations_syntax

named_theorems exec_defs \<open>definitions of the cases of the instruction switch\<close>

section \<open>Fields taken from the raw word\<close>

definition opcode_of :: "u32 \<Rightarrow> u32" where
  "opcode_of inst = inst AND 127"

definition rd_of :: "u32 \<Rightarrow> u32" where
  "rd_of inst = drop_bit 7 inst AND 31"

text \<open>The common idiom \<open>x |= ((inst>>31)&1) ? 0xfffff000 : 0x0\<close>.\<close>

definition sext_or :: "u32 \<Rightarrow> u32 \<Rightarrow> u32 \<Rightarrow> u32" where
  "sext_or inst ones x = x OR (if drop_bit 31 inst AND 1 \<noteq> 0 then ones else 0)"

section \<open>Opcodes 0x03 and 0x0f: loads and fences\<close>

definition exec_fence :: "state_t \<Rightarrow> failure + state_t" where
  "exec_fence s = Inr (next_pc s)"

text \<open>A load into register 0 falls through to the fence case and accesses nothing.\<close>

definition exec_load :: "u32 \<Rightarrow> state_t \<Rightarrow> failure + state_t" where
  "exec_load inst s =
    (let l = load_of inst in
     if l_rd l \<noteq> 0 then
       let disp = sext_or inst 0xfffff000 (ucast (l_imm11_0 l));
           ea = disp + gpr s (l_rs1 l);
           sel = s_sel (store_of inst)
       in
       if sel = 0 then
         bind_r (mem_r8 (mem s) (unat ea)) (\<lambda>b. Inr (next_pc (set_gpr s (l_rd l) (scast b))))
       else if sel = 1 then
         bind_r (mem_r16 (mem s) (unat ea)) (\<lambda>h. Inr (next_pc (set_gpr s (l_rd l) (scast h))))
       else if sel = 2 then
         bind_r (mem_r32 (mem s) (unat ea)) (\<lambda>w. Inr (next_pc (set_gpr s (l_rd l) w)))
       else if sel = 4 then
         bind_r (mem_r8 (mem s) (unat ea)) (\<lambda>b. Inr (next_pc (set_gpr s (l_rd l) (ucast b))))
       else if sel = 5 then
         bind_r (mem_r16 (mem s) (unat ea)) (\<lambda>h. Inr (next_pc (set_gpr s (l_rd l) (ucast h))))
       else Inl Assert_failed
     else exec_fence s)"

section \<open>Opcode 0x13: register-immediate arithmetic\<close>

definition opimm_result :: "u32 \<Rightarrow> u32 \<Rightarrow> failure + u32" where
  "opimm_result inst a =
    (let simm32 = sext_or inst 0xfffff000 (drop_bit 20 inst);
         shamt = unat (drop_bit 20 inst AND 31);
         sel = i_sel (itype_of inst)
     in
     if sel = 0 then Inr (a + simm32)
     else if sel = 1 then Inr (push_bit shamt a)
     else if sel = 2 then Inr (if sint a < sint simm32 then 1 else 0)
     else if sel = 3 then Inr (if a < simm32 then 1 else 0)
     else if sel = 4 then Inr (a XOR simm32)
     else if sel = 5 then
       (let f7 = drop_bit 25 inst AND 127 in
        if f7 = 0 then Inr (drop_bit shamt a)
        else if f7 = 32 then Inr (signed_drop_bit shamt a)
        else Inl Assert_failed)
     else if sel = 6 then Inr (a OR simm32)
     else Inr (a AND simm32))"

definition exec_opimm :: "u32 \<Rightarrow> state_t \<Rightarrow> failure + state_t" where
  "exec_opimm inst s =
    (let rd = rd_of inst in
     if rd \<noteq> 0 then
       bind_r (opimm_result inst (gpr s (i_rs1 (itype_of inst))))
         (\<lambda>v. Inr (next_pc (set_gpr s (ucast rd) v)))
     else Inr (next_pc s))"

section \<open>Opcode 0x23: stores\<close>

definition exec_store :: "u32 \<Rightarrow> state_t \<Rightarrow> failure + state_t" where
  "exec_store inst s =
    (let v = store_of inst;
         disp = sext_or inst 0xfffff000 (ucast (s_imm4_0 v) OR push_bit 5 (ucast (s_imm11_5 v)));
         ea = disp + gpr s (s_rs1 v);
         x = gpr s (s_rs2 v)
     in
     if s_sel v = 0 then
       bind_r (mem_w8 (mem s) (unat ea) (ucast x)) (\<lambda>m. Inr (next_pc (s\<lparr>mem := m\<rparr>)))
     else if s_sel v = 1 then
       bind_r (mem_w16 (mem s) (unat ea) (ucast x)) (\<lambda>m. Inr (next_pc (s\<lparr>mem := m\<rparr>)))
     else if s_sel v = 2 then
       bind_r (mem_w32 (mem s) (unat ea) x) (\<lambda>m. Inr (next_pc (s\<lparr>mem := m\<rparr>)))
     else Inl Assert_failed)"

section \<open>Opcodes 0x37 and 0x17: LUI and AUIPC\<close>

definition exec_lui :: "u32 \<Rightarrow> state_t \<Rightarrow> failure + state_t" where
  "exec_lui inst s =
    (let rd = rd_of inst in
     Inr (next_pc (if rd \<noteq> 0 then set_gpr s (ucast rd) (inst AND 0xfffff000) else s)))"

definition exec_auipc :: "u32 \<Rightarrow> state_t \<Rightarrow> failure + state_t" where
  "exec_auipc inst s =
    (let rd = rd_of inst in
     Inr (next_pc (if rd \<noteq> 0 then set_gpr s (ucast rd) (pc s + (inst AND NOT 4095)) else s)))"

section \<open>Opcodes 0x67 and 0x6f: jumps\<close>

definition exec_jalr :: "u32 \<Rightarrow> state_t \<Rightarrow> failure + state_t" where
  "exec_jalr inst s =
    (let j = jalr_of inst;
         tgt = (sext_or inst 0xfffff000 (ucast (jj_imm11_0 j)) + gpr s (jj_rs1 j)) AND NOT 1;
         s' = (if jj_rd j \<noteq> 0 then set_gpr s (jj_rd j) (pc s + 4) else s)
     in Inr (s'\<lparr>pc := tgt\<rparr>))"

definition exec_jal :: "u32 \<Rightarrow> state_t \<Rightarrow> failure + state_t" where
  "exec_jal inst s =
    (let j = jal_of inst;
         jaddr = push_bit 1 (ucast (j_imm10_1 j)) OR push_bit 11 (ucast (j_imm11 j)) OR
           push_bit 12 (ucast (j_imm19_12 j)) OR push_bit 20 (ucast (j_imm20 j));
         jaddr' = sext_or inst 0xffe00000 jaddr;
         rd = rd_of inst;
         s' = (if rd \<noteq> 0 then set_gpr s (ucast rd) (pc s + 4) else s)
     in Inr (s'\<lparr>pc := pc s' + jaddr'\<rparr>))"

section \<open>Opcode 0x33: register-register arithmetic and the M extension\<close>

definition op_result :: "3 word \<Rightarrow> 7 word \<Rightarrow> u32 \<Rightarrow> u32 \<Rightarrow> failure + u32" where
  "op_result sel special a b =
    (let sh = unat (b AND 31) in
     if sel = 0 then
       (if special = 0 then Inr (a + b)
        else if special = 1 then Inr (a * b)
        else if special = 0x20 then Inr (a - b)
        else Inl Assert_failed)
     else if sel = 1 then
       (if special = 0 then Inr (push_bit sh a)
        else if special = 1 then
          Inr (ucast (signed_drop_bit 32 ((scast a :: u64) * scast b)))
        else Inl Assert_failed)
     else if sel = 2 then
       (if special = 0 then Inr (if sint a < sint b then 1 else 0)
        else Inl Assert_failed)
     else if sel = 3 then
       (if special = 0 then Inr (if a < b then 1 else 0)
        else if special = 1 then
          Inr (ucast (drop_bit 32 ((ucast a :: u64) * ucast b)))
        else Inl Assert_failed)
     else if sel = 4 then
       (if special = 0 then Inr (a XOR b)
        else if special = 1 then
          (if b = 0 then Inr (NOT 0)
           else if sint a = - (2 ^ 31) \<and> sint b = - 1 then Inl Div_trap
           else Inr (word_of_int (sint a sdiv sint b)))
        else Inl Assert_failed)
     else if sel = 5 then
       (if special = 0 then Inr (drop_bit sh a)
        else if special = 1 then Inr (if b \<noteq> 0 then a div b else NOT 0)
        else if special = 0x20 then Inr (signed_drop_bit sh a)
        else Inl Assert_failed)
     else if sel = 6 then
       (if special = 0 then Inr (a OR b)
        else if special = 1 then
          (if b \<noteq> 0 then
             (if sint a = - (2 ^ 31) \<and> sint b = - 1 then Inl Div_trap
              else Inr (word_of_int (sint a smod sint b)))
           else Inr (NOT 0))
        else Inl Assert_failed)
     else
       (if special = 0 then Inr (a AND b)
        else if special = 1 then Inr (if b \<noteq> 0 then a mod b else NOT 0)
        else Inl Assert_failed))"

definition exec_op :: "u32 \<Rightarrow> state_t \<Rightarrow> failure + state_t" where
  "exec_op inst s =
    (let r = rtype_of inst in
     if r_rd r \<noteq> 0 then
       bind_r (op_result (r_sel r) (r_special r) (gpr s (r_rs1 r)) (gpr s (r_rs2 r)))
         (\<lambda>v. Inr (next_pc (set_gpr s (r_rd r) v)))
     else Inr (next_pc s))"

section \<open>Opcode 0x63: branches\<close>

definition take_branch :: "3 word \<Rightarrow> u32 \<Rightarrow> u32 \<Rightarrow> failure + bool" where
  "take_branch sel a b =
    (if sel = 0 then Inr (a = b)
     else if sel = 1 then Inr (a \<noteq> b)
     else if sel = 4 then Inr (sint a < sint b)
     else if sel = 5 then Inr (sint a \<ge> sint b)
     else if sel = 6 then Inr (a < b)
     else if sel = 7 then Inr (a \<ge> b)
     else Inl Assert_failed)"

definition exec_branch :: "u32 \<Rightarrow> state_t \<Rightarrow> failure + state_t" where
  "exec_branch inst s =
    (let v = branch_of inst;
         disp = push_bit 1 (ucast (b_imm4_1 v)) OR push_bit 5 (ucast (b_imm10_5 v)) OR
           push_bit 11 (ucast (b_imm11 v)) OR push_bit 12 (ucast (b_imm12 v));
         disp' = disp OR (if b_imm12 v \<noteq> 0 then 0xffffe000 else 0)
     in bind_r (take_branch (b_sel v) (gpr s (b_rs1 v)) (gpr s (b_rs2 v)))
          (\<lambda>t. Inr (s\<lparr>pc := if t then disp' + pc s else pc s + 4\<rparr>)))"

section \<open>Opcode 0x73: system instructions\<close>

definition exec_system :: "u32 \<Rightarrow> state_t \<Rightarrow> failure + state_t" where
  "exec_system inst s =
    (if drop_bit 7 inst = 0 then Inr (s\<lparr>brk := 1\<rparr>) else Inr (next_pc s))"

section \<open>The switch\<close>

definition exec_insn :: "u32 \<Rightarrow> state_t \<Rightarrow> failure + state_t" where
  "exec_insn inst s =
    (let opcode = opcode_of inst in
     if opcode = 0x3 then exec_load inst s
     else if opcode = 0xf then exec_fence s
     else if opcode = 0x13 then exec_opimm inst s
     else if opcode = 0x23 then exec_store inst s
     else if opcode = 0x37 then exec_lui inst s
     else if opcode = 0x17 then exec_auipc inst s
     else if opcode = 0x67 then exec_jalr inst s
     else if opcode = 0x6f then exec_jal inst s
     else if opcode = 0x33 then exec_op inst s
     else if opcode = 0x63 then exec_branch inst s
     else if opcode = 0x73 then exec_system inst s
     else Inl (Exit_called (- 1)))"

lemmas case_defs [exec_defs] = exec_load_def exec_fence_def exec_opimm_def exec_store_def
  exec_lui_def exec_auipc_def exec_jalr_def exec_jal_def exec_op_def exec_branch_def
  exec_system_def

lemma exec_insn_cases [case_names load fence opimm store lui auipc jalr jal op branch system bad]:
  assumes "opcode_of inst = 0x3 \<Longrightarrow> exec_insn inst s = exec_load inst s \<Longrightarrow> P"
    and "opcode_of inst = 0xf \<Longrightarrow> exec_insn inst s = exec_fence s \<Longrightarrow> P"
    and "opcode_of inst = 0x13 \<Longrightarrow> exec_insn inst s = exec_opimm inst s \<Longrightarrow> P"
    and "opcode_of inst = 0x23 \<Longrightarrow> exec_insn inst s = exec_store inst s \<Longrightarrow> P"
    and "opcode_of inst = 0x37 \<Longrightarrow> exec_insn inst s = exec_lui inst s \<Longrightarrow> P"
    and "opcode_of inst = 0x17 \<Longrightarrow> exec_insn inst s = exec_auipc inst s \<Longrightarrow> P"
    and "opcode_of inst = 0x67 \<Longrightarrow> exec_insn inst s = exec_jalr inst s \<Longrightarrow> P"
    and "opcode_of inst = 0x6f \<Longrightarrow> exec_insn inst s = exec_jal inst s \<Longrightarrow> P"
    and "opcode_of inst = 0x33 \<Longrightarrow> exec_insn inst s = exec_op inst s \<Longrightarrow> P"
    and "opcode_of inst = 0x63 \<Longrightarrow> exec_insn inst s = exec_branch inst s \<Longrightarrow> P"
    and "opcode_of inst = 0x73 \<Longrightarrow> exec_insn inst s = exec_system inst s \<Longrightarrow> P"
    and "opcode_of inst \<notin> {0x3, 0xf, 0x13, 0x23, 0x37, 0x17, 0x67, 0x6f, 0x33, 0x63, 0x73} \<Longrightarrow>
      exec_insn inst s = Inl (Exit_called (- 1)) \<Longrightarrow> P"
  shows P
  using assms unfolding exec_insn_def Let_def by (auto split: if_splits)

section \<open>Raw fields are the bit fields\<close>

lemma and_31: "(x :: u32) AND 31 = take_bit 5 x"
  by (simp add: take_bit_eq_mask mask_eq_exp_minus_1)

lemma and_127: "(x :: u32) AND 127 = take_bit 7 x"
  by (simp add: take_bit_eq_mask mask_eq_exp_minus_1)

lemma rd_of_eq_field: "rd_of inst = ucast (field 7 inst :: u5)"
  by (rule bit_word_eqI) (auto simp: rd_of_def and_31 bit_simps dest: bit_imp_le_length)

lemma opcode_of_eq_field: "opcode_of inst = ucast (field 0 inst :: 7 word)"
  by (rule bit_word_eqI) (auto simp: opcode_of_def and_127 bit_simps dest: bit_imp_le_length)

lemma ucast_rd_of [simp]: "(ucast (rd_of inst) :: u5) = field 7 inst"
  by (rule bit_word_eqI) (auto simp: rd_of_eq_field bit_simps)

lemma rd_of_eq_0_iff [simp]: "rd_of inst = 0 \<longleftrightarrow> (field 7 inst :: u5) = 0"
  by (metis rd_of_eq_field ucast_rd_of unsigned_0)

lemma sign_test [simp]: "drop_bit 31 inst AND 1 \<noteq> (0 :: u32) \<longleftrightarrow> bit inst 31"
  by (simp add: and_one_eq odd_iff_mod_2_eq_one [symmetric] bit_iff_odd_drop_bit)

lemma sext_or_alt: "sext_or inst ones x = x OR (if bit inst 31 then ones else 0)"
  by (simp add: sext_or_def)

end
