(* ===== verification/Riscv_ISA.thy ===== *)
theory Riscv_ISA
  imports Machine_State Insn_Formats
begin

text \<open>
  The abstract specification of the interpreter: RV32IM as the RISC-V manual describes it.
  Instructions are a datatype with their immediates at the width the manual gives them,
  \<open>encode\<close> assembles them, and \<open>isa_exec\<close> states their effect on the machine state with
  integer arithmetic (\<open>sint\<close>, \<open>uint\<close>, \<open>div\<close>, \<open>sdiv\<close>) instead of the bit twiddling
  of the code. Theory Interpreter\_Correct proves that the interpreter implements it.
\<close>

unbundle bit_operations_syntax

section \<open>Instructions\<close>

datatype branch_op = BEQ | BNE | BLT | BGE | BLTU | BGEU
datatype load_op = LB | LH | LW | LBU | LHU
datatype store_op = SB | SH | SW
datatype alui_op = ADDI | SLTI | SLTIU | XORI | ORI | ANDI
datatype shift_op = SLLI | SRLI | SRAI
datatype alu_op = ADD | SUB | SLL | SLT | SLTU | XORR | SRL | SRA | ORR | ANDR
datatype muldiv_op = MUL | MULH | MULHSU | MULHU | DIV | DIVU | REM | REMU

text \<open>
  Register operands come in the order of the assembly language, destination first;
  \<open>Store op rs2 rs1 imm\<close> stores \<open>rs2\<close> at \<open>imm(rs1)\<close>. The immediates of branches and
  \<open>Jal\<close> count halfwords.
\<close>

datatype insn =
    Lui u5 "20 word"
  | Auipc u5 "20 word"
  | Jal u5 "20 word"
  | Jalr u5 u5 "12 word"
  | Branch branch_op u5 u5 "12 word"
  | Load load_op u5 u5 "12 word"
  | Store store_op u5 u5 "12 word"
  | AluImm alui_op u5 u5 "12 word"
  | ShiftImm shift_op u5 u5 u5
  | Alu alu_op u5 u5 u5
  | MulDiv muldiv_op u5 u5 u5
  | Fence "12 word"
  | Ecall
  | Ebreak

section \<open>Encoding\<close>

fun branch_funct3 :: "branch_op \<Rightarrow> 3 word" where
  "branch_funct3 BEQ = 0" | "branch_funct3 BNE = 1" | "branch_funct3 BLT = 4"
| "branch_funct3 BGE = 5" | "branch_funct3 BLTU = 6" | "branch_funct3 BGEU = 7"

fun load_funct3 :: "load_op \<Rightarrow> 3 word" where
  "load_funct3 LB = 0" | "load_funct3 LH = 1" | "load_funct3 LW = 2"
| "load_funct3 LBU = 4" | "load_funct3 LHU = 5"

fun store_funct3 :: "store_op \<Rightarrow> 3 word" where
  "store_funct3 SB = 0" | "store_funct3 SH = 1" | "store_funct3 SW = 2"

fun alui_funct3 :: "alui_op \<Rightarrow> 3 word" where
  "alui_funct3 ADDI = 0" | "alui_funct3 SLTI = 2" | "alui_funct3 SLTIU = 3"
| "alui_funct3 XORI = 4" | "alui_funct3 ORI = 6" | "alui_funct3 ANDI = 7"

fun shift_funct3 :: "shift_op \<Rightarrow> 3 word" where
  "shift_funct3 SLLI = 1" | "shift_funct3 SRLI = 5" | "shift_funct3 SRAI = 5"

fun shift_funct7 :: "shift_op \<Rightarrow> 7 word" where
  "shift_funct7 SLLI = 0" | "shift_funct7 SRLI = 0" | "shift_funct7 SRAI = 0x20"

fun alu_funct3 :: "alu_op \<Rightarrow> 3 word" where
  "alu_funct3 ADD = 0" | "alu_funct3 SUB = 0" | "alu_funct3 SLL = 1" | "alu_funct3 SLT = 2"
| "alu_funct3 SLTU = 3" | "alu_funct3 XORR = 4" | "alu_funct3 SRL = 5" | "alu_funct3 SRA = 5"
| "alu_funct3 ORR = 6" | "alu_funct3 ANDR = 7"

fun alu_funct7 :: "alu_op \<Rightarrow> 7 word" where
  "alu_funct7 SUB = 0x20" | "alu_funct7 SRA = 0x20" | "alu_funct7 _ = 0"

fun muldiv_funct3 :: "muldiv_op \<Rightarrow> 3 word" where
  "muldiv_funct3 MUL = 0" | "muldiv_funct3 MULH = 1" | "muldiv_funct3 MULHSU = 2"
| "muldiv_funct3 MULHU = 3" | "muldiv_funct3 DIV = 4" | "muldiv_funct3 DIVU = 5"
| "muldiv_funct3 REM = 6" | "muldiv_funct3 REMU = 7"

definition enc_r :: "3 word \<Rightarrow> 7 word \<Rightarrow> u5 \<Rightarrow> u5 \<Rightarrow> u5 \<Rightarrow> u32" where
  "enc_r f3 f7 rd rs1 rs2 = raw_of_rtype
     \<lparr>r_opcode = 0x33, r_rd = rd, r_sel = f3, r_rs1 = rs1, r_rs2 = rs2, r_special = f7\<rparr>"

definition enc_i :: "7 word \<Rightarrow> 3 word \<Rightarrow> u5 \<Rightarrow> u5 \<Rightarrow> 12 word \<Rightarrow> u32" where
  "enc_i op f3 rd rs1 imm = raw_of_itype
     \<lparr>i_opcode = op, i_rd = rd, i_sel = f3, i_rs1 = rs1, i_imm = imm\<rparr>"

definition enc_s :: "3 word \<Rightarrow> u5 \<Rightarrow> u5 \<Rightarrow> 12 word \<Rightarrow> u32" where
  "enc_s f3 rs2 rs1 imm = raw_of_store
     \<lparr>s_opcode = 0x23, s_imm4_0 = ucast imm, s_sel = f3, s_rs1 = rs1, s_rs2 = rs2,
      s_imm11_5 = ucast (drop_bit 5 imm)\<rparr>"

definition enc_b :: "3 word \<Rightarrow> u5 \<Rightarrow> u5 \<Rightarrow> 12 word \<Rightarrow> u32" where
  "enc_b f3 rs1 rs2 imm = raw_of_branch
     \<lparr>b_opcode = 0x63, b_imm11 = ucast (drop_bit 10 imm), b_imm4_1 = ucast imm, b_sel = f3,
      b_rs1 = rs1, b_rs2 = rs2, b_imm10_5 = ucast (drop_bit 4 imm),
      b_imm12 = ucast (drop_bit 11 imm)\<rparr>"

definition enc_u :: "7 word \<Rightarrow> u5 \<Rightarrow> 20 word \<Rightarrow> u32" where
  "enc_u op rd imm = raw_of_utype \<lparr>u_opcode = op, u_rd = rd, u_imm = imm\<rparr>"

definition enc_j :: "u5 \<Rightarrow> 20 word \<Rightarrow> u32" where
  "enc_j rd imm = raw_of_jal
     \<lparr>j_opcode = 0x6f, j_rd = rd, j_imm19_12 = ucast (drop_bit 11 imm),
      j_imm11 = ucast (drop_bit 10 imm), j_imm10_1 = ucast imm, j_imm20 = ucast (drop_bit 19 imm)\<rparr>"

fun encode :: "insn \<Rightarrow> u32" where
  "encode (Lui rd imm) = enc_u 0x37 rd imm"
| "encode (Auipc rd imm) = enc_u 0x17 rd imm"
| "encode (Jal rd imm) = enc_j rd imm"
| "encode (Jalr rd rs1 imm) = enc_i 0x67 0 rd rs1 imm"
| "encode (Branch b rs1 rs2 imm) = enc_b (branch_funct3 b) rs1 rs2 imm"
| "encode (Load l rd rs1 imm) = enc_i 0x03 (load_funct3 l) rd rs1 imm"
| "encode (Store t rs2 rs1 imm) = enc_s (store_funct3 t) rs2 rs1 imm"
| "encode (AluImm a rd rs1 imm) = enc_i 0x13 (alui_funct3 a) rd rs1 imm"
| "encode (ShiftImm h rd rs1 sh) =
     enc_i 0x13 (shift_funct3 h) rd rs1 (ucast sh OR push_bit 5 (ucast (shift_funct7 h)))"
| "encode (Alu a rd rs1 rs2) = enc_r (alu_funct3 a) (alu_funct7 a) rd rs1 rs2"
| "encode (MulDiv d rd rs1 rs2) = enc_r (muldiv_funct3 d) 1 rd rs1 rs2"
| "encode (Fence imm) = enc_i 0x0f 0 0 0 imm"
| "encode Ecall = enc_i 0x73 0 0 0 0"
| "encode Ebreak = enc_i 0x73 0 0 0 1"

section \<open>Effect\<close>

fun branch_spec :: "branch_op \<Rightarrow> u32 \<Rightarrow> u32 \<Rightarrow> bool" where
  "branch_spec BEQ a b = (uint a = uint b)"
| "branch_spec BNE a b = (uint a \<noteq> uint b)"
| "branch_spec BLT a b = (sint a < sint b)"
| "branch_spec BGE a b = (sint b \<le> sint a)"
| "branch_spec BLTU a b = (uint a < uint b)"
| "branch_spec BGEU a b = (uint b \<le> uint a)"

fun alui_spec :: "alui_op \<Rightarrow> u32 \<Rightarrow> 12 word \<Rightarrow> u32" where
  "alui_spec ADDI a imm = word_of_int (uint a + sint imm)"
| "alui_spec SLTI a imm = of_bool (sint a < sint imm)"
| "alui_spec SLTIU a imm = of_bool (uint a < sint imm mod 2 ^ 32)"
| "alui_spec XORI a imm = word_of_int (uint a XOR sint imm)"
| "alui_spec ORI a imm = word_of_int (uint a OR sint imm)"
| "alui_spec ANDI a imm = word_of_int (uint a AND sint imm)"

fun shift_spec :: "shift_op \<Rightarrow> u32 \<Rightarrow> nat \<Rightarrow> u32" where
  "shift_spec SLLI a n = word_of_int (uint a * 2 ^ n)"
| "shift_spec SRLI a n = word_of_int (uint a div 2 ^ n)"
| "shift_spec SRAI a n = word_of_int (sint a div 2 ^ n)"

fun alu_spec :: "alu_op \<Rightarrow> u32 \<Rightarrow> u32 \<Rightarrow> u32" where
  "alu_spec ADD a b = word_of_int (uint a + uint b)"
| "alu_spec SUB a b = word_of_int (uint a - uint b)"
| "alu_spec SLL a b = shift_spec SLLI a (unat b mod 32)"
| "alu_spec SLT a b = of_bool (sint a < sint b)"
| "alu_spec SLTU a b = of_bool (uint a < uint b)"
| "alu_spec XORR a b = word_of_int (uint a XOR uint b)"
| "alu_spec SRL a b = shift_spec SRLI a (unat b mod 32)"
| "alu_spec SRA a b = shift_spec SRAI a (unat b mod 32)"
| "alu_spec ORR a b = word_of_int (uint a OR uint b)"
| "alu_spec ANDR a b = word_of_int (uint a AND uint b)"

text \<open>
  Division by zero yields all ones as quotient and the dividend as remainder, and the
  overflowing division yields the dividend and remainder zero: the manual's table.
\<close>

fun muldiv_spec :: "muldiv_op \<Rightarrow> u32 \<Rightarrow> u32 \<Rightarrow> u32" where
  "muldiv_spec MUL a b = word_of_int (uint a * uint b)"
| "muldiv_spec MULH a b = word_of_int ((sint a * sint b) div 2 ^ 32)"
| "muldiv_spec MULHSU a b = word_of_int ((sint a * uint b) div 2 ^ 32)"
| "muldiv_spec MULHU a b = word_of_int ((uint a * uint b) div 2 ^ 32)"
| "muldiv_spec DIV a b = (if b = 0 then word_of_int (- 1) else word_of_int (sint a sdiv sint b))"
| "muldiv_spec DIVU a b =
     (if b = 0 then word_of_int (2 ^ 32 - 1) else word_of_int (uint a div uint b))"
| "muldiv_spec REM a b = (if b = 0 then a else word_of_int (sint a smod sint b))"
| "muldiv_spec REMU a b = (if b = 0 then a else word_of_int (uint a mod uint b))"

fun load_spec :: "load_op \<Rightarrow> mem \<Rightarrow> nat \<Rightarrow> failure + u32" where
  "load_spec LB m a = bind_r (mem_r8 m a) (\<lambda>b. Inr (word_of_int (sint b)))"
| "load_spec LH m a = bind_r (mem_r16 m a) (\<lambda>h. Inr (word_of_int (sint h)))"
| "load_spec LW m a = mem_r32 m a"
| "load_spec LBU m a = bind_r (mem_r8 m a) (\<lambda>b. Inr (word_of_int (uint b)))"
| "load_spec LHU m a = bind_r (mem_r16 m a) (\<lambda>h. Inr (word_of_int (uint h)))"

fun store_spec :: "store_op \<Rightarrow> mem \<Rightarrow> nat \<Rightarrow> u32 \<Rightarrow> failure + mem" where
  "store_spec SB m a x = mem_w8 m a (word_of_int (uint x))"
| "store_spec SH m a x = mem_w16 m a (word_of_int (uint x))"
| "store_spec SW m a x = mem_w32 m a x"

text \<open>Register 0 ignores writes.\<close>

definition wr :: "state_t \<Rightarrow> u5 \<Rightarrow> u32 \<Rightarrow> state_t" where
  "wr s rd v = (if rd = 0 then s else set_gpr s rd v)"

definition eff_addr :: "u32 \<Rightarrow> 12 word \<Rightarrow> nat" where
  "eff_addr base imm = unat (word_of_int (uint base + sint imm) :: u32)"

fun isa_exec :: "insn \<Rightarrow> state_t \<Rightarrow> failure + state_t" where
  "isa_exec (Lui rd imm) s = Inr (next_pc (wr s rd (word_of_int (sint imm * 4096))))"
| "isa_exec (Auipc rd imm) s =
     Inr (next_pc (wr s rd (word_of_int (uint (pc s) + sint imm * 4096))))"
| "isa_exec (Jal rd imm) s =
     Inr ((wr s rd (pc s + 4))\<lparr>pc := word_of_int (uint (pc s) + 2 * sint imm)\<rparr>)"
| "isa_exec (Jalr rd rs1 imm) s =
     Inr ((wr s rd (pc s + 4))
       \<lparr>pc := word_of_int (2 * ((uint (gpr s rs1) + sint imm) div 2))\<rparr>)"
| "isa_exec (Branch b rs1 rs2 imm) s =
     Inr (if branch_spec b (gpr s rs1) (gpr s rs2)
          then s\<lparr>pc := word_of_int (uint (pc s) + 2 * sint imm)\<rparr> else next_pc s)"
| "isa_exec (Load l rd rs1 imm) s =
     (if rd = 0 then Inr (next_pc s)
      else bind_r (load_spec l (mem s) (eff_addr (gpr s rs1) imm))
             (\<lambda>v. Inr (next_pc (wr s rd v))))"
| "isa_exec (Store t rs2 rs1 imm) s =
     bind_r (store_spec t (mem s) (eff_addr (gpr s rs1) imm) (gpr s rs2))
       (\<lambda>m. Inr (next_pc (s\<lparr>mem := m\<rparr>)))"
| "isa_exec (AluImm a rd rs1 imm) s = Inr (next_pc (wr s rd (alui_spec a (gpr s rs1) imm)))"
| "isa_exec (ShiftImm h rd rs1 sh) s =
     Inr (next_pc (wr s rd (shift_spec h (gpr s rs1) (unat sh))))"
| "isa_exec (Alu a rd rs1 rs2) s =
     Inr (next_pc (wr s rd (alu_spec a (gpr s rs1) (gpr s rs2))))"
| "isa_exec (MulDiv d rd rs1 rs2) s =
     Inr (next_pc (wr s rd (muldiv_spec d (gpr s rs1) (gpr s rs2))))"
| "isa_exec (Fence imm) s = Inr (next_pc s)"
| "isa_exec Ecall s = Inr (s\<lparr>brk := 1\<rparr>)"
| "isa_exec Ebreak s = Inr (next_pc s)"

text \<open>
  Where the interpreter does not follow the manual: \<open>MULHSU\<close> is not implemented, a
  remainder by zero is not the dividend, and the overflowing division traps on the host.
\<close>

fun implemented :: "muldiv_op \<Rightarrow> u32 \<Rightarrow> u32 \<Rightarrow> bool" where
  "implemented MULHSU a b = False"
| "implemented DIV a b = (\<not> (sint a = - (2 ^ 31) \<and> sint b = - 1))"
| "implemented REM a b = (b \<noteq> 0 \<and> \<not> (sint a = - (2 ^ 31) \<and> sint b = - 1))"
| "implemented REMU a b = (b \<noteq> 0)"
| "implemented _ a b = True"

fun follows_manual :: "insn \<Rightarrow> state_t \<Rightarrow> bool" where
  "follows_manual (MulDiv d rd rs1 rs2) s = (rd = 0 \<or> implemented d (gpr s rs1) (gpr s rs2))"
| "follows_manual _ s = True"

end
