(* ===== verification/Interpreter_Correct.thy ===== *)
theory Interpreter_Correct
  imports Interpreter Riscv_ISA
begin

text \<open>
  The interpreter implements the specification: for every instruction of RV32IM it follows,
  executing its encoding has exactly the specified effect, memory faults included. The
  lemmas are grouped by what they undo: the immediates' bit layout, the integer reading of
  the host operations, and then one lemma per instruction class.
\<close>

unbundle bit_operations_syntax

section \<open>Immediates\<close>

lemma ones_12: "(0xfffff000 :: u32) = NOT (mask 12)"
  by (simp add: mask_eq_exp_minus_1)

lemma ones_21: "(0xffe00000 :: u32) = NOT (mask 21)"
  by (simp add: mask_eq_exp_minus_1)

lemma ones_13: "(0xffffe000 :: u32) = NOT (mask 13)"
  by (simp add: mask_eq_exp_minus_1)

lemma word_of_int_sint: "word_of_int (sint (x :: 'a::len word)) = (scast x :: 'b::len word)"
  by (rule bit_word_eqI) (simp add: bit_simps)

text \<open>Equality of instruction-sized words, bit by bit.\<close>

definition bit_positions :: "nat list" where
  "bit_positions = [0, 1, 2, 3, 4, 5, 6, 7, 8, 9, 10, 11, 12, 13, 14, 15,
     16, 17, 18, 19, 20, 21, 22, 23, 24, 25, 26, 27, 28, 29, 30, 31]"

lemma bit_positions_upt: "bit_positions = [0..<32]"
  by code_simp

lemma u32_eqI: "list_all (\<lambda>n. bit (a :: u32) n = bit b n) bit_positions \<Longrightarrow> a = b"
  by (rule bit_word_eqI) (simp add: list_all_iff bit_positions_upt)

lemmas bitwise_32 = bit_positions_def bit_simps bit_beyond

lemma sext_12:
  "(ucast (imm :: 12 word) :: u32) OR (if bit imm 11 then 0xfffff000 else 0) = scast imm"
  by (rule u32_eqI) (simp add: bitwise_32 ones_12 bit_simps)

lemma sext_store:
  "((ucast (ucast (imm :: 12 word) :: u5) OR push_bit 5 (ucast (ucast (drop_bit 5 imm) :: 7 word)))
     OR (if bit imm 11 then 0xfffff000 else 0) :: u32) = scast imm"
  by (rule u32_eqI) (simp add: bitwise_32 ones_12 bit_simps)

lemma sext_branch:
  "((push_bit 1 (ucast (ucast (imm :: 12 word) :: 4 word)) OR
     push_bit 5 (ucast (ucast (drop_bit 4 imm) :: 6 word)) OR
     push_bit 11 (ucast (ucast (drop_bit 10 imm) :: 1 word)) OR
     push_bit 12 (ucast (ucast (drop_bit 11 imm) :: 1 word))) OR
     (if bit imm 11 then 0xffffe000 else 0) :: u32) = push_bit 1 (scast imm)"
  by (rule u32_eqI) (simp add: bitwise_32 ones_13 bit_simps del: One_nat_def push_bit_Suc)

lemma sext_jal:
  "((push_bit 1 (ucast (ucast (imm :: 20 word) :: 10 word)) OR
     push_bit 11 (ucast (ucast (drop_bit 10 imm) :: 1 word)) OR
     push_bit 12 (ucast (ucast (drop_bit 11 imm) :: 8 word)) OR
     push_bit 20 (ucast (ucast (drop_bit 19 imm) :: 1 word))) OR
     (if bit imm 19 then 0xffe00000 else 0) :: u32) = push_bit 1 (scast imm)"
  by (rule u32_eqI) (simp add: bitwise_32 ones_21 bit_simps del: One_nat_def push_bit_Suc)

lemma sext_opimm:
  "drop_bit 20 (enc_i op f3 rd rs1 imm) OR (if bit imm 11 then 0xfffff000 else 0) = scast imm"
  by (rule u32_eqI) (simp add: bitwise_32 ones_12 enc_i_def raw_of_itype_def)

section \<open>Fields of encoded instructions\<close>

lemma fields_enc_r [word_fields]:
  "opcode_of (enc_r f3 f7 rd rs1 rs2) = 0x33"
  "rtype_of (enc_r f3 f7 rd rs1 rs2) =
     \<lparr>r_opcode = 0x33, r_rd = rd, r_sel = f3, r_rs1 = rs1, r_rs2 = rs2, r_special = f7\<rparr>"
  by (simp_all add: enc_r_def opcode_of_eq_field raw_of_rtype_def view_defs word_fields)

lemma fields_enc_i [word_fields]:
  "opcode_of (enc_i op f3 rd rs1 imm) = ucast op"
  "field 7 (enc_i op f3 rd rs1 imm) = rd"
  "itype_of (enc_i op f3 rd rs1 imm) =
     \<lparr>i_opcode = op, i_rd = rd, i_sel = f3, i_rs1 = rs1, i_imm = imm\<rparr>"
  "jalr_of (enc_i op f3 rd rs1 imm) =
     \<lparr>jj_opcode = op, jj_rd = rd, jj_mbz = f3, jj_rs1 = rs1, jj_imm11_0 = imm\<rparr>"
  "load_of (enc_i op f3 rd rs1 imm) =
     \<lparr>l_opcode = op, l_rd = rd, l_sel = f3, l_rs1 = rs1, l_imm11_0 = imm\<rparr>"
  "s_sel (store_of (enc_i op f3 rd rs1 imm)) = f3"
  "bit (enc_i op f3 rd rs1 imm) 31 = bit imm 11"
  by (simp_all add: enc_i_def opcode_of_eq_field raw_of_itype_def view_defs word_fields)
    (simp add: bitwise_32)

lemma fields_enc_s [word_fields]:
  "opcode_of (enc_s f3 rs2 rs1 imm) = 0x23"
  "store_of (enc_s f3 rs2 rs1 imm) =
     \<lparr>s_opcode = 0x23, s_imm4_0 = ucast imm, s_sel = f3, s_rs1 = rs1, s_rs2 = rs2,
      s_imm11_5 = ucast (drop_bit 5 imm)\<rparr>"
  "bit (enc_s f3 rs2 rs1 imm) 31 = bit imm 11"
  by (simp_all add: enc_s_def opcode_of_eq_field raw_of_store_def view_defs word_fields)
    (simp add: bitwise_32)

lemma fields_enc_b [word_fields]:
  "opcode_of (enc_b f3 rs1 rs2 imm) = 0x63"
  "branch_of (enc_b f3 rs1 rs2 imm) =
     \<lparr>b_opcode = 0x63, b_imm11 = ucast (drop_bit 10 imm), b_imm4_1 = ucast imm, b_sel = f3,
      b_rs1 = rs1, b_rs2 = rs2, b_imm10_5 = ucast (drop_bit 4 imm),
      b_imm12 = ucast (drop_bit 11 imm)\<rparr>"
  by (simp_all add: enc_b_def opcode_of_eq_field raw_of_branch_def view_defs word_fields)

lemma fields_enc_u [word_fields]:
  "opcode_of (enc_u op rd imm) = ucast op"
  "field 7 (enc_u op rd imm) = rd"
  "enc_u op rd imm AND 0xfffff000 = push_bit 12 (ucast imm)"
  "enc_u op rd imm AND - 4096 = push_bit 12 (ucast imm)"
  by (simp_all add: enc_u_def opcode_of_eq_field raw_of_utype_def word_fields)
    (rule u32_eqI, simp add: bitwise_32)+

lemma fields_enc_j [word_fields]:
  "opcode_of (enc_j rd imm) = 0x6f"
  "field 7 (enc_j rd imm) = rd"
  "jal_of (enc_j rd imm) =
     \<lparr>j_opcode = 0x6f, j_rd = rd, j_imm19_12 = ucast (drop_bit 11 imm),
      j_imm11 = ucast (drop_bit 10 imm), j_imm10_1 = ucast imm, j_imm20 = ucast (drop_bit 19 imm)\<rparr>"
  "bit (enc_j rd imm) 31 = bit imm 19"
  by (simp_all add: enc_j_def opcode_of_eq_field raw_of_jal_def view_defs word_fields)
    (simp add: bitwise_32)

section \<open>Host operations read as integer arithmetic\<close>

lemma scast_same [simp]: "(scast (x :: 'a::len word) :: 'a word) = x"
  by (rule bit_word_eqI) (auto simp: bit_simps min_def dest: bit_imp_le_length)

lemma sint_scast_up:
  assumes "LENGTH('a::len) \<le> LENGTH('b::len)"
  shows "sint (scast (x :: 'a word) :: 'b word) = sint x"
proof (rule bit_eqI)
  fix n
  have "min (LENGTH('a) - 1) (min (LENGTH('b) - 1) n) = min (LENGTH('a) - 1) n"
    using assms by arith
  then show "bit (sint (scast x :: 'b word)) n = bit (sint x) n"
    by (simp add: bit_signed_iff min_less_iff_disj)
qed

lemma sint_scast_12: "sint (scast (x :: 12 word) :: u32) = sint x"
  by (rule sint_scast_up) simp

lemma uint_scast_32: "uint (scast (x :: 12 word) :: u32) = sint x mod 2 ^ 32"
proof -
  have "uint (word_of_int (sint x) :: u32) = sint x mod 2 ^ LENGTH(32)" by (rule uint_word_of_int)
  then show ?thesis by (simp add: word_of_int_sint)
qed

lemma eff_addr_word: "eff_addr base imm = unat (scast imm + base)"
  by (simp add: eff_addr_def word_of_int_sint ac_simps)

lemma push_bit_int: "push_bit n (a :: u32) = word_of_int (uint a * 2 ^ n)"
  by (simp add: push_bit_eq_mult)

lemma drop_bit_int: "drop_bit n (a :: 'a::len word) = word_of_int (uint a div 2 ^ n)"
proof -
  have "drop_bit n a = word_of_int (uint (drop_bit n a))" by (rule word_of_int_uint [symmetric])
  also have "uint (drop_bit n a) = drop_bit n (uint a)" by (rule bit_eqI) (auto simp: bit_simps dest: bit_imp_le_length)
  also have "\<dots> = uint a div 2 ^ n" by (rule drop_bit_eq_div)
  finally show ?thesis .
qed

lemma signed_drop_bit_int: "signed_drop_bit n (a :: 'a::len word) = word_of_int (sint a div 2 ^ n)"
proof -
  have "word_of_int (sint (signed_drop_bit n a)) = signed_drop_bit n a" by (simp add: word_of_int_sint)
  then show ?thesis by (simp add: sint_signed_drop_bit_eq drop_bit_eq_div)
qed

lemma shift_amount: "unat ((b :: u32) AND 31) = unat b mod 32"
proof -
  have "unat (take_bit 5 b) = take_bit 5 (unat b)" by (simp add: unsigned_take_bit_eq)
  then show ?thesis by (simp add: and_31 take_bit_eq_mod)
qed

lemma high_half:
  "ucast (drop_bit 32 (word_of_int k :: u64)) = (word_of_int (k div 2 ^ 32) :: u32)"
  unfolding drop_bit_eq_div [symmetric] by (rule bit_word_eqI) (simp add: bit_simps)

lemma high_half_signed:
  "ucast (signed_drop_bit 32 (word_of_int k :: u64)) = (word_of_int (k div 2 ^ 32) :: u32)"
  unfolding drop_bit_eq_div [symmetric] by (rule bit_word_eqI) (simp add: bit_simps)

lemma mulhu_int:
  "ucast (drop_bit 32 ((ucast (a :: u32) :: u64) * ucast b)) =
     (word_of_int ((uint a * uint b) div 2 ^ 32) :: u32)"
proof -
  have "(ucast a :: u64) * ucast b = word_of_int (uint a * uint b)"
    by (simp only: ucast_eq of_int_mult)
  then show ?thesis by (simp only: high_half)
qed

lemma mulh_int:
  "ucast (signed_drop_bit 32 ((scast (a :: u32) :: u64) * scast b)) =
     (word_of_int ((sint a * sint b) div 2 ^ 32) :: u32)"
proof -
  have "(scast a :: u64) * scast b = word_of_int (sint a * sint b)" by (simp add: word_of_int_sint)
  then show ?thesis by (simp only: high_half_signed)
qed

lemma times_4096: "(x :: u32) * 4096 = push_bit 12 x"
  by (simp add: push_bit_eq_mult)

lemma push_bit_12_cast: "push_bit 12 (ucast (imm :: 20 word) :: u32) = push_bit 12 (scast imm)"
  by (rule u32_eqI) (simp add: bitwise_32)

section \<open>Instruction classes\<close>

lemmas isa_simps = wr_def word_of_int_sint eff_addr_word

lemma exec_lui: "exec_insn (encode (Lui rd imm)) s = isa_exec (Lui rd imm) s"
  by (simp add: exec_insn_def exec_lui_def Let_def word_fields isa_simps times_4096 push_bit_12_cast)

lemma exec_auipc: "exec_insn (encode (Auipc rd imm)) s = isa_exec (Auipc rd imm) s"
  by (simp add: exec_insn_def exec_auipc_def Let_def word_fields isa_simps times_4096 push_bit_12_cast)

lemma double_word: "push_bit 1 (x :: u32) = 2 * x"
  by simp

lemma sext_or_jal:
  "sext_or (enc_j rd imm) 0xffe00000
     (push_bit 1 (ucast (ucast imm :: 10 word)) OR
      push_bit 11 (ucast (ucast (drop_bit 10 imm) :: 1 word)) OR
      push_bit 12 (ucast (ucast (drop_bit 11 imm) :: 8 word)) OR
      push_bit 20 (ucast (ucast (drop_bit 19 imm) :: 1 word))) = push_bit 1 (scast imm)"
  by (simp only: sext_or_alt word_fields sext_jal)

lemma exec_jal: "exec_insn (encode (Jal rd imm)) s = isa_exec (Jal rd imm) s"
  by (simp add: exec_insn_def exec_jal_def Let_def word_fields isa_simps sext_or_jal
      del: One_nat_def push_bit_Suc) (simp add: double_word)

lemma sext_or_enc_i: "sext_or (enc_i op f3 rd rs1 imm) 0xfffff000 (ucast imm) = scast imm"
  by (simp only: sext_or_alt word_fields sext_12)

lemma sext_or_opimm:
  "sext_or (enc_i op f3 rd rs1 imm) 0xfffff000 (drop_bit 20 (enc_i op f3 rd rs1 imm)) = scast imm"
  by (simp only: sext_or_alt word_fields sext_opimm)

lemma sext_or_store:
  "sext_or (enc_s f3 rs2 rs1 imm) 0xfffff000
     (ucast (ucast imm :: u5) OR push_bit 5 (ucast (ucast (drop_bit 5 imm) :: 7 word))) = scast imm"
  by (simp only: sext_or_alt word_fields sext_store)

lemma int_and_minus_2: "k AND - 2 = 2 * (k div 2)" for k :: int
  by (subst and_rec) simp

lemma jalr_target:
  "(scast imm + a) AND - 2 = (2 * word_of_int ((uint a + sint imm) div 2) :: u32)"
proof -
  have "scast imm + a = word_of_int (uint a + sint imm)" by (simp add: word_of_int_sint ac_simps)
  then have "(scast imm + a) AND - 2 = (word_of_int ((uint a + sint imm) AND - 2) :: u32)"
    by (simp only: of_int_and_eq of_int_minus of_int_numeral)
  also have "\<dots> = 2 * word_of_int ((uint a + sint imm) div 2)"
    by (simp only: int_and_minus_2 of_int_mult of_int_numeral)
  finally show ?thesis .
qed

lemma exec_jalr: "exec_insn (encode (Jalr rd rs1 imm)) s = isa_exec (Jalr rd rs1 imm) s"
  by (simp add: exec_insn_def exec_jalr_def Let_def word_fields isa_simps sext_or_enc_i jalr_target)

lemma branch_fields [simp]: "branch_funct3 b \<in> {0, 1, 4, 5, 6, 7}"
  by (cases b) simp_all

lemma take_branch_correct: "take_branch (branch_funct3 b) x y = Inr (branch_spec b x y)"
  by (cases b) (auto simp: take_branch_def word_less_def word_le_def word_uint_eq_iff)

lemma branch_disp:
  "(push_bit 1 (ucast (ucast imm :: 4 word)) OR push_bit 5 (ucast (ucast (drop_bit 4 imm) :: 6 word)) OR
    push_bit 11 (ucast (ucast (drop_bit 10 imm) :: 1 word)) OR
    push_bit 12 (ucast (ucast (drop_bit 11 imm) :: 1 word))) OR
    (if (ucast (drop_bit 11 (imm :: 12 word)) :: 1 word) \<noteq> 0 then 0xffffe000 else 0) =
    (push_bit 1 (scast imm) :: u32)"
proof -
  have "(ucast (drop_bit 11 imm) :: 1 word) \<noteq> 0 \<longleftrightarrow> bit imm 11"
    by (simp add: one_bit_word bit_simps)
  then show ?thesis by (simp only: sext_branch)
qed

lemma exec_branch: "exec_insn (encode (Branch b rs1 rs2 imm)) s = isa_exec (Branch b rs1 rs2 imm) s"
  by (simp add: exec_insn_def exec_branch_def Let_def word_fields isa_simps branch_disp
      take_branch_correct next_pc_def del: One_nat_def push_bit_Suc) (simp add: double_word ac_simps)

lemma word_of_int_uint_cast: "word_of_int (uint (x :: 'a::len word)) = (ucast x :: 'b::len word)"
  by (rule ucast_eq [symmetric])

lemma exec_load: "exec_insn (encode (Load l rd rs1 imm)) s = isa_exec (Load l rd rs1 imm) s"
  by (cases l) (simp_all add: exec_insn_def exec_load_def exec_fence_def Let_def word_fields isa_simps
      sext_or_enc_i word_of_int_uint_cast bind_r_assoc)

lemma exec_store: "exec_insn (encode (Store t rs2 rs1 imm)) s = isa_exec (Store t rs2 rs1 imm) s"
  by (cases t) (simp_all add: exec_insn_def exec_store_def Let_def word_fields isa_simps
      sext_or_store word_of_int_uint_cast)

lemma exec_alui: "exec_insn (encode (AluImm a rd rs1 imm)) s = isa_exec (AluImm a rd rs1 imm) s"
  by (cases a) (simp_all add: exec_insn_def exec_opimm_def opimm_result_def Let_def word_fields
      isa_simps sext_or_opimm sint_scast_12 uint_scast_32 word_less_def of_int_and_eq of_int_or_eq
      of_int_xor_eq)

lemma shamt_enc_i:
  "drop_bit 20 (enc_i op f3 rd rs1 imm) AND 31 = (ucast (ucast imm :: u5) :: u32)"
  by (rule u32_eqI) (simp add: bitwise_32 and_31 enc_i_def raw_of_itype_def)

lemma funct7_enc_i:
  "drop_bit 25 (enc_i op f3 rd rs1 imm) AND 127 = (ucast (drop_bit 5 imm) :: u32)"
  by (rule u32_eqI) (simp add: bitwise_32 and_127 enc_i_def raw_of_itype_def)

lemma shift_imm_parts:
  "(ucast (ucast (sh :: u5) :: 12 word) :: u5) = sh"
  "(ucast (ucast sh OR 1024 :: 12 word) :: u5) = sh"
  "drop_bit 5 (ucast sh :: 12 word) = 0"
  "drop_bit 5 (ucast sh OR 1024 :: 12 word) = 32"
proof -
  have b10: "bit (1024 :: 12 word) n \<longleftrightarrow> n = 10" for n
    using bit_exp_iff [where ?'a = "12 word", of 10 n] by auto
  have b5: "bit (32 :: 12 word) n \<longleftrightarrow> n = 5" for n
    using bit_exp_iff [where ?'a = "12 word", of 5 n] by auto
  show "(ucast (ucast sh OR 1024 :: 12 word) :: u5) = sh"
    by (rule bit_word_eqI) (simp only: bit_or_iff bit_ucast_iff b10, auto)
  show "drop_bit 5 (ucast sh OR 1024 :: 12 word) = 32"
    by (rule bit_word_eqI)
      (simp only: bit_or_iff bit_ucast_iff bit_drop_bit_eq b10 b5 o_apply, auto simp: bit_beyond)
qed (auto intro!: bit_word_eqI simp: bit_simps bit_beyond)

lemma unat_ucast_5 [simp]: "unat (ucast (sh :: u5) :: u32) = unat sh"
  by (simp add: unsigned_ucast_eq take_bit_nat_eq_self
      [OF order.strict_trans [OF unsigned_less [of sh, where ?'a = nat]]])

lemma exec_shift: "exec_insn (encode (ShiftImm h rd rs1 sh)) s = isa_exec (ShiftImm h rd rs1 sh) s"
  by (cases h) (simp_all add: exec_insn_def exec_opimm_def opimm_result_def Let_def word_fields
      wr_def shamt_enc_i funct7_enc_i shift_imm_parts push_bit_int [of _ "gpr s rs1"]
      drop_bit_int [of _ "gpr s rs1"] signed_drop_bit_int [of _ "gpr s rs1"])

lemma alu_correct: "op_result (alu_funct3 a) (alu_funct7 a) x y = Inr (alu_spec a x y)"
  by (cases a) (simp_all add: op_result_def Let_def word_less_def shift_amount push_bit_int
      drop_bit_int [of _ x] signed_drop_bit_int [of _ x] of_int_and_eq of_int_or_eq of_int_xor_eq)

lemma exec_alu: "exec_insn (encode (Alu a rd rs1 rs2)) s = isa_exec (Alu a rd rs1 rs2) s"
  by (simp add: exec_insn_def exec_op_def Let_def word_fields wr_def alu_correct)

lemma muldiv_correct:
  "implemented d x y \<Longrightarrow> op_result (muldiv_funct3 d) 1 x y = Inr (muldiv_spec d x y)"
  by (cases d) (auto simp: op_result_def Let_def word_div_def word_mod_def mulhu_int mulh_int)

lemma exec_muldiv:
  assumes "follows_manual (MulDiv d rd rs1 rs2) s"
  shows "exec_insn (encode (MulDiv d rd rs1 rs2)) s = isa_exec (MulDiv d rd rs1 rs2) s"
  using assms by (auto simp: exec_insn_def exec_op_def Let_def word_fields wr_def muldiv_correct)

lemma exec_fence: "exec_insn (encode (Fence imm)) s = isa_exec (Fence imm) s"
  by (simp add: exec_insn_def exec_fence_def Let_def word_fields)

lemma drop_bit_7_enc_i:
  "drop_bit 7 (enc_i op 0 0 0 imm) = push_bit 13 (ucast imm)"
  by (rule u32_eqI) (simp add: bitwise_32 enc_i_def raw_of_itype_def)

lemma exec_ecall: "exec_insn (encode Ecall) s = isa_exec Ecall s"
  by (simp add: exec_insn_def exec_system_def Let_def word_fields drop_bit_7_enc_i)

lemma exec_ebreak: "exec_insn (encode Ebreak) s = isa_exec Ebreak s"
  by (simp add: exec_insn_def exec_system_def Let_def word_fields drop_bit_7_enc_i)

section \<open>The refinement\<close>

lemmas exec_classes = exec_lui exec_auipc exec_jal exec_jalr exec_branch exec_load exec_store
  exec_alui exec_shift exec_alu exec_fence exec_ecall exec_ebreak

lemma exec_refines_isa:
  assumes "follows_manual i s"
  shows "exec_insn (encode i) s = isa_exec i s"
proof (cases i)
  case (MulDiv d rd rs1 rs2)
  with assms show ?thesis by (simp only: exec_muldiv)
qed (simp_all only: exec_classes)

text \<open>
  C1. For every RV32IM instruction and every machine state in which the interpreter follows
  the manual (it is not \<open>MULHSU\<close>, not a remainder by zero, not the overflowing
  division), running the instruction switch on the encoded instruction has exactly the
  effect the specification gives it: the decoded immediates, the register and memory
  updates, the new \<open>pc\<close>, and the failure of an access outside the memory.
\<close>

theorem interpreter_implements_rv32im:
  assumes "follows_manual i s"
  shows "exec_insn (encode i) s = isa_exec i s"
  using exec_refines_isa [OF assms] .

theorem interpreter_implements_rv32im_witness:
  "let s = set_gpr (set_gpr initState 1 (- 7)) 2 2 in
   follows_manual (MulDiv REM 3 1 2) s \<and>
   exec_insn (encode (MulDiv REM 3 1 2)) s = Inr (next_pc (set_gpr s 3 (- 1)))"
  using interpreter_implements_rv32im
    [of "MulDiv REM 3 1 2" "set_gpr (set_gpr initState 1 (- 7)) 2 2"]
  by (simp add: Let_def wr_def)

text \<open>
  The M extension with a destination other than register 0, on every input: \<open>MULHSU\<close>
  stops at the \<open>assert\<close>, the signed division and remainder of the least integer by -1
  trap on the host, both remainders by zero give all ones where the manual asks for the
  dividend, and everything else is the manual's result.
\<close>

theorem m_extension_behaviour:
  assumes "rd \<noteq> 0"
  shows "exec_insn (encode (MulDiv d rd rs1 rs2)) s =
    (let a = gpr s rs1; b = gpr s rs2 in
     if d = MULHSU then Inl Assert_failed
     else if d \<in> {DIV, REM} \<and> sint a = - (2 ^ 31) \<and> sint b = - 1 then Inl Div_trap
     else if d \<in> {REM, REMU} \<and> b = 0 then Inr (next_pc (set_gpr s rd (- 1)))
     else Inr (next_pc (set_gpr s rd (muldiv_spec d a b))))"
  using assms muldiv_correct [of d "gpr s rs1" "gpr s rs2"]
  by (cases d) (auto simp: exec_insn_def exec_op_def op_result_def Let_def word_fields)

theorem m_extension_behaviour_witness:
  "exec_insn (encode (MulDiv REM 3 1 2)) (set_gpr initState 1 7) =
     Inr (next_pc (set_gpr (set_gpr initState 1 7) 3 (- 1)))"
  using m_extension_behaviour [of 3 REM 1 2 "set_gpr initState 1 7"]
  by (simp add: initState_def set_gpr_def)

end
