(* ===== verification/Interpreter_Frame.thy ===== *)
theory Interpreter_Frame
  imports Interpreter
begin

text \<open>
  What one run of the instruction switch leaves alone, and how it fails: register 0, the
  memory outside a store's bytes, the parity of \<open>pc\<close>, and the failures each opcode can
  end in. The lemmas go through the sequencing operator with \<open>ok_r\<close> and \<open>err_r\<close>.
\<close>

unbundle bit_operations_syntax

section \<open>Register 0\<close>

lemmas frame_simps = exec_defs Let_def

lemma case_x0:
  "ok_r (\<lambda>s'. gpr s' 0 = gpr s 0) (exec_load inst s)"
  "ok_r (\<lambda>s'. gpr s' 0 = gpr s 0) (exec_fence s)"
  "ok_r (\<lambda>s'. gpr s' 0 = gpr s 0) (exec_opimm inst s)"
  "ok_r (\<lambda>s'. gpr s' 0 = gpr s 0) (exec_store inst s)"
  "ok_r (\<lambda>s'. gpr s' 0 = gpr s 0) (exec_lui inst s)"
  "ok_r (\<lambda>s'. gpr s' 0 = gpr s 0) (exec_auipc inst s)"
  "ok_r (\<lambda>s'. gpr s' 0 = gpr s 0) (exec_jalr inst s)"
  "ok_r (\<lambda>s'. gpr s' 0 = gpr s 0) (exec_jal inst s)"
  "ok_r (\<lambda>s'. gpr s' 0 = gpr s 0) (exec_op inst s)"
  "ok_r (\<lambda>s'. gpr s' 0 = gpr s 0) (exec_branch inst s)"
  "ok_r (\<lambda>s'. gpr s' 0 = gpr s 0) (exec_system inst s)"
  by (simp_all add: frame_simps)

lemma exec_insn_ok:
  assumes "ok_r P (exec_load inst s)" "ok_r P (exec_fence s)" "ok_r P (exec_opimm inst s)"
    "opcode_of inst = 0x23 \<Longrightarrow> ok_r P (exec_store inst s)" "ok_r P (exec_lui inst s)"
    "ok_r P (exec_auipc inst s)" "ok_r P (exec_jalr inst s)" "ok_r P (exec_jal inst s)"
    "ok_r P (exec_op inst s)" "ok_r P (exec_branch inst s)" "ok_r P (exec_system inst s)"
  shows "ok_r P (exec_insn inst s)"
  by (rule exec_insn_cases [of inst s]) (simp_all add: assms)

lemma exec_insn_x0: "ok_r (\<lambda>s'. gpr s' 0 = gpr s 0) (exec_insn inst s)"
  by (rule exec_insn_ok) (simp_all only: case_x0)

section \<open>The other registers\<close>

text \<open>An instruction writes no register but the one its bits 7 to 11 name.\<close>

definition only_rd :: "u32 \<Rightarrow> state_t \<Rightarrow> state_t \<Rightarrow> bool" where
  "only_rd inst s s' \<longleftrightarrow> gpr s' = (gpr s)(field 7 inst := gpr s' (field 7 inst))"

lemma case_rd:
  "ok_r (only_rd inst s) (exec_load inst s)"
  "ok_r (only_rd inst s) (exec_fence s)"
  "ok_r (only_rd inst s) (exec_opimm inst s)"
  "ok_r (only_rd inst s) (exec_store inst s)"
  "ok_r (only_rd inst s) (exec_lui inst s)"
  "ok_r (only_rd inst s) (exec_auipc inst s)"
  "ok_r (only_rd inst s) (exec_jalr inst s)"
  "ok_r (only_rd inst s) (exec_jal inst s)"
  "ok_r (only_rd inst s) (exec_op inst s)"
  "ok_r (only_rd inst s) (exec_branch inst s)"
  "ok_r (only_rd inst s) (exec_system inst s)"
  by (simp_all add: frame_simps only_rd_def set_gpr_def load_of_def rtype_of_def jalr_of_def)

lemma exec_insn_rd: "ok_r (only_rd inst s) (exec_insn inst s)"
  by (rule exec_insn_ok) (simp_all only: case_rd)

section \<open>Memory\<close>

text \<open>The address and the width of the access a store instruction makes.\<close>

definition store_ea :: "u32 \<Rightarrow> state_t \<Rightarrow> nat" where
  "store_ea inst s = unat (sext_or inst 0xfffff000
     (ucast (s_imm4_0 (store_of inst)) OR push_bit 5 (ucast (s_imm11_5 (store_of inst)))) +
     gpr s (s_rs1 (store_of inst)))"

definition store_width :: "u32 \<Rightarrow> nat" where
  "store_width inst = 2 ^ unat (s_sel (store_of inst))"

definition same_mem_but :: "nat \<Rightarrow> nat \<Rightarrow> mem \<Rightarrow> mem \<Rightarrow> bool" where
  "same_mem_but a n m m' \<longleftrightarrow> (\<forall>i. i < a \<or> a + n \<le> i \<longrightarrow> m' i = m i)"

lemma same_mem_but_refl [simp]: "same_mem_but a n m m"
  by (simp add: same_mem_but_def)

lemma same_mem_but_write [simp]: "n = length bs \<Longrightarrow> same_mem_but a n m (write_bytes m a bs)"
  by (auto simp: same_mem_but_def write_bytes_out)

lemma case_mem:
  "ok_r (\<lambda>s'. mem s' = mem s) (exec_load inst s)"
  "ok_r (\<lambda>s'. mem s' = mem s) (exec_fence s)"
  "ok_r (\<lambda>s'. mem s' = mem s) (exec_opimm inst s)"
  "ok_r (\<lambda>s'. mem s' = mem s) (exec_lui inst s)"
  "ok_r (\<lambda>s'. mem s' = mem s) (exec_auipc inst s)"
  "ok_r (\<lambda>s'. mem s' = mem s) (exec_jalr inst s)"
  "ok_r (\<lambda>s'. mem s' = mem s) (exec_jal inst s)"
  "ok_r (\<lambda>s'. mem s' = mem s) (exec_op inst s)"
  "ok_r (\<lambda>s'. mem s' = mem s) (exec_branch inst s)"
  "ok_r (\<lambda>s'. mem s' = mem s) (exec_system inst s)"
  by (simp_all add: frame_simps)

lemma exec_store_mem:
  "ok_r (\<lambda>s'. same_mem_but (store_ea inst s) (store_width inst) (mem s) (mem s')) (exec_store inst s)"
  by (simp add: frame_simps store_ea_def store_width_def)

lemma exec_insn_mem:
  assumes "exec_insn inst s = Inr s'"
  shows "if opcode_of inst = 0x23
    then same_mem_but (store_ea inst s) (store_width inst) (mem s) (mem s')
    else mem s' = mem s"
proof -
  have "ok_r (\<lambda>s'. if opcode_of inst = 0x23
    then same_mem_but (store_ea inst s) (store_width inst) (mem s) (mem s')
    else mem s' = mem s) (exec_insn inst s)"
    by (rule exec_insn_cases [of inst s]) (simp_all add: case_mem exec_store_mem)
  with assms show ?thesis by simp
qed

section \<open>Parity of the program counter\<close>

lemma even_iff_bit0: "even (w :: u32) \<longleftrightarrow> \<not> bit w 0"
  by (simp add: bit_0)

lemma even_jump_disp:
  "even (sext_or inst 0xffe00000 (push_bit 1 a OR push_bit 11 b OR push_bit 12 c OR push_bit 20 d))"
  by (simp add: sext_or_alt even_iff_bit0 bit_or_iff bit_push_bit_iff del: push_bit_Suc One_nat_def)

lemma even_branch_disp:
  "even ((push_bit 1 a OR push_bit 5 b OR push_bit 11 c OR push_bit 12 d) OR
     (if p then 0xffffe000 else 0 :: u32))"
  by (simp add: even_iff_bit0 bit_or_iff bit_push_bit_iff del: push_bit_Suc One_nat_def)

lemma case_pc_even:
  assumes "even (pc s)"
  shows "ok_r (\<lambda>s'. even (pc s')) (exec_load inst s)"
    "ok_r (\<lambda>s'. even (pc s')) (exec_fence s)"
    "ok_r (\<lambda>s'. even (pc s')) (exec_opimm inst s)"
    "ok_r (\<lambda>s'. even (pc s')) (exec_store inst s)"
    "ok_r (\<lambda>s'. even (pc s')) (exec_lui inst s)"
    "ok_r (\<lambda>s'. even (pc s')) (exec_auipc inst s)"
    "ok_r (\<lambda>s'. even (pc s')) (exec_op inst s)"
    "ok_r (\<lambda>s'. even (pc s')) (exec_system inst s)"
  using assms by (simp_all add: frame_simps)

lemma exec_jalr_pc_even: "ok_r (\<lambda>s'. even (pc s')) (exec_jalr inst s)"
  by (simp add: frame_simps even_iff_bit0 bit_and_iff bit_not_iff)

lemma exec_jal_pc_even: "even (pc s) \<Longrightarrow> ok_r (\<lambda>s'. even (pc s')) (exec_jal inst s)"
  using even_jump_disp by (simp add: frame_simps del: push_bit_Suc One_nat_def)

lemma exec_branch_pc_even: "even (pc s) \<Longrightarrow> ok_r (\<lambda>s'. even (pc s')) (exec_branch inst s)"
  by (rule ok_rI)
    (auto simp: exec_branch_def Let_def bind_r_eq_Inr_iff even_branch_disp
      simp del: push_bit_Suc One_nat_def)

lemma exec_insn_pc_even: "even (pc s) \<Longrightarrow> ok_r (\<lambda>s'. even (pc s')) (exec_insn inst s)"
  by (rule exec_insn_ok)
    (simp_all only: case_pc_even exec_jalr_pc_even exec_jal_pc_even exec_branch_pc_even)

section \<open>Failures\<close>

definition known_opcodes :: "u32 set" where
  "known_opcodes = {0x3, 0xf, 0x13, 0x23, 0x37, 0x17, 0x67, 0x6f, 0x33, 0x63, 0x73}"

definition possible_failure :: "u32 \<Rightarrow> failure \<Rightarrow> bool" where
  "possible_failure inst e \<longleftrightarrow>
     e = Assert_failed \<and> opcode_of inst \<in> {0x3, 0x13, 0x23, 0x33, 0x63} \<or>
     e = Div_trap \<and> opcode_of inst = 0x33 \<or>
     e = Exit_called (- 1) \<and> opcode_of inst \<notin> known_opcodes \<or>
     (\<exists>a. e = Bad_access a \<and> opcode_of inst \<in> {0x3, 0x23} \<and> mem_size < a + 4)"

lemma case_total:
  "err_r (\<lambda>_. False) (exec_fence s)"
  "err_r (\<lambda>_. False) (exec_lui inst s)"
  "err_r (\<lambda>_. False) (exec_auipc inst s)"
  "err_r (\<lambda>_. False) (exec_jalr inst s)"
  "err_r (\<lambda>_. False) (exec_jal inst s)"
  "err_r (\<lambda>_. False) (exec_system inst s)"
  by (simp_all add: frame_simps)

lemma case_failure:
  "opcode_of inst = 0x3 \<Longrightarrow> err_r (possible_failure inst) (exec_load inst s)"
  "opcode_of inst = 0x13 \<Longrightarrow> err_r (possible_failure inst) (exec_opimm inst s)"
  "opcode_of inst = 0x23 \<Longrightarrow> err_r (possible_failure inst) (exec_store inst s)"
  "opcode_of inst = 0x33 \<Longrightarrow> err_r (possible_failure inst) (exec_op inst s)"
  "opcode_of inst = 0x63 \<Longrightarrow> err_r (possible_failure inst) (exec_branch inst s)"
  by (auto simp: frame_simps err_r_bind possible_failure_def opimm_result_def op_result_def
      take_branch_def in_mem_def mem_size_def)

lemma err_r_mono: "err_r P x \<Longrightarrow> (\<And>e. P e \<Longrightarrow> Q e) \<Longrightarrow> err_r Q x"
  by (cases x) simp_all

lemma exec_insn_failure: "err_r (possible_failure inst) (exec_insn inst s)"
  by (rule exec_insn_cases [of inst s])
    (simp_all add: case_failure case_total [THEN err_r_mono],
     simp add: possible_failure_def known_opcodes_def)

section \<open>Properties\<close>

text \<open>
  C32. Memory safety of one instruction: a store changes only the one, two or four bytes at
  its effective address, and every other instruction leaves the memory alone.
\<close>

theorem instruction_memory_frame:
  assumes "exec_insn inst s = Inr s'"
  shows "if opcode_of inst = 0x23
    then same_mem_but (store_ea inst s) (store_width inst) (mem s) (mem s')
    else mem s' = mem s"
  using exec_insn_mem [OF assms] .

theorem instruction_memory_frame_witness:
  "same_mem_but 8 4 mmap4G (write_bytes mmap4G 8 (le_bytes 4 (0 :: u32)))"
proof -
  have "exec_insn 0x00002423 initState =
      Inr (next_pc (initState\<lparr>mem := write_bytes mmap4G 8 (le_bytes 4 (0 :: u32))\<rparr>))"
    by (simp add: exec_insn_def opcode_of_def exec_store_def store_of_def field_def sext_or_def
        Let_def initState_def store_def in_mem_val)
  from instruction_memory_frame [OF this] show ?thesis
    by (simp add: opcode_of_def store_ea_def store_width_def initState_def store_of_def field_def
        sext_or_def)
qed


end
