(* ===== verification/Helper.thy ===== *)
theory Helper
  imports Prelude
begin

text \<open>
  \<open>helper.hh\<close> and \<open>helper.cc\<close>: the integer templates (\<open>signextend\<close>, \<open>roundToPgSz\<close>,
  \<open>isPow2\<close>, \<open>nextPow2\<close>, \<open>ln2\<close>, \<open>mod\<close>, \<open>extractBit\<close>, \<open>setBit\<close>, \<open>bswap\<close>),
  the CRC-32C routine and the translation of guest \<open>open\<close> flags. The templates are modelled
  at an arbitrary word length and unsigned, except for \<open>signextend\<close>, whose bit field has
  the sign of its type: it is modelled at a signed type.
\<close>

unbundle bit_operations_syntax

section \<open>Integer templates\<close>

text \<open>Assigning to a signed \<open>B\<close>-bit field and reading it back.\<close>

definition signextend :: "nat \<Rightarrow> 'a::len word \<Rightarrow> 'a word" where
  "signextend B x = signed_take_bit (B - 1) x"

definition roundToPgSz :: "'a::len word \<Rightarrow> 'a word \<Rightarrow> 'a word" where
  "roundToPgSz x pgsz = ((x + pgsz - 1) div pgsz) * pgsz"

definition isPow2 :: "'a::len word \<Rightarrow> bool" where
  "isPow2 x \<longleftrightarrow> ((x - 1) AND x) = 0"

text \<open>
  The two doubling loops. They do not end when no power of two of the word's length reaches
  \<open>x\<close>: the doubled value wraps to zero and stays there.
\<close>

partial_function (option) nextPow2_loop :: "'a::len word \<Rightarrow> 'a word \<Rightarrow> 'a word option" where
  "nextPow2_loop x y = (if y < x then nextPow2_loop x (y * 2) else Some y)"

definition nextPow2 :: "'a::len word \<Rightarrow> 'a word option" where
  "nextPow2 x = nextPow2_loop x 1"

partial_function (option) ln2_loop :: "'a::len word \<Rightarrow> 'a word \<Rightarrow> 'a word \<Rightarrow> 'a word option" where
  "ln2_loop x y l = (if y < x then ln2_loop x (y * 2) (l + 1) else Some l)"

definition ln2 :: "'a::len word \<Rightarrow> 'a word option" where
  "ln2 x = ln2_loop x 1 0"

definition mod_pow2 :: "'a::len word \<Rightarrow> 'a word \<Rightarrow> 'a word" where
  "mod_pow2 x y = (if isPow2 y then x AND (y - 1) else x mod y)"

definition extractBit :: "'a::len word \<Rightarrow> nat \<Rightarrow> bool" where
  "extractBit x b \<longleftrightarrow> drop_bit b x AND 1 \<noteq> 0"

definition setBit :: "'a::len word \<Rightarrow> 'a word \<Rightarrow> nat \<Rightarrow> 'a word" where
  "setBit x v b =
    (let t = push_bit b 1; tt = NOT t AND x; t' = t AND NOT (v - 1) in tt OR t')"

definition bswap8 :: "u8 \<Rightarrow> u8" where
  "bswap8 x = x"

definition bswap16 :: "bool \<Rightarrow> u16 \<Rightarrow> u16" where
  "bswap16 EL x = (if EL then x else le_word (rev (le_bytes 2 x)))"

definition bswap32 :: "bool \<Rightarrow> u32 \<Rightarrow> u32" where
  "bswap32 EL x = (if EL then x else le_word (rev (le_bytes 4 x)))"

definition bswap64 :: "bool \<Rightarrow> u64 \<Rightarrow> u64" where
  "bswap64 EL x = (if EL then x else le_word (rev (le_bytes 8 x)))"

section \<open>Powers of two\<close>

lemma isPow2_0: "isPow2 0"
  by (simp add: isPow2_def)

lemma unat_exp: "k < LENGTH('a) \<Longrightarrow> unat (2 ^ k :: 'a::len word) = 2 ^ k"
proof -
  assume k: "k < LENGTH('a)"
  have "unat (of_nat (2 ^ k) :: 'a word) = 2 ^ k mod 2 ^ LENGTH('a)" by (rule unat_of_nat)
  with k show ?thesis by simp
qed

lemma and_pred_exp: "x AND (2 ^ k - 1) = x mod (2 ^ k :: 'a::len word)"
  using take_bit_eq_mask [of k x] take_bit_eq_mod [of k x] by (simp add: mask_eq_exp_minus_1)

lemma nat_and_pred_0:
  "0 < (n::nat) \<Longrightarrow> (n - 1) AND n = 0 \<Longrightarrow> \<exists>k. n = 2 ^ k"
proof (induction n rule: less_induct)
  case (less n)
  show ?case
  proof (cases "even n")
    case True
    then obtain m where m: "n = 2 * m" by auto
    with less.prems have "0 < m" by simp
    then have "(n - 1) div 2 = m - 1" and "n div 2 = m" using m by auto
    then have "(n - 1) AND n = 2 * ((m - 1) AND m)"
      using True by (subst and_nat_rec) simp
    with less.prems have "(m - 1) AND m = 0" by simp
    with less.IH [of m] \<open>0 < m\<close> m obtain k where "m = 2 ^ k" by auto
    with m have "n = 2 ^ Suc k" by simp
    then show ?thesis by blast
  next
    case False
    then obtain m where m: "n = 2 * m + 1" by (auto elim: oddE)
    then have "(n - 1) AND n = 2 * (m AND m)" by (subst and_nat_rec) simp
    with less.prems m have "n = 2 ^ 0" by simp
    then show ?thesis by blast
  qed
qed

lemma isPow2_cases:
  assumes "isPow2 (y :: 'a::len word)" and "y \<noteq> 0"
  obtains k where "k < LENGTH('a)" and "y = 2 ^ k"
proof -
  have "unat (y - 1) = unat y - 1" using assms(2) by (rule unat_minus_one)
  moreover have "unat ((y - 1) AND y) = 0" using assms(1) by (simp add: isPow2_def)
  ultimately have "(unat y - 1) AND unat y = 0" by (simp only: unsigned_and_eq)
  moreover have "0 < unat y" using assms(2) by (simp add: unat_gt_0)
  ultimately obtain k where k: "unat y = 2 ^ k" using nat_and_pred_0 by blast
  moreover have "unat y < 2 ^ LENGTH('a)" by (rule unsigned_less)
  ultimately have lt: "k < LENGTH('a)" by simp
  moreover from k lt have "y = 2 ^ k" by (simp add: word_unat_eq_iff unat_exp)
  ultimately show ?thesis by (rule that)
qed

lemma isPow2_exp: "isPow2 (2 ^ k :: 'a::len word)"
proof (cases "k < LENGTH('a)")
  case True
  show ?thesis unfolding isPow2_def
    by (rule bit_word_eqI) (auto simp: bit_and_iff bit_exp_iff bit_mask_iff simp flip: mask_eq_exp_minus_1)
next
  case False
  then have "(2 :: 'a word) ^ k = 0" by simp
  then show ?thesis by (simp only: isPow2_0)
qed

text \<open>
  The masked remainder agrees with the remainder for every divisor, and for divisor zero it
  returns its first argument instead of dividing.
\<close>

lemma mod_pow2_correct: "mod_pow2 x y = (if y = 0 then x else x mod y)"
proof (cases "isPow2 y \<and> y \<noteq> 0")
  case True
  then obtain k where "y = 2 ^ k" by (auto elim: isPow2_cases)
  with True show ?thesis by (simp add: mod_pow2_def and_pred_exp)
qed (auto simp: mod_pow2_def isPow2_0)

lemma isPow2_iff: "isPow2 (y :: 'a::len word) \<longleftrightarrow> y = 0 \<or> (\<exists>k < LENGTH('a). y = 2 ^ k)"
  by (metis isPow2_0 isPow2_cases isPow2_exp)

section \<open>The doubling loops\<close>

lemma exp_less_iff:
  "j < LENGTH('a) \<Longrightarrow> (2 ^ j :: 'a::len word) < x \<longleftrightarrow> 2 ^ j < unat x"
  by (simp add: word_less_nat_alt unat_exp)

lemma ln2_loop_returns:
  fixes x :: "'a::len word"
  assumes "unat x \<le> 2 ^ (LENGTH('a) - 1)" and "j < LENGTH('a)" and "j = 0 \<or> 2 ^ (j - 1) < unat x"
  shows "\<exists>k. ln2_loop x (2 ^ j) (of_nat j) = Some (of_nat k) \<and> nextPow2_loop x (2 ^ j) = Some (2 ^ k) \<and>
    k < LENGTH('a) \<and> unat x \<le> 2 ^ k \<and> (k = 0 \<or> 2 ^ (k - 1) < unat x)"
  using assms
proof (induction "LENGTH('a) - j" arbitrary: j rule: less_induct)
  case less
  show ?case
  proof (cases "2 ^ j < unat x")
    case True
    have "Suc j < LENGTH('a)"
    proof (rule ccontr)
      assume "\<not> Suc j < LENGTH('a)"
      then have "j = LENGTH('a) - 1" using less.prems(2) by simp
      with True less.prems(1) show False by simp
    qed
    moreover from this have "LENGTH('a) - Suc j < LENGTH('a) - j" by simp
    ultimately have "\<exists>k. ln2_loop x (2 ^ Suc j) (of_nat (Suc j)) = Some (of_nat k) \<and>
      nextPow2_loop x (2 ^ Suc j) = Some (2 ^ k) \<and>
      k < LENGTH('a) \<and> unat x \<le> 2 ^ k \<and> (k = 0 \<or> 2 ^ (k - 1) < unat x)"
      using less.prems(1) True by (intro less.hyps) simp_all
    moreover have "ln2_loop x (2 ^ j) (of_nat j) = ln2_loop x (2 ^ Suc j) (of_nat (Suc j))"
      and "nextPow2_loop x (2 ^ j) = nextPow2_loop x (2 ^ Suc j)"
      using True less.prems(2)
      by (subst ln2_loop.simps nextPow2_loop.simps, simp add: exp_less_iff ac_simps)+
    ultimately show ?thesis by simp
  next
    case False
    then have "ln2_loop x (2 ^ j) (of_nat j) = Some (of_nat j)" and "nextPow2_loop x (2 ^ j) = Some (2 ^ j)"
      using less.prems(2) by (subst ln2_loop.simps nextPow2_loop.simps, simp add: exp_less_iff)+
    with False less.prems(2,3) show ?thesis by (auto simp: not_less)
  qed
qed

lemma ln2_returns:
  fixes x :: "'a::len word"
  assumes "unat x \<le> 2 ^ (LENGTH('a) - 1)"
  shows "\<exists>k. ln2 x = Some (of_nat k) \<and> nextPow2 x = Some (2 ^ k) \<and> k < LENGTH('a) \<and>
    unat x \<le> 2 ^ k \<and> (k = 0 \<or> 2 ^ (k - 1) < unat x)"
  using ln2_loop_returns [OF assms, of 0] by (simp add: ln2_def nextPow2_def)

text \<open>Beyond the largest power of two of the type the loop does not end.\<close>

lemma nextPow2_loop_bound:
  assumes "nextPow2_loop (x :: 'a::len word) y = Some r" and "y = 0 \<or> (\<exists>j < LENGTH('a). y = 2 ^ j)"
  shows "unat x \<le> 2 ^ (LENGTH('a) - 1)"
proof -
  let ?P = "\<lambda>(x :: 'a word) (y :: 'a word) (r :: 'a word).
    (y = 0 \<or> (\<exists>j < LENGTH('a). y = 2 ^ j)) \<longrightarrow> unat x \<le> 2 ^ (LENGTH('a) - 1)"
  have "(case (x, y) of (x, y) \<Rightarrow> nextPow2_loop x y) = Some r" using assms(1) by simp
  then have "(case (x, y) of (x, y) \<Rightarrow> ?P x y) r"
  proof (rule nextPow2_loop.raw_induct [rotated], intro impI)
    fix f and x y r :: "'a word"
    assume IH: "\<And>x y r. f x y = Some r \<Longrightarrow>
        (y = 0 \<or> (\<exists>j < LENGTH('a). y = 2 ^ j)) \<longrightarrow> unat x \<le> 2 ^ (LENGTH('a) - 1)"
      and eq: "(if y < x then f x (y * 2) else Some y) = Some r"
      and y: "y = 0 \<or> (\<exists>j < LENGTH('a). y = 2 ^ j)"
    have y2: "y * 2 = 0 \<or> (\<exists>j < LENGTH('a). y * 2 = 2 ^ j)"
    proof (cases "y = 0")
      case False
      with y obtain j where j: "j < LENGTH('a)" "y * 2 = 2 ^ Suc j" by auto
      moreover have "(2 :: 'a word) ^ Suc j = 0" if "\<not> Suc j < LENGTH('a)"
        using that by (simp del: power_Suc)
      ultimately show ?thesis by metis
    qed simp
    show "unat x \<le> 2 ^ (LENGTH('a) - 1)"
    proof (cases "y < x")
      case True
      with eq IH y2 show ?thesis by auto
    next
      case False
      then have "unat x \<le> unat y" by (simp add: not_less word_le_nat_alt)
      also have "unat y \<le> 2 ^ (LENGTH('a) - 1)"
        using y by (auto simp: unat_exp intro!: power_increasing)
      finally show ?thesis .
    qed
  qed
  with assms(2) show ?thesis by auto
qed

lemma nextPow2_None: "2 ^ (LENGTH('a) - 1) < unat (x :: 'a::len word) \<Longrightarrow> nextPow2 x = None"
  using nextPow2_loop_bound [of x 1] unfolding nextPow2_def
  by (metis len_gt_0 linorder_not_le option.exhaust power_0)

section \<open>The cyclic redundancy check\<close>

definition POLY :: u32 where
  "POLY = 0x82f63b78"

definition crc_bit :: "u32 \<Rightarrow> u32" where
  "crc_bit c = (if c AND 1 \<noteq> 0 then drop_bit 1 c XOR POLY else drop_bit 1 c)"

definition crc_byte :: "u32 \<Rightarrow> u8 \<Rightarrow> u32" where
  "crc_byte c b = (crc_bit ^^ 8) (c XOR ucast b)"

fun update_crc :: "u32 \<Rightarrow> u8 list \<Rightarrow> u32" where
  "update_crc c [] = c"
| "update_crc c (b # bs) = update_crc (crc_byte c b) bs"

definition crc32 :: "u8 list \<Rightarrow> u32" where
  "crc32 buf = update_crc (NOT 0) buf XOR NOT 0"

lemma bit_POLY_31: "bit POLY 31"
  by (simp add: POLY_def)

text \<open>
  What error detection needs of a round on the register: it respects \<open>XOR\<close> and loses no bit.
  Any number of rounds is then injective.
\<close>

locale xor_linear =
  fixes f :: "'a::len word \<Rightarrow> 'a word"
  assumes f_xor: "f (c XOR d) = f c XOR f d"
    and f_kernel: "f c = 0 \<Longrightarrow> c = 0"
begin

lemma rounds_xor: "(f ^^ n) (c XOR d) = (f ^^ n) c XOR (f ^^ n) d"
  by (induction n) (simp_all add: f_xor)

lemma rounds_kernel: "(f ^^ n) c = 0 \<Longrightarrow> c = 0"
  by (induction n) (auto dest: f_kernel)

lemma rounds_inject: "(f ^^ n) c = (f ^^ n) d \<longleftrightarrow> c = d"
  using rounds_kernel [of n "c XOR d"] by (simp add: rounds_xor) blast

end

lemma crc_bit_alt: "crc_bit c = drop_bit 1 c XOR (if bit c 0 then POLY else 0)"
  by (simp add: crc_bit_def bit_0 and_one_eq odd_iff_mod_2_eq_one)

lemma crc_bit_xor: "crc_bit (c XOR d) = crc_bit c XOR crc_bit d"
  by (rule bit_word_eqI) (auto simp: crc_bit_alt bit_simps)

lemma crc_bit_0 [simp]: "crc_bit 0 = 0"
  by (simp add: crc_bit_alt)

lemma crc_bit_eq_0: "crc_bit c = 0 \<Longrightarrow> c = 0"
proof -
  assume z: "crc_bit c = 0"
  have "bit (crc_bit c) 31 \<longleftrightarrow> bit c 0"
    using bit_POLY_31 by (simp add: crc_bit_alt bit_simps bit_beyond)
  with z have 0: "\<not> bit c 0" by simp
  show "c = 0"
  proof (rule bit_word_eqI)
    fix n assume n: "n < LENGTH(32)"
    show "bit c n = bit 0 n"
    proof (cases n)
      case (Suc m)
      have "\<not> bit (crc_bit c) m" using z by simp
      then show ?thesis using 0 Suc by (simp add: crc_bit_alt bit_simps)
    qed (use 0 in simp)
  qed
qed

interpretation crc_round: xor_linear crc_bit
  by unfold_locales (simp_all add: crc_bit_xor crc_bit_eq_0)

lemma crc_byte_inject: "crc_byte c b = crc_byte d b \<longleftrightarrow> c = d"
  by (simp add: crc_byte_def crc_round.rounds_inject)

lemma update_crc_inject: "update_crc c bs = update_crc d bs \<longleftrightarrow> c = d"
  by (induction bs arbitrary: c d) (simp_all add: crc_byte_inject)

lemma update_crc_append: "update_crc c (xs @ ys) = update_crc (update_crc c xs) ys"
  by (induction xs arbitrary: c) simp_all

text \<open>Eight rounds shift a word without low bits down by a byte.\<close>

lemma crc_bit_push: "\<not> bit w 31 \<Longrightarrow> crc_bit (push_bit 1 w) = w"
proof -
  assume w: "\<not> bit w 31"
  have "bit w n \<Longrightarrow> Suc n < 32" for n
    using w bit_imp_le_length [of w n] by (cases "n = 31") auto
  then show ?thesis
    by (intro bit_word_eqI) (auto simp: crc_bit_alt bit_simps simp del: push_bit_Suc One_nat_def)
qed

lemma crc_bits_push:
  assumes "n \<le> 32" and "\<And>i. 32 - n \<le> i \<Longrightarrow> \<not> bit w i"
  shows "(crc_bit ^^ n) (push_bit n w) = w"
  using assms
proof (induction n arbitrary: w)
  case (Suc n)
  have "push_bit (Suc n) w = push_bit n (push_bit 1 w)" by simp
  then have "(crc_bit ^^ Suc n) (push_bit (Suc n) w) = crc_bit ((crc_bit ^^ n) (push_bit n (push_bit 1 w)))"
    by simp
  also have "(crc_bit ^^ n) (push_bit n (push_bit 1 w)) = push_bit 1 w"
  proof (rule Suc.IH)
    fix i assume "32 - n \<le> i"
    then show "\<not> bit (push_bit 1 w) i"
      using Suc.prems by (auto simp: bit_push_bit_iff simp del: push_bit_Suc One_nat_def)
  qed (use Suc.prems in simp)
  finally show ?case using Suc.prems(2) [of 31] crc_bit_push Suc.prems(1) by simp
qed simp

text \<open>Up to four bytes, the byte loop is the bit loop run over their little-endian word.\<close>

lemma update_crc_word:
  "length bs \<le> 4 \<Longrightarrow> update_crc c bs = (crc_bit ^^ (8 * length bs)) (c XOR le_word bs)"
proof (induction bs arbitrary: c)
  case Nil
  then show ?case by simp
next
  case (Cons b bs)
  let ?w = "le_word bs :: u32"
  have low: "\<not> bit ?w i" if "32 - 8 \<le> i" for i
    using that Cons.prems by (auto simp: bit_le_word_iff)
  have w: "le_word (b # bs) = ucast b XOR push_bit 8 ?w"
    by (rule bit_word_eqI) (auto simp: bit_simps dest: bit_imp_le_length)
  have "update_crc c (b # bs) = (crc_bit ^^ (8 * length bs)) (crc_byte c b XOR ?w)"
    using Cons by simp
  also have "crc_byte c b XOR ?w = (crc_bit ^^ 8) (c XOR ucast b) XOR (crc_bit ^^ 8) (push_bit 8 ?w)"
    using crc_bits_push [of 8 ?w] low by (simp add: crc_byte_def)
  also have "\<dots> = (crc_bit ^^ 8) (c XOR le_word (b # bs))"
    by (simp only: w crc_round.rounds_xor [symmetric] xor.assoc)
  also have "(crc_bit ^^ (8 * length bs)) \<dots> = (crc_bit ^^ (8 * length bs + 8)) (c XOR le_word (b # bs))"
    by (simp only: funpow_add o_apply)
  also have "8 * length bs + 8 = 8 * length (b # bs)" by simp
  finally show ?case .
qed

text \<open>
  Hence any change confined to four consecutive bytes changes the checksum.
\<close>

lemma crc32_burst:
  assumes "length u = length v" and "length v \<le> 4"
  shows "crc32 (xs @ u @ ys) = crc32 (xs @ v @ ys) \<longleftrightarrow> u = v"
proof -
  have "crc32 (xs @ u @ ys) = crc32 (xs @ v @ ys) \<longleftrightarrow> (le_word u :: u32) = le_word v"
    using assms
    by (simp add: crc32_def update_crc_append update_crc_inject update_crc_word crc_round.rounds_inject)
  also have "\<dots> \<longleftrightarrow> u = v"
  proof -
    have "le_bytes (length u) (le_word u :: u32) = u" and "le_bytes (length v) (le_word v :: u32) = v"
      by (rule le_bytes_le_word, use assms in simp)+
    with assms(1) show ?thesis by metis
  qed
  finally show ?thesis .
qed

section \<open>Flags of open\<close>

definition simIOFlags :: "u32 list" where
  "simIOFlags = [0, 1, 2, 0x0008, 0x0200, 0x0400, 0x0800, 0x2000, 0x4000, 0x8000]"

fun remap_loop :: "u32 \<Rightarrow> (u32 \<times> u32) list \<Rightarrow> u32 \<Rightarrow> u32" where
  "remap_loop flags [] nflags = nflags"
| "remap_loop flags ((sim, host) # rest) nflags =
     remap_loop flags rest (if flags AND sim \<noteq> 0 then nflags OR host else nflags)"

text \<open>\<open>host_flags\<close> are the values of the host's \<open>fcntl.h\<close>, in the order of \<open>hostIOFlags\<close>.\<close>

definition remapIOFlags :: "u32 list \<Rightarrow> u32 \<Rightarrow> u32" where
  "remapIOFlags host_flags flags = remap_loop flags (zip simIOFlags host_flags) 0"

lemma remap_loop_acc: "remap_loop flags ps n = n OR remap_loop flags ps 0"
proof (induction ps arbitrary: n)
  case (Cons p ps)
  obtain sim host where "p = (sim, host)" by (cases p)
  then show ?case using Cons.IH [of host] Cons.IH [of "n OR host"] Cons.IH [of n]
    by (simp add: or.assoc)
qed simp

text \<open>The host flags returned are the union of those selected, one by one.\<close>

lemma remap_loop_bit:
  "bit (remap_loop flags ps 0) k \<longleftrightarrow> (\<exists>(sim, host) \<in> set ps. flags AND sim \<noteq> 0 \<and> bit host k)"
proof (induction ps)
  case (Cons p ps)
  obtain sim host where "p = (sim, host)" by (cases p)
  then show ?case using Cons.IH remap_loop_acc [of flags ps host] by (auto simp: bit_or_iff)
qed simp

lemma remap_union:
  "remapIOFlags hf (f OR g) = remapIOFlags hf f OR remapIOFlags hf g"
proof (rule bit_word_eqI)
  fix k
  have "(f OR g) AND s \<noteq> 0 \<longleftrightarrow> f AND s \<noteq> 0 \<or> g AND s \<noteq> 0" for s :: u32
    by (auto simp: bit_eq_iff bit_and_iff bit_or_iff)
  then show "bit (remapIOFlags hf (f OR g)) k = bit (remapIOFlags hf f OR remapIOFlags hf g) k"
    by (auto simp: remapIOFlags_def remap_loop_bit bit_or_iff)
qed

section \<open>Single bits\<close>

lemma extractBit_iff: "extractBit x b \<longleftrightarrow> bit x b"
  by (simp add: extractBit_def bit_iff_odd_drop_bit and_one_eq odd_iff_mod_2_eq_one)

lemma setBit_bit:
  "bit (setBit x (of_bool v) b) n \<longleftrightarrow> (if n = b then n < LENGTH('a) \<and> v else bit (x :: 'a::len word) n)"
  by (cases v) (auto simp: setBit_def Let_def bit_simps dest: bit_imp_le_length)

lemma roundToPgSz_nat:
  assumes "unat x + unat p - 1 < 2 ^ LENGTH('a)" and "0 < unat (p :: 'a::len word)"
  shows "unat (roundToPgSz x p) = ((unat x + unat p - 1) div unat p) * unat p"
proof -
  have "p \<noteq> 0" using assms(2) by auto
  then have p1: "unat (p - 1) = unat p - 1" by (rule unat_minus_one)
  have "unat (x + (p - 1)) = unat x + (unat p - 1)"
    using assms p1 by (subst unat_add_lem [THEN iffD1]) simp_all
  then have s: "unat (x + p - 1) = unat x + unat p - 1"
    using assms(2) by (simp add: algebra_simps)
  have "((unat x + unat p - 1) div unat p) * unat p \<le> unat x + unat p - 1" by simp
  then have "((unat x + unat p - 1) div unat p) * unat p < 2 ^ LENGTH('a)"
    using assms(1) by (rule order.strict_trans1)
  then have "unat ((x + p - 1) div p) * unat p < 2 ^ LENGTH('a)"
    by (simp only: unat_div s)
  then show ?thesis
    by (subst roundToPgSz_def, subst unat_mult_lem [THEN iffD1]) (simp_all add: unat_div s)
qed

text \<open>The rounded size is the least multiple of the page size that is not below \<open>x\<close>.\<close>

lemma roundToPgSz_least:
  assumes "unat x + unat p - 1 < 2 ^ LENGTH('a)" and "0 < unat (p :: 'a::len word)"
  shows "unat p dvd unat (roundToPgSz x p)" and "unat x \<le> unat (roundToPgSz x p)"
    and "unat (roundToPgSz x p) < unat x + unat p"
proof -
  let ?n = "unat x + unat p - 1"
  note r = roundToPgSz_nat [OF assms]
  show "unat p dvd unat (roundToPgSz x p)" by (simp add: r)
  have "?n div unat p * unat p + ?n mod unat p = ?n" by (rule div_mult_mod_eq)
  moreover have "?n mod unat p < unat p" using assms(2) by simp
  ultimately show "unat x \<le> unat (roundToPgSz x p)" and "unat (roundToPgSz x p) < unat x + unat p"
    unfolding r by linarith+
qed

section \<open>Byte order\<close>

lemma bswap_involutive:
  "bswap16 EL (bswap16 EL x) = x" "bswap32 EL (bswap32 EL y) = y" "bswap64 EL (bswap64 EL z) = z"
  using le_bytes_le_word [of "rev (le_bytes 2 x)", where ?'a = 16]
    le_bytes_le_word [of "rev (le_bytes 4 y)", where ?'a = 32]
    le_bytes_le_word [of "rev (le_bytes 8 z)", where ?'a = 64]
  by (simp_all add: bswap16_def bswap32_def bswap64_def le_word_le_bytes)

section \<open>Properties\<close>

text \<open>
  C31. The CRC-32C detects every burst of up to four bytes: two messages that differ only
  inside a window of at most four bytes have equal checksums exactly when they are equal.
\<close>

theorem crc32_detects_bursts:
  assumes "length u = length v" and "length v \<le> 4"
  shows "crc32 (xs @ u @ ys) = crc32 (xs @ v @ ys) \<longleftrightarrow> u = v"
  using crc32_burst [OF assms] .

theorem crc32_detects_bursts_witness:
  "crc32 ([1, 2] @ [3, 4, 5, 6] @ [7]) \<noteq> crc32 ([1, 2] @ [3, 4, 5, 7] @ [7])"
  using crc32_detects_bursts [of "[3, 4, 5, 6]" "[3, 4, 5, 7]" "[1, 2]" "[7]"] by simp


text \<open>
  The masked \<open>mod\<close> is the remainder for every non-zero divisor, power of two or not;
  for divisor zero, which \<open>isPow2\<close> accepts, it returns its first argument.
\<close>

theorem mod_is_remainder: "mod_pow2 x y = (if y = 0 then x else x mod y)"
  by (rule mod_pow2_correct)

text \<open>
  As long as the sum does not overflow the type, \<open>roundToPgSz\<close> returns the least
  multiple of the page size that is not below its argument.
\<close>

theorem roundToPgSz_least_multiple:
  assumes "unat x + unat p - 1 < 2 ^ LENGTH('a)" and "0 < unat (p :: 'a::len word)"
  shows "unat p dvd unat (roundToPgSz x p) \<and> unat x \<le> unat (roundToPgSz x p) \<and>
    unat (roundToPgSz x p) < unat x + unat p"
  using roundToPgSz_least [OF assms] by simp

theorem roundToPgSz_least_multiple_witness:
  "(4096 :: nat) dvd unat (roundToPgSz (5000 :: u32) 4096) \<and>
    unat (roundToPgSz (5000 :: u32) 4096) < 9096"
  using roundToPgSz_least_multiple [of "5000 :: u32" 4096] by simp

text \<open>
  Translating the flags of \<open>open\<close> is pointwise: a host bit is set exactly when some
  flag pair of the tables has its guest flag set and owns that bit.
\<close>

theorem remapIOFlags_pointwise:
  "bit (remapIOFlags host_flags flags) k \<longleftrightarrow>
     (\<exists>(sim, host) \<in> set (zip simIOFlags host_flags). flags AND sim \<noteq> 0 \<and> bit host k)"
  by (simp add: remapIOFlags_def remap_loop_bit)

end
