(* ===== verification/Syscalls.thy ===== *)
theory Syscalls
  imports Machine_State Helper
begin

text \<open>
  \<open>interpret.cc: handle_syscall\<close>: the guest asks for a service by storing, at the word
  \<open>tohost\<close>, the offset of a buffer of 64-bit words whose word 0 is the call's number and
  receives its result. The handler performs the call, then acknowledges it by clearing
  \<open>tohost\<close> and storing 1 at \<open>fromhost\<close>.

  The operating system is a parameter: a record of functions on a state of its own (type
  \<open>'w\<close>), one per host call the handler makes, with the arguments the C code passes. Calls
  that read the guest's memory get the memory and the offset. The flag values of
  \<open>fcntl.h\<close> are a field of the same record.
\<close>

unbundle bit_operations_syntax

section \<open>Globals and the host\<close>

text \<open>
  \<open>globals.hh\<close>, as far as the simulator core reads it. \<open>use_sdl\<close> is the macro
  \<open>USE_SDL\<close> and \<open>sdlscr\<close> says whether the surface pointer is set.
\<close>

record globals =
  tohost_addr :: u32
  fromhost_addr :: u32
  symtab :: "string \<rightharpoonup> u32"
  use_sdl :: bool
  sdlscr :: bool

record native_stat =
  n_dev :: u64
  n_ino :: u64
  n_mode :: u32
  n_nlink :: u64
  n_uid :: u32
  n_gid :: u32
  n_size :: u64
  n_atime :: u64
  n_blksize :: u64
  n_blocks :: u64

record 'w host =
  h_flags :: "u32 list"
  h_write :: "'w \<Rightarrow> u32 \<Rightarrow> mem \<Rightarrow> u64 \<Rightarrow> u64 \<Rightarrow> 'w \<times> u64"
  h_fflush :: "'w \<Rightarrow> nat \<Rightarrow> 'w"
  h_open :: "'w \<Rightarrow> mem \<Rightarrow> u64 \<Rightarrow> u32 \<Rightarrow> 'w \<times> u32"
  h_close :: "'w \<Rightarrow> u32 \<Rightarrow> 'w \<times> u32"
  h_read :: "'w \<Rightarrow> u32 \<Rightarrow> u64 \<Rightarrow> u64 \<Rightarrow> 'w \<times> u64 \<times> u8 list"
  h_lseek :: "'w \<Rightarrow> u32 \<Rightarrow> u64 \<Rightarrow> u32 \<Rightarrow> 'w \<times> u64"
  h_fstat :: "'w \<Rightarrow> u32 \<Rightarrow> 'w \<times> u32 \<times> native_stat"
  h_gettimeofday :: "'w \<Rightarrow> 'w \<times> u32 \<times> u64 \<times> u64 \<times> u64"
  h_draw :: "'w \<Rightarrow> u8 list \<Rightarrow> 'w"

section \<open>Call numbers\<close>

definition SYS_open :: u64 where "SYS_open = 55"
definition SYS_close :: u64 where "SYS_close = 57"
definition SYS_lseek :: u64 where "SYS_lseek = 62"
definition SYS_read :: u64 where "SYS_read = 63"
definition SYS_write :: u64 where "SYS_write = 64"
definition SYS_stat :: u64 where "SYS_stat = 78"
definition SYS_fstat :: u64 where "SYS_fstat = 80"
definition SYS_gettimeofday :: u64 where "SYS_gettimeofday = 94"
definition SYS_draw :: u64 where "SYS_draw = 0x1337"

lemmas sys_numbers = SYS_open_def SYS_close_def SYS_lseek_def SYS_read_def SYS_write_def
  SYS_stat_def SYS_fstat_def SYS_gettimeofday_def SYS_draw_def

section \<open>The calls\<close>

definition buf_get :: "mem \<Rightarrow> nat \<Rightarrow> nat \<Rightarrow> failure + u64" where
  "buf_get m base k = mem_r64 m (base + 8 * k)"

definition buf_set0 :: "mem \<Rightarrow> nat \<Rightarrow> u64 \<Rightarrow> failure + mem" where
  "buf_set0 m base v = mem_w64 m base v"

definition sys_write :: "'w host \<Rightarrow> 'w \<Rightarrow> mem \<Rightarrow> nat \<Rightarrow> failure + 'w \<times> mem" where
  "sys_write h w m base =
     bind_r (buf_get m base 1) (\<lambda>b1. bind_r (buf_get m base 2) (\<lambda>b2. bind_r (buf_get m base 3) (\<lambda>b3.
       let (w1, rc) = h_write h w (ucast b1) m b2 b3 in
       bind_r (buf_set0 m base rc) (\<lambda>m1.
         Inr (if b1 = 1 then h_fflush h w1 1 else if b1 = 2 then h_fflush h w1 2 else w1, m1)))))"

definition sys_open :: "'w host \<Rightarrow> 'w \<Rightarrow> mem \<Rightarrow> nat \<Rightarrow> failure + 'w \<times> mem" where
  "sys_open h w m base =
     bind_r (buf_get m base 1) (\<lambda>b1. bind_r (buf_get m base 2) (\<lambda>b2.
       let (w1, rc) = h_open h w m b1 (remapIOFlags (h_flags h) (ucast b2)) in
       bind_r (buf_set0 m base (scast rc)) (\<lambda>m1. Inr (w1, m1))))"

definition sys_close :: "'w host \<Rightarrow> 'w \<Rightarrow> mem \<Rightarrow> nat \<Rightarrow> failure + 'w \<times> mem" where
  "sys_close h w m base =
     bind_r (buf_get m base 1) (\<lambda>b1.
       if b1 > 2 then
         let (w1, rc) = h_close h w (ucast b1) in
         bind_r (buf_set0 m base (scast rc)) (\<lambda>m1. Inr (w1, m1))
       else bind_r (buf_set0 m base 0) (\<lambda>m1. Inr (w, m1)))"

definition sys_read :: "'w host \<Rightarrow> 'w \<Rightarrow> mem \<Rightarrow> nat \<Rightarrow> failure + 'w \<times> mem" where
  "sys_read h w m base =
     bind_r (buf_get m base 1) (\<lambda>b1. bind_r (buf_get m base 2) (\<lambda>b2. bind_r (buf_get m base 3) (\<lambda>b3.
       let (w1, rc, data) = h_read h w (ucast b1) b2 b3 in
       bind_r (copy_in m (unat b2) data) (\<lambda>m1.
       bind_r (buf_set0 m1 base rc) (\<lambda>m2. Inr (w1, m2))))))"

definition sys_lseek :: "'w host \<Rightarrow> 'w \<Rightarrow> mem \<Rightarrow> nat \<Rightarrow> failure + 'w \<times> mem" where
  "sys_lseek h w m base =
     bind_r (buf_get m base 1) (\<lambda>b1. bind_r (buf_get m base 2) (\<lambda>b2. bind_r (buf_get m base 3) (\<lambda>b3.
       let (w1, rc) = h_lseek h w (ucast b1) b2 (ucast b3) in
       bind_r (buf_set0 m base rc) (\<lambda>m1. Inr (w1, m1)))))"

text \<open>
  The guest's \<open>stat32_t\<close>: its members with their sizes, and where each lies when every member
  is aligned to its size. \<open>put_stat32\<close> is the conversion; the other members are not written.
\<close>

definition stat32_t :: "(string \<times> nat) list" where
  "stat32_t = [(''st_dev'', 2), (''st_ino'', 2), (''st_mode'', 4), (''st_nlink'', 2), (''st_uid'', 2),
     (''st_gid'', 2), (''st_rdev'', 2), (''st_size'', 4), (''_st_atime'', 4), (''st_spare1'', 4),
     (''_st_mtime'', 4), (''st_spare2'', 4), (''_st_ctime'', 4), (''st_spare3'', 4),
     (''st_blksize'', 4), (''st_blocks'', 4), (''st_spare4'', 4)]"

fun offset_of :: "nat \<Rightarrow> (string \<times> nat) list \<Rightarrow> string \<Rightarrow> nat" where
  "offset_of o1 [] x = o1"
| "offset_of o1 ((y, n) # ms) x =
    (let start = (o1 + n - 1) div n * n in if x = y then start else offset_of (start + n) ms x)"

abbreviation stat32_at :: "string \<Rightarrow> nat" where
  "stat32_at \<equiv> offset_of 0 stat32_t"

definition put_stat32 :: "mem \<Rightarrow> nat \<Rightarrow> native_stat \<Rightarrow> failure + mem" where
  "put_stat32 m a n =
     bind_r (mem_w16 m (a + stat32_at ''st_dev'') (ucast (n_dev n))) (\<lambda>m.
     bind_r (mem_w16 m (a + stat32_at ''st_ino'') (ucast (n_ino n))) (\<lambda>m.
     bind_r (mem_w32 m (a + stat32_at ''st_mode'') (n_mode n)) (\<lambda>m.
     bind_r (mem_w16 m (a + stat32_at ''st_nlink'') (ucast (n_nlink n))) (\<lambda>m.
     bind_r (mem_w16 m (a + stat32_at ''st_uid'') (ucast (n_uid n))) (\<lambda>m.
     bind_r (mem_w16 m (a + stat32_at ''st_gid'') (ucast (n_gid n))) (\<lambda>m.
     bind_r (mem_w32 m (a + stat32_at ''st_size'') (ucast (n_size n))) (\<lambda>m.
     bind_r (mem_w32 m (a + stat32_at ''_st_atime'') (ucast (n_atime n))) (\<lambda>m.
     bind_r (mem_w32 m (a + stat32_at ''_st_mtime'') 0) (\<lambda>m.
     bind_r (mem_w32 m (a + stat32_at ''_st_ctime'') 0) (\<lambda>m.
     bind_r (mem_w32 m (a + stat32_at ''st_blksize'') (ucast (n_blksize n))) (\<lambda>m.
     mem_w32 m (a + stat32_at ''st_blocks'') (ucast (n_blocks n)))))))))))))"

lemma stat32_layout [simp]:
  "stat32_at ''st_dev'' = 0" "stat32_at ''st_ino'' = 2" "stat32_at ''st_mode'' = 4" "stat32_at ''st_nlink'' = 8"
  "stat32_at ''st_uid'' = 10" "stat32_at ''st_gid'' = 12" "stat32_at ''st_size'' = 16" "stat32_at ''_st_atime'' = 20"
  "stat32_at ''_st_mtime'' = 28" "stat32_at ''_st_ctime'' = 36" "stat32_at ''st_blksize'' = 44"
  "stat32_at ''st_blocks'' = 48"
  by (simp_all add: stat32_t_def)

definition sys_fstat :: "'w host \<Rightarrow> 'w \<Rightarrow> mem \<Rightarrow> nat \<Rightarrow> failure + 'w \<times> mem" where
  "sys_fstat h w m base =
     bind_r (buf_get m base 1) (\<lambda>b1. bind_r (buf_get m base 2) (\<lambda>b2.
       let (w1, rc, n) = h_fstat h w (ucast b1) in
       bind_r (put_stat32 m (unat b2) n) (\<lambda>m1.
       bind_r (buf_set0 m1 base (scast rc)) (\<lambda>m2. Inr (w1, m2)))))"

definition sys_stat :: "'w \<Rightarrow> mem \<Rightarrow> nat \<Rightarrow> failure + 'w \<times> mem" where
  "sys_stat w m base = bind_r (buf_set0 m base 0) (\<lambda>m1. Inr (w, m1))"

text \<open>The host's 16-byte \<open>timeval\<close> (two words) and 8-byte \<open>timezone\<close> (one).\<close>

definition sys_gettimeofday :: "'w host \<Rightarrow> 'w \<Rightarrow> mem \<Rightarrow> nat \<Rightarrow> failure + 'w \<times> mem" where
  "sys_gettimeofday h w m base =
     bind_r (buf_get m base 1) (\<lambda>b1. bind_r (buf_get m base 2) (\<lambda>b2.
       let (w1, rc, sec, usec, tz) = h_gettimeofday h w in
       bind_r (mem_w64 m (unat b1) sec) (\<lambda>m1.
       bind_r (mem_w64 m1 (unat b1 + 8) usec) (\<lambda>m2.
       bind_r (mem_w64 m2 (unat b2) tz) (\<lambda>m3.
       bind_r (buf_set0 m3 base (scast rc)) (\<lambda>m4. Inr (w1, m4)))))))"

definition FB_WIDTH :: nat where "FB_WIDTH = 320"
definition FB_HEIGHT :: nat where "FB_HEIGHT = 200"

definition sys_draw :: "'w host \<Rightarrow> globals \<Rightarrow> 'w \<Rightarrow> mem \<Rightarrow> nat \<Rightarrow> failure + 'w \<times> mem" where
  "sys_draw h g w m base =
     (if \<not> use_sdl g then Inr (w, m)
      else if \<not> sdlscr g then Inl Null_deref
      else bind_r (buf_get m base 1) (\<lambda>b1.
        let n = 4 * FB_WIDTH * FB_HEIGHT in
        if in_mem (unat b1) n then Inr (h_draw h w (read_bytes m (unat b1) n), m)
        else Inl (Bad_access (unat b1))))"

section \<open>The handler\<close>

definition ack :: "globals \<Rightarrow> mem \<Rightarrow> failure + mem" where
  "ack g m =
     bind_r (mem_w64 m (unat (tohost_addr g)) 0) (\<lambda>m1.
       mem_w64 m1 (unat (fromhost_addr g)) 1)"

definition syscall_switch ::
    "'w host \<Rightarrow> globals \<Rightarrow> 'w \<Rightarrow> mem \<Rightarrow> nat \<Rightarrow> u64 \<Rightarrow> failure + 'w \<times> mem" where
  "syscall_switch h g w m base nr =
     (if nr = SYS_write then sys_write h w m base
      else if nr = SYS_open then sys_open h w m base
      else if nr = SYS_close then sys_close h w m base
      else if nr = SYS_read then sys_read h w m base
      else if nr = SYS_lseek then sys_lseek h w m base
      else if nr = SYS_fstat then sys_fstat h w m base
      else if nr = SYS_stat then sys_stat w m base
      else if nr = SYS_gettimeofday then sys_gettimeofday h w m base
      else if nr = SYS_draw then sys_draw h g w m base
      else Inl (Exit_called (- 1)))"

definition handle_syscall ::
    "'w host \<Rightarrow> globals \<Rightarrow> 'w \<Rightarrow> state_t \<Rightarrow> u64 \<Rightarrow> failure + 'w \<times> state_t" where
  "handle_syscall h g w s tohost =
     (if tohost AND 1 \<noteq> 0 then Inr (w, s\<lparr>brk := 1\<rparr>)
      else
        let base = unat tohost in
        bind_r (buf_get (mem s) base 0) (\<lambda>nr.
        bind_r (syscall_switch h g w (mem s) base nr) (\<lambda>(w1, m1).
        bind_r (ack g m1) (\<lambda>m2. Inr (w1, s\<lparr>mem := m2\<rparr>)))))"

section \<open>What a call leaves behind\<close>

lemma ok_r_copy_in [simp]: "ok_r P (copy_in m a bs) \<longleftrightarrow> (in_mem a (length bs) \<longrightarrow> P (write_bytes m a bs))"
  by (simp add: copy_in_def)

lemma ack_mailboxes:
  assumes "ack g m = Inr m'"
  shows "mem_r64 m' (unat (fromhost_addr g)) = Inr 1"
    and "unat (tohost_addr g) + 8 \<le> unat (fromhost_addr g) \<or>
      unat (fromhost_addr g) + 8 \<le> unat (tohost_addr g) \<Longrightarrow>
      mem_r64 m' (unat (tohost_addr g)) = Inr 0"
proof -
  from assms obtain m1 where m1: "mem_w64 m (unat (tohost_addr g)) 0 = Inr m1"
    and m': "mem_w64 m1 (unat (fromhost_addr g)) 1 = Inr m'"
    by (auto simp: ack_def bind_r_eq_Inr_iff)
  show "mem_r64 m' (unat (fromhost_addr g)) = Inr 1"
    by (rule ram.ld_st_same [OF m']) simp
  have "mem_r64 m1 (unat (tohost_addr g)) = Inr 0"
    by (rule ram.ld_st_same [OF m1]) simp
  then show "mem_r64 m' (unat (tohost_addr g)) = Inr 0"
    if "unat (tohost_addr g) + 8 \<le> unat (fromhost_addr g) \<or>
      unat (fromhost_addr g) + 8 \<le> unat (tohost_addr g)"
    using ram.ld_st_disjoint [OF m', of "unat (tohost_addr g)" 8] that by auto
qed

text \<open>Only the memory, the host and (for an exit request) \<open>brk\<close> change.\<close>

lemma handle_syscall_frame:
  "ok_r (\<lambda>(w', s'). s' = s\<lparr>mem := mem s', brk := brk s'\<rparr> \<and>
     (if tohost AND 1 \<noteq> 0 then w' = w \<and> mem s' = mem s \<and> brk s' = 1 else brk s' = brk s))
   (handle_syscall h g w s tohost)"
  by (auto simp: handle_syscall_def Let_def split: prod.splits intro!: ok_rI)

lemma handle_syscall_ack:
  assumes "handle_syscall h g w s tohost = Inr (w', s')" and "tohost AND 1 = 0"
  obtains m where "ack g m = Inr (mem s')"
  using assms
  by (auto simp: handle_syscall_def Let_def bind_r_eq_Inr_iff split: prod.splits)

text \<open>
  The memory a call may write: the result word, the two mailboxes, and the area the call's
  buffer names. For the calls that fill no area, nothing else changes.
\<close>

definition result_word :: "nat \<Rightarrow> nat \<Rightarrow> bool" where
  "result_word base i \<longleftrightarrow> base \<le> i \<and> i < base + 8"

lemma write_bytes_outside: "\<not> (a \<le> i \<and> i < a + length bs) \<Longrightarrow> write_bytes m a bs i = m i"
  by (auto simp: write_bytes_def)

lemma small_calls_mem:
  "\<not> result_word base i \<Longrightarrow> ok_r (\<lambda>(w', m'). m' i = m i) (sys_write h w m base)"
  "\<not> result_word base i \<Longrightarrow> ok_r (\<lambda>(w', m'). m' i = m i) (sys_open h w m base)"
  "\<not> result_word base i \<Longrightarrow> ok_r (\<lambda>(w', m'). m' i = m i) (sys_close h w m base)"
  "\<not> result_word base i \<Longrightarrow> ok_r (\<lambda>(w', m'). m' i = m i) (sys_lseek h w m base)"
  "\<not> result_word base i \<Longrightarrow> ok_r (\<lambda>(w', m'). m' i = m i) (sys_stat w m base)"
  "ok_r (\<lambda>(w', m'). m' i = m i) (sys_draw h g w m base)"
  by (auto simp: sys_write_def sys_open_def sys_close_def sys_lseek_def sys_stat_def sys_draw_def
      buf_get_def buf_set0_def result_word_def Let_def write_bytes_outside split: prod.splits)

text \<open>Descriptors 0 to 2 are never closed on the host.\<close>

lemma sys_close_std:
  assumes "buf_get m base 1 = Inr b1" and "b1 \<le> 2"
  shows "ok_r (\<lambda>(w', m'). w' = w) (sys_close h w m base)"
  using assms by (auto simp: sys_close_def buf_set0_def)

section \<open>The guest's stat buffer\<close>

lemma put_stat32_reads:
  assumes "put_stat32 m a n = Inr m'"
  shows "mem_r16 m' a = Inr (ucast (n_dev n))" and "mem_r16 m' (a + 2) = Inr (ucast (n_ino n))"
    and "mem_r32 m' (a + 4) = Inr (n_mode n)" and "mem_r16 m' (a + 8) = Inr (ucast (n_nlink n))"
    and "mem_r16 m' (a + 10) = Inr (ucast (n_uid n))" and "mem_r16 m' (a + 12) = Inr (ucast (n_gid n))"
    and "mem_r32 m' (a + 16) = Inr (ucast (n_size n))" and "mem_r32 m' (a + 20) = Inr (ucast (n_atime n))"
    and "mem_r32 m' (a + 28) = Inr 0" and "mem_r32 m' (a + 36) = Inr 0"
    and "mem_r32 m' (a + 44) = Inr (ucast (n_blksize n))" and "mem_r32 m' (a + 48) = Inr (ucast (n_blocks n))"
  using assms
  by (auto simp: put_stat32_def bind_r_eq_Inr_iff store_eq_Inr_iff load_eq_Inr_iff
      read_write_disjoint le_word_le_bytes)

section \<open>A concrete host\<close>

text \<open>
  A host for examples: its state is the list of the writes it was asked for; a write takes
  all its bytes, a read returns no byte, and every other call returns 0.
\<close>

definition echo_host :: "(u32 \<times> u8 list) list host" where
  "echo_host = \<lparr>h_flags = [0, 1, 2, 1024, 64, 512, 128],
     h_write = (\<lambda>w fd m a n. (w @ [(fd, read_bytes m (unat a) (unat n))], n)),
     h_fflush = (\<lambda>w _. w), h_open = (\<lambda>w _ _ _. (w, 3)), h_close = (\<lambda>w _. (w, 0)),
     h_read = (\<lambda>w _ _ _. (w, 0, [])), h_lseek = (\<lambda>w _ _ _. (w, 0)),
     h_fstat = (\<lambda>w _. (w, 0, \<lparr>n_dev = 0, n_ino = 0, n_mode = 0, n_nlink = 0, n_uid = 0,
       n_gid = 0, n_size = 0, n_atime = 0, n_blksize = 0, n_blocks = 0\<rparr>)),
     h_gettimeofday = (\<lambda>w. (w, 0, 0, 0, 0)), h_draw = (\<lambda>w _. w)\<rparr>"

definition example_globals :: globals where
  "example_globals = \<lparr>tohost_addr = 0x8000, fromhost_addr = 0x8040, symtab = Map.empty,
     use_sdl = False, sdlscr = False\<rparr>"

lemma example_globals_sel:
  "tohost_addr example_globals = 0x8000" "fromhost_addr example_globals = 0x8040"
  "symtab example_globals = Map.empty" "\<not> use_sdl example_globals" "\<not> sdlscr example_globals"
  by (simp_all add: example_globals_def)

section \<open>Properties\<close>

lemma write_call_served:
  fixes w :: 'w
  assumes even: "tohost AND 1 = 0"
    and buf: "buf_get (mem s) (unat tohost) 0 = Inr SYS_write"
      "buf_get (mem s) (unat tohost) 1 = Inr fd" "buf_get (mem s) (unat tohost) 2 = Inr p"
      "buf_get (mem s) (unat tohost) 3 = Inr len"
    and call: "h_write h w (ucast fd) (mem s) p len = (w1, rc)"
    and room: "in_mem (unat (tohost_addr g)) 8" "in_mem (unat (fromhost_addr g)) 8"
    and apart: "unat (tohost_addr g) + 8 \<le> unat (fromhost_addr g) \<or>
        unat (fromhost_addr g) + 8 \<le> unat (tohost_addr g)"
      "unat tohost + 8 \<le> unat (tohost_addr g) \<or> unat (tohost_addr g) + 8 \<le> unat tohost"
      "unat tohost + 8 \<le> unat (fromhost_addr g) \<or> unat (fromhost_addr g) + 8 \<le> unat tohost"
  shows "\<exists>m'. handle_syscall h g w s tohost =
      Inr (if fd = 1 then h_fflush h w1 1 else if fd = 2 then h_fflush h w1 2 else w1, s\<lparr>mem := m'\<rparr>) \<and>
    mem_r64 m' (unat tohost) = Inr rc \<and>
    mem_r64 m' (unat (tohost_addr g)) = Inr 0 \<and> mem_r64 m' (unat (fromhost_addr g)) = Inr 1"
proof -
  let ?b = "unat tohost" and ?t = "unat (tohost_addr g)" and ?f = "unat (fromhost_addr g)"
  let ?m1 = "write_bytes (mem s) ?b (le_bytes 8 rc)"
  let ?m2 = "write_bytes ?m1 ?t (le_bytes 8 (0 :: u64))"
  let ?m3 = "write_bytes ?m2 ?f (le_bytes 8 (1 :: u64))"
  have b: "in_mem ?b 8" using buf(1) by (simp add: buf_get_def load_eq_Inr_iff)
  have "handle_syscall h g w s tohost =
      Inr (if fd = 1 then h_fflush h w1 1 else if fd = 2 then h_fflush h w1 2 else w1, s\<lparr>mem := ?m3\<rparr>)"
    using even buf call b room
    by (simp add: handle_syscall_def syscall_switch_def sys_write_def Let_def buf_set0_def
        store_in ack_def)
  moreover have "mem_r64 ?m3 ?f = Inr 1" using room by (intro load_write_same) simp_all
  moreover have "mem_r64 ?m3 ?t = Inr 0"
    using room apart by (auto simp: load_write_disjoint load_write_same)
  moreover have "mem_r64 ?m3 ?b = Inr rc"
    using b apart by (auto simp: load_write_disjoint load_write_same)
  ultimately show ?thesis by blast
qed

text \<open>
  A write request. When the buffer at the even offset \<open>tohost\<close> holds the number of
  \<open>SYS_write\<close>, a descriptor, an offset and a length, and neither mailbox overlaps the
  result word or the other mailbox, the handler succeeds: it makes exactly that host call
  (and flushes the stream of descriptor 1 or 2), changes nothing of the state but the
  memory, and leaves the call's result in word 0, 0 in \<open>tohost\<close> and 1 in \<open>fromhost\<close>.
\<close>

theorem write_request:
  fixes w :: 'w
  assumes even: "tohost AND 1 = 0"
    and buf: "buf_get (mem s) (unat tohost) 0 = Inr SYS_write"
      "buf_get (mem s) (unat tohost) 1 = Inr fd" "buf_get (mem s) (unat tohost) 2 = Inr p"
      "buf_get (mem s) (unat tohost) 3 = Inr len"
    and call: "h_write h w (ucast fd) (mem s) p len = (w1, rc)"
    and room: "in_mem (unat (tohost_addr g)) 8" "in_mem (unat (fromhost_addr g)) 8"
    and apart: "unat (tohost_addr g) + 8 \<le> unat (fromhost_addr g) \<or>
        unat (fromhost_addr g) + 8 \<le> unat (tohost_addr g)"
      "unat tohost + 8 \<le> unat (tohost_addr g) \<or> unat (tohost_addr g) + 8 \<le> unat tohost"
      "unat tohost + 8 \<le> unat (fromhost_addr g) \<or> unat (fromhost_addr g) + 8 \<le> unat tohost"
  shows "\<exists>m'. handle_syscall h g w s tohost =
      Inr (if fd = 1 then h_fflush h w1 1 else if fd = 2 then h_fflush h w1 2 else w1, s\<lparr>mem := m'\<rparr>) \<and>
    mem_r64 m' (unat tohost) = Inr rc \<and>
    mem_r64 m' (unat (tohost_addr g)) = Inr 0 \<and> mem_r64 m' (unat (fromhost_addr g)) = Inr 1"
  using write_call_served [OF assms] .

text \<open>A guest that asks the example host to write two bytes of its memory to stdout.\<close>

definition write_demo :: mem where
  "write_demo = write_bytes mmap4G 0x9000
     (le_bytes 8 SYS_write @ le_bytes 8 (1 :: u64) @ le_bytes 8 (0x9100 :: u64) @ le_bytes 8 (2 :: u64))"

lemma write_demo_words:
  "buf_get write_demo 0x9000 0 = Inr SYS_write" "buf_get write_demo 0x9000 1 = Inr 1"
  "buf_get write_demo 0x9000 2 = Inr 0x9100" "buf_get write_demo 0x9000 3 = Inr 2"
  by (simp_all add: buf_get_def write_demo_def write_write_append [symmetric]
      load_write_disjoint load_write_same in_mem_val)

theorem write_request_witness:
  "\<exists>m'. handle_syscall echo_host example_globals [] (initState\<lparr>mem := write_demo\<rparr>) 0x9000 =
      Inr ([(1, [0, 0])], initState\<lparr>mem := m'\<rparr>) \<and>
    mem_r64 m' 0x9000 = Inr 2 \<and> mem_r64 m' 0x8000 = Inr 0 \<and> mem_r64 m' 0x8040 = Inr 1"
proof -
  have "read_bytes write_demo 0x9100 2 = [0, 0]"
    by (simp add: write_demo_def write_bytes_out mmap4G_def read_bytes_def numeral_2_eq_2)
  then show ?thesis
    using write_request [of "0x9000" "initState\<lparr>mem := write_demo\<rparr>" 1 "0x9100" 2 echo_host "[]"
      "[(1, [0, 0])]" 2 example_globals]
    by (simp add: write_demo_words echo_host_def example_globals_def in_mem_val del: One_nat_def)
qed

text \<open>
  Every successful call leaves the registers, the program counter and the counters as
  they were: only the memory changes, and only an odd request sets \<open>brk\<close>, without
  touching the memory or the host.
\<close>

theorem syscall_frame:
  "ok_r (\<lambda>(w', s'). s' = s\<lparr>mem := mem s', brk := brk s'\<rparr> \<and>
     (if tohost AND 1 \<noteq> 0 then w' = w \<and> mem s' = mem s \<and> brk s' = 1 else brk s' = brk s))
   (handle_syscall h g w s tohost)"
  by (rule handle_syscall_frame)

text \<open>
  The guest's \<open>fstat\<close> buffer. After a successful conversion every member of the
  32-bit structure reads back as the host's member, cut to the member's width, and the
  modification and change times read as zero.
\<close>

theorem stat_buffer_layout:
  assumes "put_stat32 m a n = Inr m'"
  shows "mem_r16 m' a = Inr (ucast (n_dev n)) \<and> mem_r16 m' (a + 2) = Inr (ucast (n_ino n)) \<and>
    mem_r32 m' (a + 4) = Inr (n_mode n) \<and> mem_r16 m' (a + 8) = Inr (ucast (n_nlink n)) \<and>
    mem_r16 m' (a + 10) = Inr (ucast (n_uid n)) \<and> mem_r16 m' (a + 12) = Inr (ucast (n_gid n)) \<and>
    mem_r32 m' (a + 16) = Inr (ucast (n_size n)) \<and> mem_r32 m' (a + 20) = Inr (ucast (n_atime n)) \<and>
    mem_r32 m' (a + 28) = Inr 0 \<and> mem_r32 m' (a + 36) = Inr 0 \<and>
    mem_r32 m' (a + 44) = Inr (ucast (n_blksize n)) \<and> mem_r32 m' (a + 48) = Inr (ucast (n_blocks n))"
  using put_stat32_reads [OF assms] by simp

theorem stat_buffer_layout_witness:
  "\<exists>m'. put_stat32 mmap4G 0x100 \<lparr>n_dev = 0x12345, n_ino = 7, n_mode = 0x81a4, n_nlink = 1,
      n_uid = 1000, n_gid = 1000, n_size = 4096, n_atime = 0, n_blksize = 512, n_blocks = 8\<rparr> = Inr m' \<and>
    mem_r16 m' 0x100 = Inr 0x2345 \<and> mem_r32 m' 0x110 = Inr 4096"
proof -
  let ?n = "\<lparr>n_dev = 0x12345, n_ino = 7, n_mode = 0x81a4, n_nlink = 1,
      n_uid = 1000, n_gid = 1000, n_size = 4096, n_atime = 0, n_blksize = 512, n_blocks = 8\<rparr>"
  obtain m' where "put_stat32 mmap4G 0x100 ?n = Inr m'"
    by (simp add: put_stat32_def store_in in_mem_val)
  with stat_buffer_layout [of mmap4G "0x100" ?n m'] show ?thesis by simp
qed

end
