(* ===== verification/Exec.thy ===== *)
theory Exec
  imports Interpreter_Correct Interpreter_Frame Syscalls
begin

text \<open>
  \<open>interpret.cc: execRiscv\<close>, one step of the simulator: fetch, service of a pending host
  request, execution, retirement; runs of it, and the states it can reach. The trace
  output \<open>globals::log\<close> asks for and the code under \<open>#if 0\<close> have no effect on the state and
  are not modelled.
\<close>

unbundle bit_operations_syntax

section \<open>The step\<close>

definition tohost_word :: "globals \<Rightarrow> state_t \<Rightarrow> failure + u64" where
  "tohost_word g s = bind_r (mem_r64 (mem s) (unat (tohost_addr g))) (\<lambda>t. Inr (t AND 0xffffffff))"

definition execRiscv :: "'w host \<Rightarrow> globals \<Rightarrow> 'w \<Rightarrow> state_t \<Rightarrow> failure + 'w \<times> state_t" where
  "execRiscv h g w s =
     bind_r (mem_r32 (mem s) (unat (pc s))) (\<lambda>inst.
     bind_r (tohost_word g s) (\<lambda>tohost.
     bind_r (if tohost \<noteq> 0 then handle_syscall h g w s tohost else Inr (w, s)) (\<lambda>(w1, s1).
     bind_r (exec_insn inst (s1\<lparr>last_pc := pc s1\<rparr>)) (\<lambda>s2.
       Inr (w1, s2\<lparr>icnt := icnt s2 + 1\<rparr>)))))"

fun run :: "'w host \<Rightarrow> globals \<Rightarrow> nat \<Rightarrow> 'w \<times> state_t \<Rightarrow> failure + 'w \<times> state_t" where
  "run h g 0 c = Inr c"
| "run h g (Suc n) c = bind_r (execRiscv h g (fst c) (snd c)) (run h g n)"

text \<open>The same as a step relation, with its reflexive and transitive closure.\<close>

inductive step :: "'w host \<Rightarrow> globals \<Rightarrow> 'w \<times> state_t \<Rightarrow> 'w \<times> state_t \<Rightarrow> bool"
  for h g where
  stepI: "execRiscv h g w s = Inr c \<Longrightarrow> step h g (w, s) c"

inductive reachable :: "'w host \<Rightarrow> globals \<Rightarrow> 'w \<times> state_t \<Rightarrow> 'w \<times> state_t \<Rightarrow> bool"
  for h g c where
  start: "reachable h g c c"
| next_step: "reachable h g c c' \<Longrightarrow> step h g c' c'' \<Longrightarrow> reachable h g c c''"

inductive_simps step_iff [simp]: "step h g (w, s) c"

lemma run_append: "run h g (m + n) c = bind_r (run h g m c) (run h g n)"
proof (induction m arbitrary: c)
  case 0
  then show ?case by simp
next
  case (Suc m)
  have "run h g (m + n) = (\<lambda>c. bind_r (run h g m c) (run h g n))" using Suc.IH by blast
  then show ?case by (simp add: bind_r_assoc)
qed

lemma run_reachable: "run h g n c = Inr c' \<Longrightarrow> reachable h g c c'"
proof (induction n arbitrary: c')
  case 0
  then show ?case by (simp add: start)
next
  case (Suc n)
  have "run h g (n + 1) c = Inr c'" using Suc.prems by (simp del: run.simps)
  then obtain w s where 1: "run h g n c = Inr (w, s)" and 2: "run h g 1 (w, s) = Inr c'"
    unfolding run_append by (auto simp: bind_r_eq_Inr_iff)
  from 2 have "execRiscv h g w s = Inr c'" by (auto simp: bind_r_eq_Inr_iff)
  with Suc.IH [OF 1] show ?case by (auto intro: next_step)
qed

lemma reachable_run: "reachable h g c c' \<Longrightarrow> \<exists>n. run h g n c = Inr c'"
proof (induction rule: reachable.induct)
  case start
  have "run h g 0 c = Inr c" by simp
  then show ?case by blast
next
  case (next_step c' c'')
  then obtain n where "run h g n c = Inr c'" by blast
  moreover have "run h g 1 c' = Inr c''" using next_step.hyps(2) by (cases c') simp
  ultimately have "run h g (n + 1) c = Inr c''" by (simp only: run_append bind_r_Inr)
  then show ?case by blast
qed

section \<open>The instruction switch ignores the counters\<close>

lemma last_pc_outermost:
  "next_pc (s\<lparr>last_pc := p\<rparr>) = (next_pc s)\<lparr>last_pc := p\<rparr>"
  "set_gpr (s\<lparr>last_pc := p\<rparr>) r v = (set_gpr s r v)\<lparr>last_pc := p\<rparr>"
  "s\<lparr>last_pc := p, mem := m\<rparr> = s\<lparr>mem := m, last_pc := p\<rparr>"
  "s\<lparr>last_pc := p, pc := q\<rparr> = s\<lparr>pc := q, last_pc := p\<rparr>"
  "s\<lparr>last_pc := p, brk := b\<rparr> = s\<lparr>brk := b, last_pc := p\<rparr>"
  by (simp_all add: set_gpr_def next_pc_def)

lemma exec_insn_last_pc:
  "exec_insn inst (s\<lparr>last_pc := p\<rparr>) = bind_r (exec_insn inst s) (\<lambda>s'. Inr (s'\<lparr>last_pc := p\<rparr>))"
  by (rule exec_insn_cases [of inst s])
    (auto simp: exec_insn_def frame_simps last_pc_outermost bind_r_assoc cong: if_cong)

lemma exec_insn_counters:
  "ok_r (\<lambda>s'. last_pc s' = last_pc s \<and> icnt s' = icnt s \<and> maxicnt s' = maxicnt s)
     (exec_insn inst s)"
  by (rule exec_insn_ok)
    (auto simp: frame_simps opimm_result_def op_result_def take_branch_def intro!: ok_rI)

text \<open>A step without a pending request is the instruction, between the two counters.\<close>

lemma execRiscv_quiet:
  assumes "mem_r32 (mem s) (unat (pc s)) = Inr inst" and "tohost_word g s = Inr 0"
  shows "execRiscv h g w s =
    bind_r (exec_insn inst s) (\<lambda>s'. Inr (w, s'\<lparr>last_pc := pc s, icnt := icnt s + 1\<rparr>))"
  using assms exec_insn_counters [of s inst]
  by (cases "exec_insn inst s") (simp_all add: execRiscv_def exec_insn_last_pc)

section \<open>An example state\<close>

text \<open>A machine about to execute \<open>addi x1, x0, 5\<close> at address 0.\<close>

definition addi_demo :: state_t where
  "addi_demo = initState\<lparr>mem :=
     write_bytes mmap4G 0 (le_bytes 4 (encode (AluImm ADDI 1 0 5)))\<rparr>"

lemma addi_demo_mem:
  "mem_r32 (mem addi_demo) 0 = Inr (encode (AluImm ADDI 1 0 5))"
  "mem_r64 (mem addi_demo) 0x8000 = Inr 0"
  by (simp_all add: addi_demo_def load_write_same load_write_disjoint in_mem_val mmap4G_def
      load_zeros del: encode.simps)

lemma addi_demo_fields:
  "pc addi_demo = 0" "gpr addi_demo = (\<lambda>_. 0)" "icnt addi_demo = 0"
  "tohost_word example_globals addi_demo = Inr 0"
  using addi_demo_mem(2)
  by (simp_all add: addi_demo_def initState_def tohost_word_def example_globals_def)

lemma addi_demo_step:
  "execRiscv echo_host example_globals w addi_demo =
     Inr (w, addi_demo\<lparr>gpr := (\<lambda>_. 0)(1 := 5), pc := 4, last_pc := 0, icnt := 1\<rparr>)"
  using execRiscv_quiet [of addi_demo "encode (AluImm ADDI 1 0 5)" example_globals echo_host w]
  by (simp add: addi_demo_mem addi_demo_fields exec_alui wr_def next_pc_def set_gpr_def
      del: encode.simps)

section \<open>Invariants of every run\<close>

lemma execRiscv_frame:
  "ok_r (\<lambda>(w', s'). gpr s' 0 = gpr s 0 \<and> (even (pc s) \<longrightarrow> even (pc s')) \<and> last_pc s' = pc s \<and>
     icnt s' = icnt s + 1 \<and> maxicnt s' = maxicnt s)
   (execRiscv h g w s)"
proof (rule ok_rI, safe)
  fix w' s'
  assume "execRiscv h g w s = Inr (w', s')"
  then obtain inst t s1 s2 where
    1: "(if t \<noteq> 0 then handle_syscall h g w s t else Inr (w, s)) = Inr (w', s1)" and
    2: "exec_insn inst (s1\<lparr>last_pc := pc s1\<rparr>) = Inr s2" and s': "s' = s2\<lparr>icnt := icnt s2 + 1\<rparr>"
    by (auto simp: execRiscv_def bind_r_eq_Inr_iff)
  have s1: "gpr s1 = gpr s \<and> pc s1 = pc s \<and> icnt s1 = icnt s \<and> maxicnt s1 = maxicnt s"
  proof (cases "t = 0")
    case True
    with 1 show ?thesis by simp
  next
    case False
    with 1 have "s1 = s\<lparr>mem := mem s1, brk := brk s1\<rparr>"
      using handle_syscall_frame [of s t w h g] by simp
    then show ?thesis by (metis state_t.select_convs state_t.surjective state_t.update_convs)
  qed
  note x = exec_insn_x0 [THEN ok_rD, OF 2] and c = exec_insn_counters [THEN ok_rD, OF 2]
    and e = exec_insn_pc_even [THEN ok_rD, OF _ 2]
  show "gpr s' 0 = gpr s 0" "last_pc s' = pc s" "icnt s' = icnt s + 1" "maxicnt s' = maxicnt s"
    using s1 x c s' by simp_all
  show "even (pc s')" if "even (pc s)" using s1 e s' that by simp
qed

text \<open>
  C13. From a state whose register 0 is zero and whose \<open>pc\<close> is even, every state any
  sequence of steps reaches has register 0 zero and an even \<open>pc\<close>, whatever the guest's
  code, its requests and the host do.
\<close>

theorem reachable_x0_pc_even:
  assumes "reachable h g (w, s) (w', s')" and "gpr s 0 = 0" and "even (pc s)"
  shows "gpr s' 0 = 0 \<and> even (pc s')"
proof -
  have "gpr (snd c') 0 = 0 \<and> even (pc (snd c'))" if "reachable h g (w, s) c'" for c'
    using that
  proof (induction rule: reachable.induct)
    case start
    then show ?case using assms by simp
  next
    case (next_step c' c'')
    then show ?case
      using execRiscv_frame [of "snd c'" h g "fst c'"] by (cases c'; cases c'') auto
  qed
  from this [OF assms(1)] show ?thesis by simp
qed

theorem reachable_x0_pc_even_witness:
  "reachable echo_host example_globals ([], addi_demo)
     ([], addi_demo\<lparr>gpr := (\<lambda>_. 0)(1 := 5), pc := 4, last_pc := 0, icnt := 1\<rparr>) \<and>
   ((\<lambda>_. 0)(1 := 5)) (0 :: u5) = (0 :: u32) \<and> even (4 :: u32)"
proof -
  have r: "reachable echo_host example_globals ([], addi_demo)
     ([], addi_demo\<lparr>gpr := (\<lambda>_. 0)(1 := 5), pc := 4, last_pc := 0, icnt := 1\<rparr>)"
    using addi_demo_step by (auto intro: start next_step)
  with reachable_x0_pc_even [OF r] show ?thesis by (simp add: addi_demo_fields)
qed

text \<open>
  A run of \<open>n\<close> steps that succeeds adds exactly \<open>n\<close> to the instruction count (modulo
  \<open>2 ^ 64\<close>) and leaves \<open>maxicnt\<close> alone.
\<close>

theorem run_counts_instructions:
  "ok_r (\<lambda>(w', s'). icnt s' = icnt s + of_nat n \<and> maxicnt s' = maxicnt s) (run h g n (w, s))"
proof (induction n arbitrary: w s)
  case 0
  then show ?case by simp
next
  case (Suc n)
  have "ok_r (\<lambda>(w', s'). icnt s' = icnt s + of_nat (Suc n) \<and> maxicnt s' = maxicnt s) (run h g n c)"
    if "case c of (w', s') \<Rightarrow> icnt s' = icnt s + 1 \<and> maxicnt s' = maxicnt s" for c
    using that Suc.IH [of "snd c" "fst c"]
    by (cases c) (auto elim!: ok_r_mono simp: algebra_simps)
  then show ?case
    using execRiscv_frame [of s h g w] by (auto elim!: ok_r_mono)
qed

section \<open>Steps and the specification\<close>

text \<open>
  C2. Fetch, decode, execute. When the word at \<open>pc\<close> encodes an RV32IM instruction, no host
  request is pending and the interpreter follows the manual there, one step of the simulator
  is the specified instruction with \<open>last_pc\<close> and \<open>icnt\<close> updated; the host is not called.
\<close>

theorem step_implements_isa:
  assumes "mem_r32 (mem s) (unat (pc s)) = Inr (encode i)" and "tohost_word g s = Inr 0"
    and "follows_manual i s"
  shows "execRiscv h g w s =
    bind_r (isa_exec i s) (\<lambda>s'. Inr (w, s'\<lparr>last_pc := pc s, icnt := icnt s + 1\<rparr>))"
  using execRiscv_quiet [OF assms(1,2)] exec_refines_isa [OF assms(3)] by simp

theorem step_implements_isa_witness:
  "execRiscv echo_host example_globals [] addi_demo =
    bind_r (isa_exec (AluImm ADDI 1 0 5) addi_demo)
      (\<lambda>s'. Inr ([], s'\<lparr>last_pc := 0, icnt := 1\<rparr>))"
  using step_implements_isa [of addi_demo "AluImm ADDI 1 0 5" example_globals echo_host "[]"]
  by (simp add: addi_demo_mem addi_demo_fields del: encode.simps isa_exec.simps)

section \<open>Host requests\<close>

lemma exec_insn_brk: "ok_r (\<lambda>s'. brk s = 1 \<longrightarrow> brk s' = 1) (exec_insn inst s)"
  by (rule exec_insn_ok)
    (auto simp: frame_simps opimm_result_def op_result_def take_branch_def intro!: ok_rI)

text \<open>
  An exit request. When the low word of \<open>tohost\<close> is odd, a step that succeeds sets
  \<open>brk\<close> without calling the host, and it does not stop there: it has executed the
  instruction it had fetched, from the state with \<open>brk\<close> set.
\<close>

theorem exit_request_step:
  assumes "mem_r32 (mem s) (unat (pc s)) = Inr inst" and "tohost_word g s = Inr t"
    and "t AND 1 \<noteq> 0"
  shows "ok_r (\<lambda>(w', s'). w' = w \<and> brk s' = 1 \<and>
      exec_insn inst (s\<lparr>brk := 1, last_pc := pc s\<rparr>) = Inr (s'\<lparr>icnt := icnt s\<rparr>))
    (execRiscv h g w s)"
proof -
  have t: "t \<noteq> 0" using assms(3) by auto
  let ?s = "s\<lparr>brk := 1, last_pc := pc s\<rparr>"
  have "execRiscv h g w s = bind_r (exec_insn inst ?s) (\<lambda>s2. Inr (w, s2\<lparr>icnt := icnt s2 + 1\<rparr>))"
    using assms t by (simp add: execRiscv_def handle_syscall_def)
  then show ?thesis
    using exec_insn_brk [of ?s inst] exec_insn_counters [of ?s inst]
    by (cases "exec_insn inst ?s") auto
qed

text \<open>The same machine with an exit request in \<open>tohost\<close>.\<close>

definition exit_demo :: state_t where
  "exit_demo = addi_demo\<lparr>mem := write_bytes (mem addi_demo) 0x8000 (le_bytes 8 (1 :: u64))\<rparr>"

lemma exit_demo_facts:
  "pc exit_demo = 0" "mem_r32 (mem exit_demo) 0 = Inr (encode (AluImm ADDI 1 0 5))"
  "tohost_word example_globals exit_demo = Inr 1"
  using addi_demo_mem(1)
  by (simp_all add: exit_demo_def addi_demo_fields tohost_word_def example_globals_def
      load_write_disjoint load_write_same in_mem_val del: encode.simps)

theorem exit_request_step_witness:
  "ok_r (\<lambda>(w', s'). w' = [] \<and> brk s' = 1 \<and>
      exec_insn (encode (AluImm ADDI 1 0 5)) (exit_demo\<lparr>brk := 1, last_pc := 0\<rparr>) =
        Inr (s'\<lparr>icnt := icnt exit_demo\<rparr>))
    (execRiscv echo_host example_globals [] exit_demo)"
  using exit_request_step [of exit_demo "encode (AluImm ADDI 1 0 5)" example_globals 1 "[]" echo_host]
  by (simp add: exit_demo_facts del: encode.simps)

text \<open>The eight bytes of the two mailboxes do not overlap.\<close>

definition mailboxes_apart :: "globals \<Rightarrow> bool" where
  "mailboxes_apart g \<longleftrightarrow> unat (tohost_addr g) + 8 \<le> unat (fromhost_addr g) \<or>
     unat (fromhost_addr g) + 8 \<le> unat (tohost_addr g)"

text \<open>
  C21. A request is served once. When a step serves a pending request other than exit, the
  mailboxes do not overlap and the instruction is not a store, then afterwards \<open>tohost\<close>
  holds 0 and \<open>fromhost\<close> 1, so the next step leaves the host alone.
\<close>

theorem request_served_once:
  assumes ex: "execRiscv h g w s = Inr (w1, s1)" and t: "tohost_word g s = Inr t" "t \<noteq> 0" "t AND 1 = 0"
    and inst: "mem_r32 (mem s) (unat (pc s)) = Inr inst" "opcode_of inst \<noteq> 0x23"
    and apart: "mailboxes_apart g"
  shows "tohost_word g s1 = Inr 0 \<and> mem_r64 (mem s1) (unat (fromhost_addr g)) = Inr 1 \<and>
    ok_r (\<lambda>(w2, s2). w2 = w1) (execRiscv h g w1 s1)"
proof -
  from ex t inst obtain sh s2 where h: "handle_syscall h g w s t = Inr (w1, sh)"
    and x: "exec_insn inst (sh\<lparr>last_pc := pc sh\<rparr>) = Inr s2" and s1: "s1 = s2\<lparr>icnt := icnt s2 + 1\<rparr>"
    by (auto simp: execRiscv_def bind_r_eq_Inr_iff)
  have "mem s1 = mem sh" using exec_insn_mem [OF x] inst(2) s1 by simp
  moreover obtain m where "ack g m = Inr (mem sh)" by (rule handle_syscall_ack [OF h t(3)])
  ultimately have 1: "mem_r64 (mem s1) (unat (fromhost_addr g)) = Inr 1" and
    2: "mem_r64 (mem s1) (unat (tohost_addr g)) = Inr 0"
    using ack_mailboxes [of g m "mem sh"] apart by (simp_all add: mailboxes_apart_def)
  then have 3: "tohost_word g s1 = Inr 0" by (simp add: tohost_word_def)
  then have "ok_r (\<lambda>(w2, s2). w2 = w1) (execRiscv h g w1 s1)" by (simp add: execRiscv_def)
  with 1 3 show ?thesis by blast
qed

text \<open>The example machine with a pending \<open>SYS_stat\<close> request whose buffer is at 0x9000.\<close>

definition request_demo :: state_t where
  "request_demo = addi_demo\<lparr>mem := write_bytes (write_bytes (mem addi_demo) 0x8000
     (le_bytes 8 (0x9000 :: u64))) 0x9000 (le_bytes 8 SYS_stat)\<rparr>"

lemma request_demo_facts:
  "pc request_demo = 0" "mem_r32 (mem request_demo) 0 = Inr (encode (AluImm ADDI 1 0 5))"
  "tohost_word example_globals request_demo = Inr 0x9000"
  "buf_get (mem request_demo) 0x9000 0 = Inr SYS_stat"
  using addi_demo_mem(1)
  by (simp_all add: request_demo_def addi_demo_fields tohost_word_def example_globals_def
      buf_get_def load_write_disjoint load_write_same in_mem_val del: encode.simps)

lemma request_demo_step:
  "\<exists>s1. execRiscv echo_host example_globals [] request_demo = Inr ([], s1)"
  by (simp add: execRiscv_def request_demo_facts handle_syscall_def syscall_switch_def sys_numbers
      sys_stat_def buf_set0_def ack_def store_in in_mem_val example_globals_sel exec_alui
      del: encode.simps)

theorem request_served_once_witness:
  "\<exists>s1. execRiscv echo_host example_globals [] request_demo = Inr ([], s1) \<and>
    tohost_word example_globals s1 = Inr 0 \<and> mem_r64 (mem s1) 0x8040 = Inr 1"
proof -
  from request_demo_step obtain s1 where
    s1: "execRiscv echo_host example_globals [] request_demo = Inr ([], s1)" ..
  have "mailboxes_apart example_globals" by (simp add: mailboxes_apart_def example_globals_sel)
  moreover have "opcode_of (encode (AluImm ADDI 1 0 5)) \<noteq> 0x23" by (simp add: word_fields)
  ultimately show ?thesis
    using s1 request_served_once [OF s1 request_demo_facts(3), of "encode (AluImm ADDI 1 0 5)"]
    by (simp add: request_demo_facts example_globals_sel del: encode.simps)
qed

end
