(* ===== verification/Text_Format.thy ===== *)
theory Text_Format
  imports Prelude
begin

text \<open>
  The numbers the programs print: what an output stream produces for an unsigned integer in
  decimal or (after \<open>std::hex\<close>) hexadecimal, \<open>helper.hh: toString, toStringHex\<close>, with a
  reader that inverts it.
\<close>

definition digit :: "nat \<Rightarrow> char" where
  "digit d = ''0123456789abcdef'' ! d"

fun num_string :: "nat \<Rightarrow> nat \<Rightarrow> string" where
  "num_string b n = (if n < b \<or> b < 2 then [digit n] else num_string b (n div b) @ [digit (n mod b)])"

declare num_string.simps [simp del]

definition dec :: "nat \<Rightarrow> string" where "dec n = num_string 10 n"
definition hex :: "nat \<Rightarrow> string" where "hex n = num_string 16 n"

text \<open>\<open>toString\<close> and \<open>toStringHex\<close> for unsigned arguments.\<close>

definition toString :: "'a::len word \<Rightarrow> string" where "toString x = dec (unat x)"
definition toStringHex :: "'a::len word \<Rightarrow> string" where "toStringHex x = hex (unat x)"

text \<open>
  What the macro \<open>die\<close> says before it calls \<open>abort\<close>; the failure itself is \<open>Abort_called\<close>
  wherever the code calls it. \<open>print_var\<close> prints a variable.
\<close>

definition die_text :: "string \<Rightarrow> string \<Rightarrow> nat \<Rightarrow> string" where
  "die_text pretty_function file_name n =
     pretty_function @ '' @ '' @ file_name @ '':'' @ dec n @ '' called die'' @ [CHR 0x0A]"

definition print_var :: "string \<Rightarrow> 'a::len word \<Rightarrow> string" where
  "print_var name x = name @ '' = '' @ toString x @ [CHR 0x0A]"

section \<open>Reading numbers back\<close>

fun digit_index :: "char \<Rightarrow> string \<Rightarrow> nat" where
  "digit_index c [] = 0"
| "digit_index c (x # xs) = (if c = x then 0 else Suc (digit_index c xs))"

definition digit_value :: "char \<Rightarrow> nat" where
  "digit_value c = digit_index c ''0123456789abcdef''"

definition read_num :: "nat \<Rightarrow> string \<Rightarrow> nat" where
  "read_num b s = foldl (\<lambda>n c. n * b + digit_value c) 0 s"

lemma digit_value_digit: "d < 16 \<Longrightarrow> digit_value (digit d) = d"
proof -
  have "list_all (\<lambda>d. digit_value (digit d) = d) [0..<16]" by code_simp
  then show "d < 16 \<Longrightarrow> digit_value (digit d) = d" by (simp add: list_all_iff)
qed

lemma read_num_num_string:
  assumes "2 \<le> b" and "b \<le> 16"
  shows "read_num b (num_string b n) = n"
proof (induction n rule: less_induct)
  case (less n)
  show ?case
  proof (cases "n < b")
    case True
    with assms show ?thesis
      by (subst num_string.simps) (simp add: read_num_def digit_value_digit)
  next
    case False
    have "n div b < n" using False assms by (simp add: div_less_dividend)
    then have "read_num b (num_string b (n div b)) = n div b" by (rule less.IH)
    moreover have "n mod b < b" using assms by simp
    then have "n mod b < 16" using assms(2) by simp
    ultimately show ?thesis using False assms
      by (subst num_string.simps) (simp add: read_num_def digit_value_digit)
  qed
qed

lemma num_string_inject: "2 \<le> b \<Longrightarrow> b \<le> 16 \<Longrightarrow> num_string b n = num_string b k \<longleftrightarrow> n = k"
  by (metis read_num_num_string)

lemma num_string_digits: "2 \<le> b \<Longrightarrow> b \<le> 16 \<Longrightarrow> c \<in> set (num_string b n) \<Longrightarrow> \<exists>d < b. c = digit d"
proof (induction b n rule: num_string.induct)
  case (1 b n)
  show ?case
  proof (cases "n < b")
    case True
    with "1.prems" show ?thesis by (subst (asm) num_string.simps) auto
  next
    case False
    with "1.prems" have "c \<in> set (num_string b (n div b)) \<or> c = digit (n mod b)"
      by (subst (asm) num_string.simps) auto
    then show ?thesis
    proof
      assume "c \<in> set (num_string b (n div b))"
      then show ?thesis using "1.IH" "1.prems" False by simp
    next
      assume "c = digit (n mod b)"
      then show ?thesis using "1.prems" by (intro exI [of _ "n mod b"]) simp
    qed
  qed
qed

lemma digits_printable: "d < 16 \<Longrightarrow> digit d \<in> set ''0123456789abcdef''"
  unfolding digit_def by (rule nth_mem) simp

end
