(* ===== verification/Disassemble.thy ===== *)
theory Disassemble
  imports Text_Format
begin

text \<open>
  \<open>disassemble.cc\<close>: register and condition names and the text of an instruction. The
  disassembler itself is the library Capstone, a parameter: what \<open>cs_disasm\<close> returns for
  the four bytes of a word at an address, as a list of mnemonic and operand pairs.
\<close>

unbundle bit_operations_syntax

type_synonym capstone = "u32 \<Rightarrow> u32 \<Rightarrow> (string \<times> string) list"

definition regNames :: "string list" where
  "regNames = [''zero'', ''ra'', ''sp'', ''gp'', ''tp'', ''t0'', ''t1'', ''t2'',
     ''s0'', ''s1'', ''a0'', ''a1'', ''a2'', ''a3'', ''a4'', ''a5'',
     ''a6'', ''a7'', ''s2'', ''s3'', ''s4'', ''s5'', ''s6'', ''s7'',
     ''s8'', ''s9'', ''s10'', ''s11'', ''t3'', ''t4'', ''t5'', ''t6'']"

definition condNames :: "string list" where
  "condNames = [''f'', ''un'', ''eq'', ''ueq'', ''olt'', ''ult'', ''ole'', ''ule'',
     ''sf'', ''ngle'', ''seq'', ''ngl'', ''lt'', ''nge'', ''le'', ''ngt'']"

definition getCondName :: "u32 \<Rightarrow> string" where
  "getCondName c = condNames ! unat (c AND 15)"

definition getGPRName :: "u32 \<Rightarrow> string" where
  "getGPRName r = regNames ! unat (r AND 31)"

definition getAsmString :: "capstone \<Rightarrow> u32 \<Rightarrow> u32 \<Rightarrow> string" where
  "getAsmString cs inst addr = (case cs inst addr of
     [(mnemonic, op_str)] \<Rightarrow> mnemonic @ '' '' @ op_str
   | _ \<Rightarrow> ''huh?'')"

text \<open>\<open>disassemble\<close> appends to a stream, here the text written so far.\<close>

definition disassemble :: "capstone \<Rightarrow> string \<Rightarrow> u32 \<Rightarrow> u32 \<Rightarrow> string" where
  "disassemble cs out inst addr = out @ getAsmString cs inst addr"

text \<open>
  The errors of Capstone that \<open>cs_error_map\<close> names, and any other value. \<open>initCapstone\<close> gets
  the result of \<open>cs_open\<close>; its second component is what it says on the error stream. For a
  value without a name \<open>at\<close> throws.
\<close>

datatype cs_err = CS_ERR_OK | CS_ERR_MEM | CS_ERR_ARCH | CS_ERR_HANDLE | CS_ERR_CSH | CS_ERR_MODE
  | CS_ERR_DETAIL | CS_ERR_MEMSETUP | CS_ERR_VERSION | CS_ERR_DIET | CS_ERR_SKIPDATA
  | CS_ERR_X86_ATT | CS_ERR_X86_INTEL | CS_ERR_other int

definition cs_error_map :: "cs_err \<rightharpoonup> string" where
  "cs_error_map = [CS_ERR_OK \<mapsto> ''CS_ERR_OK'', CS_ERR_MEM \<mapsto> ''CS_ERR_MEM'',
     CS_ERR_ARCH \<mapsto> ''CS_ERR_ARCH'', CS_ERR_HANDLE \<mapsto> ''CS_ERR_HANDLE'',
     CS_ERR_CSH \<mapsto> ''CS_ERR_CSH'', CS_ERR_MODE \<mapsto> ''CS_ERR_MODE'',
     CS_ERR_DETAIL \<mapsto> ''CS_ERR_DETAIL'', CS_ERR_MEMSETUP \<mapsto> ''CS_ERR_MEMSETUP'',
     CS_ERR_VERSION \<mapsto> ''CS_ERR_VERSION'', CS_ERR_DIET \<mapsto> ''CS_ERR_DIET'',
     CS_ERR_SKIPDATA \<mapsto> ''CS_ERR_SKIPDATA'', CS_ERR_X86_ATT \<mapsto> ''CS_ERR_X86_ATT'',
     CS_ERR_X86_INTEL \<mapsto> ''CS_ERR_X86_INTEL'']"

definition initCapstone :: "cs_err \<Rightarrow> (failure + unit) \<times> string" where
  "initCapstone C =
    (if C \<noteq> CS_ERR_OK
     then case cs_error_map C of
         None \<Rightarrow> (Inl Key_not_found, '''')
       | Some e \<Rightarrow> (Inl (Exit_called (- 1)), ''capstone error : '' @ e @ [CHR 0x0A])
     else (Inr (), ''''))"

lemma initCapstone_outcome:
  "fst (initCapstone C) = (if C = CS_ERR_OK then Inr ()
     else Inl (case C of CS_ERR_other _ \<Rightarrow> Key_not_found | _ \<Rightarrow> Exit_called (- 1)))"
  by (cases C) (simp_all add: initCapstone_def cs_error_map_def)

lemma length_regNames: "length regNames = 32"
  by (simp add: regNames_def)

lemma distinct_regNames: "distinct regNames"
  by code_simp

lemma low5: "unat (r AND 31 :: u32) = unat r mod 32"
proof -
  have "r AND 31 = take_bit 5 r" by (simp add: take_bit_eq_mask mask_eq_exp_minus_1)
  then have "unat (r AND 31) = take_bit 5 (unat r)" by (simp only: unsigned_take_bit_eq)
  then show ?thesis by (simp only: take_bit_eq_mod) simp
qed

text \<open>
  Register names: every register number has a name, whatever its upper bits, and two
  numbers have the same name exactly when they denote the same register.
\<close>

theorem getGPRName_inject:
  "getGPRName a = getGPRName b \<longleftrightarrow> unat a mod 32 = unat b mod 32"
  using nth_eq_iff_index_eq [OF distinct_regNames, of "unat a mod 32" "unat b mod 32"]
  by (simp add: getGPRName_def low5 length_regNames)

end
