(* ===== verification/Histogram.thy ===== *)
theory Histogram
  imports Prelude "HOL-Library.Product_Lexorder" "HOL-Library.Multiset"
begin

text \<open>
  The ordered maps the testbench counts events in (\<open>std::map<K, uint64_t>\<close>), as association
  lists in increasing key order; the median of \<open>top.hh: histo_mean_median\<close> (its
  mean is in the theory of run-time texts) and the order in which \<open>dump_histo\<close> prints. The
  locale \<open>counters\<close> is the contract of a counting map, with the fact its clients need:
  after a sequence of events each counter has grown by the number of its events.
\<close>

type_synonym 'k histo = "('k \<times> u64) list"

fun bump_by :: "'k::linorder \<Rightarrow> u64 \<Rightarrow> 'k histo \<Rightarrow> 'k histo" where
  "bump_by k d [] = [(k, d)]"
| "bump_by k d ((k', n) # h) =
    (if k < k' then (k, d) # (k', n) # h
     else if k = k' then (k', n + d) # h
     else (k', n) # bump_by k d h)"

abbreviation bump :: "'k::linorder \<Rightarrow> 'k histo \<Rightarrow> 'k histo" where
  "bump k \<equiv> bump_by k 1"

definition count_of :: "'k histo \<Rightarrow> 'k \<Rightarrow> u64" where
  "count_of h k = (case map_of h k of None \<Rightarrow> 0 | Some n \<Rightarrow> n)"

definition ordered :: "'k::linorder histo \<Rightarrow> bool" where
  "ordered h \<longleftrightarrow> sorted_wrt (<) (map fst h)"

lemma bump_by_keys: "set (map fst (bump_by k d h)) = insert k (set (map fst h))"
  by (induction k d h rule: bump_by.induct) auto

lemma ordered_bump_by: "ordered h \<Longrightarrow> ordered (bump_by k d h)"
  unfolding ordered_def
proof (induction k d h rule: bump_by.induct)
  case (1 k d)
  then show ?case by simp
next
  case (2 k d k' n h)
  have "set (map fst (bump_by k d h)) = insert k (set (map fst h))" by (rule bump_by_keys)
  with 2 show ?case by (auto simp: image_iff)
qed

lemma count_of_Nil [simp]: "count_of [] k = 0"
  by (simp add: count_of_def)

lemma count_of_Cons: "count_of ((k', n) # h) k = (if k = k' then n else count_of h k)"
  by (simp add: count_of_def)

lemma count_of_absent: "k \<notin> set (map fst h) \<Longrightarrow> count_of h k = 0"
  by (induction h) (auto simp: count_of_Cons)

lemma count_of_bump_by:
  "ordered h \<Longrightarrow> count_of (bump_by k d h) k' = count_of h k' + (if k = k' then d else 0)"
proof (induction k d h rule: bump_by.induct)
  case (1 k d)
  then show ?case by (simp add: count_of_Cons)
next
  case (2 k d x n h)
  have "k < x \<Longrightarrow> count_of h k = 0"
    using "2.prems" by (intro count_of_absent) (auto simp: ordered_def)
  moreover have "ordered h" using "2.prems" by (simp add: ordered_def)
  ultimately show ?case using 2(1) by (auto simp: count_of_Cons)
qed

section \<open>Counting maps\<close>

locale counters =
  fixes inv :: "'m \<Rightarrow> bool"
    and look :: "'m \<Rightarrow> 'k \<Rightarrow> u64"
    and inc :: "'k \<Rightarrow> u64 \<Rightarrow> 'm \<Rightarrow> 'm"
  assumes inv_inc: "inv m \<Longrightarrow> inv (inc k d m)"
    and look_inc: "inv m \<Longrightarrow> look (inc k d m) k' = look m k' + (if k = k' then d else 0)"
begin

lemma inv_fold: "inv m \<Longrightarrow> inv (fold (\<lambda>k. inc k 1) ks m)"
  by (induction ks arbitrary: m) (simp_all add: inv_inc)

lemma look_fold:
  "inv m \<Longrightarrow> look (fold (\<lambda>k. inc k 1) ks m) k = look m k + of_nat (length (filter ((=) k) ks))"
  by (induction ks arbitrary: m) (auto simp: inv_inc look_inc)

lemma look_swap:
  "inv m \<Longrightarrow> look (inc k d (inc k' d' m)) x = look (inc k' d' (inc k d m)) x"
  by (simp add: inv_inc look_inc)

end

interpretation hist: counters ordered count_of bump_by
  by unfold_locales (simp_all add: ordered_bump_by count_of_bump_by)

section \<open>Median\<close>

definition total :: "'k histo \<Rightarrow> u64" where
  "total h = foldl (\<lambda>c p. c + snd p) 0 h"

fun median_from :: "u64 \<Rightarrow> u64 \<Rightarrow> 'k histo \<Rightarrow> 'k \<Rightarrow> 'k" where
  "median_from half x [] m = m"
| "median_from half x ((k, n) # h) m =
    (let x' = x + n in if half \<le> x' then k else median_from half x' h m)"

definition histo_median :: "int histo \<Rightarrow> int \<Rightarrow> int" where
  "histo_median h m = (if h = [] then 0 else median_from (total h div 2) 0 h m)"

section \<open>The order of dump_histo\<close>

text \<open>
  \<open>dump_histo<X, Y>\<close> collects pairs of type \<open>pair<X, Y>\<close> built from (count, key): with
  32-bit keys (\<open>mispredicts\<close>, \<open>busy_loads\<close>) the count is cut to 32 bits. The pairs are
  printed in decreasing order.
\<close>

definition dump_order_32 :: "u32 histo \<Rightarrow> (u32 \<times> u64) list" where
  "dump_order_32 h = rev (sort (map (\<lambda>(k, n). (ucast n :: u32, ucast k :: u64)) h))"

definition dump_order_64 :: "u64 histo \<Rightarrow> (u64 \<times> u64) list" where
  "dump_order_64 h = rev (sort (map (\<lambda>(k, n). (n, k)) h))"

section \<open>What the median is\<close>

definition weight :: "'k histo \<Rightarrow> nat" where
  "weight h = sum_list (map (unat \<circ> snd) h)"

definition upto_key :: "'k::linorder histo \<Rightarrow> 'k \<Rightarrow> nat" where
  "upto_key h k = weight (filter (\<lambda>p. fst p \<le> k) h)"

lemma weight_simps [simp]:
  "weight [] = 0" "weight (p # h) = unat (snd p) + weight h" "weight (h @ h') = weight h + weight h'"
  by (simp_all add: weight_def)

lemma total_weight: "weight h < 2 ^ 64 \<Longrightarrow> unat (total h) = weight h"
proof -
  have "unat c + weight h < 2 ^ 64 \<Longrightarrow> unat (foldl (\<lambda>c p. c + snd p) c h) = unat c + weight h" for c
  proof (induction h arbitrary: c)
    case (Cons p h)
    then have "unat (c + snd p) = unat c + unat (snd p)"
      by (subst unat_add_lem [THEN iffD1]) simp_all
    with Cons show ?case by simp
  qed simp
  from this [of 0] show "weight h < 2 ^ 64 \<Longrightarrow> unat (total h) = weight h" by (simp add: total_def)
qed

lemma upto_key_split:
  assumes "ordered (ps @ (k, n) # h)"
  shows "upto_key (ps @ (k, n) # h) k = weight ps + unat n"
proof -
  have "\<forall>p \<in> set ps. fst p < k" "\<forall>p \<in> set h. k < fst p"
    using assms by (auto simp: ordered_def sorted_wrt_append)
  then have "filter (\<lambda>p. fst p \<le> k) ps = ps" "filter (\<lambda>p. fst p \<le> k) h = []"
    by (auto simp: filter_id_conv filter_empty_conv)
  then show ?thesis by (simp add: upto_key_def)
qed

lemma median_from_spec:
  assumes "ordered (ps @ h)" and "h \<noteq> []" and "unat x = weight ps"
    and "weight ps + weight h < 2 ^ 64" and "unat half \<le> weight ps + weight h"
  shows "median_from half x h m \<in> fst ` set h \<and> unat half \<le> upto_key (ps @ h) (median_from half x h m) \<and>
    (\<forall>k' \<in> fst ` set h. k' < median_from half x h m \<longrightarrow> upto_key (ps @ h) k' < unat half)"
  using assms
proof (induction half x h m arbitrary: ps rule: median_from.induct)
  case (1 half x m)
  then show ?case by simp
next
  case (2 half x k n h m)
  have x': "unat (x + n) = weight ps + unat n"
    using "2.prems"(3,4) by (subst unat_add_lem [THEN iffD1]) simp_all
  have up: "upto_key (ps @ (k, n) # h) k = weight ps + unat n"
    by (rule upto_key_split [OF "2.prems"(1)])
  show ?case
  proof (cases "half \<le> x + n")
    case True
    have "\<forall>k' \<in> fst ` set ((k, n) # h). \<not> k' < k"
      using "2.prems"(1) by (auto simp: ordered_def sorted_wrt_append)
    with True up x' show ?thesis by (auto simp: Let_def word_le_nat_alt)
  next
    case False
    then have lt: "weight ps + unat n < unat half" using x' by (simp add: word_le_nat_alt)
    with "2.prems"(5) have "h \<noteq> []" by auto
    with "2.IH" [OF refl False, of "ps @ [(k, n)]"] "2.prems" x' False up lt show ?thesis
      by (auto simp: Let_def)
  qed
qed

text \<open>
  The median of a non-empty histogram whose counts sum up without overflow is the least
  value at which the number of samples up to it reaches half of the total, rounded down.
\<close>

theorem histo_median_is_lower_half:
  assumes "ordered h" and "h \<noteq> []" and "weight h < 2 ^ 64"
  shows "histo_median h m \<in> fst ` set h \<and> weight h div 2 \<le> upto_key h (histo_median h m) \<and>
    (\<forall>k' \<in> fst ` set h. k' < histo_median h m \<longrightarrow> upto_key h k' < weight h div 2)"
proof -
  have "unat (total h div 2) = weight h div 2"
    using total_weight [OF assms(3)] by (simp add: unat_div)
  with median_from_spec [of "[]" h 0 "total h div 2" m] assms show ?thesis
    by (simp add: histo_median_def)
qed

text \<open>With an odd total the rounding misses the middle sample: of 0, 10, 10 it reports 0.\<close>

theorem histo_median_is_lower_half_witness:
  "histo_median [(0, 1), (10, 2)] 7 = 0 \<and> upto_key [(0, 1), (10, 2)] (0 :: int) = 1"
proof -
  have w: "weight [(0 :: int, 1), (10, 2)] = 3" by simp
  have u: "upto_key [(0, 1), (10, 2)] (0 :: int) = 1" by (simp add: upto_key_def)
  have "ordered [(0 :: int, 1), (10, 2)]" by (simp add: ordered_def)
  from histo_median_is_lower_half [OF this, of 7] w u
  have "histo_median [(0, 1), (10, 2)] 7 \<in> {0, 10}" and "\<not> 0 < histo_median [(0, 1), (10, 2)] 7"
    by auto
  with u show ?thesis by auto
qed

text \<open>
  \<open>dump_histo\<close> lists every counter of a histogram with 32-bit keys once, in decreasing
  order of the printed count, and the count it prints is the low 32 bits of the counter.
\<close>

theorem dump_order_counts:
  "mset (dump_order_32 h) = image_mset (\<lambda>(k, n). (ucast n, ucast k)) (mset h) \<and>
   sorted_wrt (\<ge>) (map fst (dump_order_32 h))"
proof
  let ?f = "\<lambda>(k :: u32, n :: u64). (ucast n :: u32, ucast k :: u64)"
  show "mset (dump_order_32 h) = image_mset (\<lambda>(k, n). (ucast n, ucast k)) (mset h)"
    by (simp add: dump_order_32_def)
  have "sorted (map fst (sort (map ?f h)))"
    by (rule sorted_map_mono) (auto simp: mono_on_def less_eq_prod_def)
  then show "sorted_wrt (\<ge>) (map fst (dump_order_32 h))"
    by (simp add: dump_order_32_def rev_map [symmetric] sorted_wrt_rev)
qed

end
