(* ===== verification/Perf_Counters.thy ===== *)
theory Perf_Counters
  imports Histogram
begin

text \<open>
  The counting functions of \<open>top.cc\<close> that the Verilog core calls every cycle (DPI):
  \<open>record_branches\<close>, \<open>record_faults\<close>, \<open>record_restart\<close>, \<open>record_ds_restart\<close>,
  \<open>record_miss\<close>, \<open>record_l1d\<close>, \<open>report_exec\<close>, \<open>record_alloc\<close> and \<open>record_fetch\<close>. The
  static variables they update are one record. An \<open>int\<close> argument is a 32-bit word; added to
  a 64-bit counter it is sign-extended.
\<close>

unbundle bit_operations_syntax

record perf =
  cycle :: u64
  pending_fault :: bool
  fault_start_cycle :: u64
  branch_distribution :: "int histo"
  fault_distribution :: "int histo"
  restart_distribution :: "int histo"
  restart_ds_distribution :: "int histo"
  fault_to_restart_distribution :: "int histo"
  busy_loads :: "u32 histo"
  missed_loads :: "u32 histo"
  l1d_reqs :: u64
  l1d_acks :: u64
  l1d_stores :: u64
  block_distribution :: "int histo"
  l1d_stall_reasons :: "u64 list"
  n_int_exec :: "u64 list"
  n_int2_exec :: "u64 list"
  n_mem_exec :: "u64 list"
  q_full :: "u64 list"
  int_sched_rdy_map :: "int histo"
  rob_full :: u64
  dq_empty :: u64
  uq_full :: u64
  n_active :: u64
  n_alloc :: "u64 list"
  n_uq_full :: "u64 list"
  n_rdy :: "u64 list"
  fetch_slots :: u64
  n_resteer_bubble :: u64
  n_fq_full :: u64
  n_fetch :: "u64 list"

definition perf_init :: perf where
  "perf_init = \<lparr>cycle = 0, pending_fault = False, fault_start_cycle = 0,
     branch_distribution = [], fault_distribution = [], restart_distribution = [],
     restart_ds_distribution = [], fault_to_restart_distribution = [], busy_loads = [],
     missed_loads = [], l1d_reqs = 0, l1d_acks = 0, l1d_stores = 0, block_distribution = [],
     l1d_stall_reasons = [0, 0, 0, 0, 0, 0, 0, 0], n_int_exec = [0, 0], n_int2_exec = [0, 0],
     n_mem_exec = [0, 0, 0], q_full = [0, 0, 0], int_sched_rdy_map = [], rob_full = 0,
     dq_empty = 0, uq_full = 0, n_active = 0, n_alloc = [0, 0, 0], n_uq_full = [0, 0, 0],
     n_rdy = [0, 0, 0], fetch_slots = 0, n_resteer_bubble = 0, n_fq_full = 0,
     n_fetch = [0, 0, 0, 0, 0]\<rparr>"

text \<open>Adding to an element of a counter array; the constant indices of the code are in range.\<close>

definition add_at :: "nat \<Rightarrow> u64 \<Rightarrow> u64 list \<Rightarrow> u64 list" where
  "add_at i d a = a[i := a ! i + d]"

definition popcount32 :: "u32 \<Rightarrow> nat" where
  "popcount32 x = length (filter (bit x) [0..<32])"

section \<open>The functions\<close>

definition record_branches :: "u32 \<Rightarrow> perf \<Rightarrow> perf" where
  "record_branches n p = p\<lparr>branch_distribution := bump (sint n) (branch_distribution p)\<rparr>"

definition record_faults :: "u32 \<Rightarrow> perf \<Rightarrow> perf" where
  "record_faults n p =
    (let p1 = p\<lparr>fault_distribution := bump (sint n) (fault_distribution p)\<rparr> in
     if n \<noteq> 0 \<and> \<not> pending_fault p1 then p1\<lparr>pending_fault := True, fault_start_cycle := cycle p1\<rparr>
     else p1)"

text \<open>The key of \<open>fault_to_restart_distribution\<close> is an \<open>int\<close>: the low 32 bits, signed.\<close>

definition record_restart :: "u32 \<Rightarrow> perf \<Rightarrow> perf" where
  "record_restart cycles p =
     p\<lparr>restart_distribution := bump (sint cycles) (restart_distribution p),
       pending_fault := False,
       fault_to_restart_distribution :=
         bump (sint (ucast (cycle p - fault_start_cycle p) :: u32)) (fault_to_restart_distribution p),
       fault_start_cycle := 0\<rparr>"

definition record_ds_restart :: "u32 \<Rightarrow> perf \<Rightarrow> perf" where
  "record_ds_restart cycles p = p\<lparr>restart_ds_distribution := bump (sint cycles) (restart_ds_distribution p)\<rparr>"

definition record_miss :: "u32 \<Rightarrow> u32 \<Rightarrow> u32 \<Rightarrow> perf \<Rightarrow> perf" where
  "record_miss pc hit busy p =
    (if hit \<noteq> 0 \<and> busy \<noteq> 0 then p\<lparr>busy_loads := bump pc (busy_loads p)\<rparr>
     else if hit = 0 then p\<lparr>missed_loads := bump pc (missed_loads p)\<rparr>
     else p)"

definition record_l1d :: "u32 \<Rightarrow> u32 \<Rightarrow> u32 \<Rightarrow> u32 \<Rightarrow> u32 \<Rightarrow> perf \<Rightarrow> failure + perf" where
  "record_l1d req ack ack_st blocked stall_reason p =
    (let p1 = p\<lparr>l1d_reqs := l1d_reqs p + scast req, l1d_acks := l1d_acks p + scast ack,
         l1d_stores := l1d_stores p + scast ack_st,
         block_distribution := bump (int (popcount32 blocked)) (block_distribution p)\<rparr>;
         i = unat (stall_reason AND 15)
     in if i < length (l1d_stall_reasons p1)
        then Inr (p1\<lparr>l1d_stall_reasons := add_at i 1 (l1d_stall_reasons p1)\<rparr>)
        else Inl (Bad_access i))"

definition report_exec ::
    "u32 \<Rightarrow> u32 \<Rightarrow> u32 \<Rightarrow> u32 \<Rightarrow> u32 \<Rightarrow> u32 \<Rightarrow> u32 \<Rightarrow> u32 \<Rightarrow> u32 \<Rightarrow> u32 \<Rightarrow> u32 \<Rightarrow> u32 \<Rightarrow> u32 \<Rightarrow> u32 \<Rightarrow>
     perf \<Rightarrow> perf" where
  "report_exec int_valid int_ready int2_valid int2_ready mem_valid mem_ready fp_valid fp_ready
       intq_full memq_full fpq_full blocked_by_store ready_int ready_int2 p =
     p\<lparr>n_int_exec := add_at 1 (scast int_ready) (add_at 0 (scast int_valid) (n_int_exec p)),
       n_int2_exec := add_at 1 (scast int2_ready) (add_at 0 (scast int2_valid) (n_int2_exec p)),
       n_mem_exec := add_at 2 (scast blocked_by_store)
         (add_at 1 (scast mem_ready) (add_at 0 (scast mem_valid) (n_mem_exec p))),
       q_full := add_at 2 (scast fpq_full)
         (add_at 1 (scast memq_full) (add_at 0 (scast intq_full) (q_full p))),
       int_sched_rdy_map :=
         bump (int (popcount32 ready_int + popcount32 ready_int2)) (int_sched_rdy_map p)\<rparr>"

definition record_alloc ::
    "u32 \<Rightarrow> u32 \<Rightarrow> u32 \<Rightarrow> u32 \<Rightarrow> u32 \<Rightarrow> u32 \<Rightarrow> u32 \<Rightarrow> u32 \<Rightarrow> u32 \<Rightarrow> perf \<Rightarrow> perf" where
  "record_alloc rf a1 a2 de f1 f2 r1 r2 active p =
    (let p1 = p\<lparr>rob_full := rob_full p + scast rf, dq_empty := dq_empty p + scast de,
         uq_full := uq_full p + scast f1, n_active := n_active p + scast active\<rparr>;
         p2 = p1\<lparr>n_alloc := add_at (if a2 \<noteq> 0 then 2 else if a1 \<noteq> 0 then 1 else 0) 1 (n_alloc p1)\<rparr>;
         p3 = p2\<lparr>n_uq_full := add_at (if f2 \<noteq> 0 then 2 else if f1 \<noteq> 0 then 1 else 0) 1 (n_uq_full p2)\<rparr>
     in if r2 \<noteq> 0 then p3\<lparr>n_rdy := add_at 2 1 (n_rdy p3), fetch_slots := fetch_slots p3 + 2\<rparr>
        else if r1 \<noteq> 0 then p3\<lparr>n_rdy := add_at 1 1 (n_rdy p3), fetch_slots := fetch_slots p3 + 1\<rparr>
        else p3\<lparr>n_rdy := add_at 0 1 (n_rdy p3)\<rparr>)"

text \<open>The program counters of \<open>record_fetch\<close> are used only by code under \<open>#if 0\<close>.\<close>

definition record_fetch :: "u32 \<Rightarrow> u32 \<Rightarrow> u32 \<Rightarrow> u32 \<Rightarrow> u32 \<Rightarrow> u32 \<Rightarrow> perf \<Rightarrow> perf" where
  "record_fetch p1 p2 p3 p4 bubble fq_full p =
     p\<lparr>n_resteer_bubble := n_resteer_bubble p + scast bubble, n_fq_full := n_fq_full p + scast fq_full,
       n_fetch := add_at (if p1 \<noteq> 0 then 1 else if p2 \<noteq> 0 then 2 else if p3 \<noteq> 0 then 3
         else if p4 \<noteq> 0 then 4 else 0) 1 (n_fetch p)\<rparr>"

section \<open>Well-formed counters\<close>

definition perf_wf :: "perf \<Rightarrow> bool" where
  "perf_wf p \<longleftrightarrow> length (l1d_stall_reasons p) = 8 \<and> length (n_int_exec p) = 2 \<and>
     length (n_int2_exec p) = 2 \<and> length (n_mem_exec p) = 3 \<and> length (q_full p) = 3 \<and>
     length (n_alloc p) = 3 \<and> length (n_uq_full p) = 3 \<and> length (n_rdy p) = 3 \<and>
     length (n_fetch p) = 5 \<and>
     ordered (branch_distribution p) \<and> ordered (fault_distribution p) \<and>
     ordered (restart_distribution p) \<and> ordered (restart_ds_distribution p) \<and>
     ordered (fault_to_restart_distribution p) \<and> ordered (busy_loads p) \<and>
     ordered (missed_loads p) \<and> ordered (block_distribution p) \<and> ordered (int_sched_rdy_map p)"

lemma length_add_at [simp]: "length (add_at i d a) = length a"
  by (simp add: add_at_def)

lemma nth_add_at: "j < length a \<Longrightarrow> add_at i d a ! j = (if i = j then a ! j + d else a ! j)"
  by (auto simp: add_at_def nth_list_update)

lemmas perf_defs = record_branches_def record_faults_def record_restart_def record_ds_restart_def
  record_miss_def record_l1d_def report_exec_def record_alloc_def record_fetch_def

lemma perf_wf_step:
  assumes "perf_wf p"
  shows "perf_wf (record_branches n p)" "perf_wf (record_faults n p)" "perf_wf (record_restart n p)"
    "perf_wf (record_ds_restart n p)" "perf_wf (record_miss a b c p)"
    "perf_wf (report_exec x1 x2 x3 x4 x5 x6 x7 x8 x9 x10 x11 x12 x13 x14 p)"
    "perf_wf (record_alloc y1 y2 y3 y4 y5 y6 y7 y8 y9 p)" "perf_wf (record_fetch z1 z2 z3 z4 z5 z6 p)"
    "ok_r perf_wf (record_l1d u1 u2 u3 u4 u5 p)"
  using assms by (simp_all add: perf_wf_def perf_defs Let_def hist.inv_inc)

lemma perf_init_wf: "perf_wf perf_init"
  by (simp add: perf_wf_def perf_init_def ordered_def)

section \<open>Sequences of calls\<close>

text \<open>
  The calls the core makes, with the clock of the harness between them: \<open>Tick\<close> is the
  \<open>++cycle\<close> of the main loop.
\<close>

datatype perf_call =
    Tick
  | Branches u32
  | Faults u32
  | Restart u32
  | Ds_restart u32
  | Miss u32 u32 u32
  | L1d u32 u32 u32 u32 u32
  | Report_exec u32 u32 u32 u32 u32 u32 u32 u32 u32 u32 u32 u32 u32 u32
  | Alloc u32 u32 u32 u32 u32 u32 u32 u32 u32
  | Fetch u32 u32 u32 u32 u32 u32

fun do_call :: "perf_call \<Rightarrow> perf \<Rightarrow> failure + perf" where
  "do_call Tick p = Inr (p\<lparr>cycle := cycle p + 1\<rparr>)"
| "do_call (Branches n) p = Inr (record_branches n p)"
| "do_call (Faults n) p = Inr (record_faults n p)"
| "do_call (Restart n) p = Inr (record_restart n p)"
| "do_call (Ds_restart n) p = Inr (record_ds_restart n p)"
| "do_call (Miss pc hit busy) p = Inr (record_miss pc hit busy p)"
| "do_call (L1d req ack ack_st blocked reason) p = record_l1d req ack ack_st blocked reason p"
| "do_call (Report_exec iv ir i2v i2r mv mr fv fr iq mq fq bs ri ri2) p =
     Inr (report_exec iv ir i2v i2r mv mr fv fr iq mq fq bs ri ri2 p)"
| "do_call (Alloc rf a1 a2 de f1 f2 r1 r2 active) p = Inr (record_alloc rf a1 a2 de f1 f2 r1 r2 active p)"
| "do_call (Fetch p1 p2 p3 p4 bubble full) p = Inr (record_fetch p1 p2 p3 p4 bubble full p)"

fun do_calls :: "perf_call list \<Rightarrow> perf \<Rightarrow> failure + perf" where
  "do_calls [] p = Inr p"
| "do_calls (c # cs) p = bind_r (do_call c p) (do_calls cs)"

fun is_alloc :: "perf_call \<Rightarrow> bool" where
  "is_alloc (Alloc rf a1 a2 de f1 f2 r1 r2 active) = True"
| "is_alloc c = False"

fun is_fetch :: "perf_call \<Rightarrow> bool" where
  "is_fetch (Fetch p1 p2 p3 p4 bubble full) = True"
| "is_fetch c = False"

fun is_restart :: "perf_call \<Rightarrow> bool" where
  "is_restart (Restart n) = True"
| "is_restart c = False"

text \<open>The stall codes of \<open>l1d_stall_str\<close> are 0 to 7; the index of the counter has four bits.\<close>

fun bad_stall :: "perf_call \<Rightarrow> bool" where
  "bad_stall (L1d req ack ack_st blocked reason) \<longleftrightarrow> 8 \<le> unat (reason AND 15)"
| "bad_stall c \<longleftrightarrow> False"

lemma do_call_wf: "perf_wf p \<Longrightarrow> ok_r perf_wf (do_call c p)"
  by (cases c) (auto simp: perf_wf_step, auto simp: perf_wf_def)

lemma do_call_fails_iff: "perf_wf p \<Longrightarrow> (\<exists>e. do_call c p = Inl e) \<longleftrightarrow> bad_stall c"
  by (cases c) (auto simp: record_l1d_def Let_def perf_wf_def)

lemma sum_list_add_at: "i < length a \<Longrightarrow> sum_list (add_at i d a) = sum_list a + d"
  by (induction a arbitrary: i) (auto simp: add_at_def less_Suc_eq_0_disj)

text \<open>What one call does to the totals.\<close>

definition calls_of :: "(perf_call \<Rightarrow> bool) \<Rightarrow> perf_call list \<Rightarrow> u64" where
  "calls_of P cs = of_nat (length (filter P cs))"

lemma calls_of_simps [simp]:
  "calls_of P [] = 0" "calls_of P (c # cs) = (if P c then 1 else 0) + calls_of P cs"
  by (simp_all add: calls_of_def)

lemma do_call_totals:
  assumes "perf_wf p"
  shows "ok_r (\<lambda>p'. sum_list (n_fetch p') = sum_list (n_fetch p) + calls_of is_fetch [c] \<and>
     sum_list (n_alloc p') = sum_list (n_alloc p) + calls_of is_alloc [c] \<and>
     sum_list (n_uq_full p') = sum_list (n_uq_full p) + calls_of is_alloc [c] \<and>
     sum_list (n_rdy p') = sum_list (n_rdy p) + calls_of is_alloc [c] \<and>
     (fetch_slots p = n_rdy p ! 1 + 2 * n_rdy p ! 2 \<longrightarrow>
       fetch_slots p' = n_rdy p' ! 1 + 2 * n_rdy p' ! 2)) (do_call c p)"
  using assms
  by (cases c) (auto simp: perf_wf_def perf_defs Let_def sum_list_add_at nth_add_at)

lemma do_calls_append: "do_calls (cs @ ds) p = bind_r (do_calls cs p) (do_calls ds)"
  by (induction cs arbitrary: p) (simp_all add: bind_r_assoc cong: bind_r_cong)

lemma do_calls_wf: "perf_wf p \<Longrightarrow> ok_r perf_wf (do_calls cs p)"
proof (induction cs arbitrary: p)
  case Nil
  then show ?case by simp
next
  case (Cons c cs)
  with do_call_wf [of p c] show ?case by (auto elim: ok_r_mono)
qed

lemma do_calls_totals:
  assumes "perf_wf p" and "fetch_slots p = n_rdy p ! 1 + 2 * n_rdy p ! 2"
  shows "ok_r (\<lambda>p'. sum_list (n_fetch p') = sum_list (n_fetch p) + calls_of is_fetch cs \<and>
     sum_list (n_alloc p') = sum_list (n_alloc p) + calls_of is_alloc cs \<and>
     sum_list (n_uq_full p') = sum_list (n_uq_full p) + calls_of is_alloc cs \<and>
     sum_list (n_rdy p') = sum_list (n_rdy p) + calls_of is_alloc cs \<and>
     fetch_slots p' = n_rdy p' ! 1 + 2 * n_rdy p' ! 2) (do_calls cs p)"
  using assms
proof (induction cs arbitrary: p)
  case Nil
  then show ?case by simp
next
  case (Cons c cs)
  show ?case
  proof (cases "do_call c p")
    case (Inl e)
    then show ?thesis by simp
  next
    case (Inr p1)
    with do_call_wf [OF Cons.prems(1), of c] do_call_totals [OF Cons.prems(1), of c] Cons.prems(2)
    have "perf_wf p1" and "fetch_slots p1 = n_rdy p1 ! 1 + 2 * n_rdy p1 ! 2"
      and t: "sum_list (n_fetch p1) = sum_list (n_fetch p) + calls_of is_fetch [c]"
        "sum_list (n_alloc p1) = sum_list (n_alloc p) + calls_of is_alloc [c]"
        "sum_list (n_uq_full p1) = sum_list (n_uq_full p) + calls_of is_alloc [c]"
        "sum_list (n_rdy p1) = sum_list (n_rdy p) + calls_of is_alloc [c]" by simp_all
    from Cons.IH [OF this(1,2)] show ?thesis
      by (simp add: Inr t algebra_simps)
  qed
qed

text \<open>
  Counter conservation. In every run of the core's calls from the initial counters,
  \<open>n_fetch\<close> adds up to the number of \<open>record_fetch\<close> calls and \<open>n_alloc\<close>, \<open>n_uq_full\<close> and
  \<open>n_rdy\<close> each to the number of \<open>record_alloc\<close> calls (each call falls into exactly one
  bucket), and \<open>fetch_slots\<close> is the number of instructions the \<open>n_rdy\<close> buckets stand for.
\<close>

theorem perf_totals:
  "ok_r (\<lambda>p. sum_list (n_fetch p) = of_nat (length (filter is_fetch cs)) \<and>
     sum_list (n_alloc p) = of_nat (length (filter is_alloc cs)) \<and>
     sum_list (n_uq_full p) = of_nat (length (filter is_alloc cs)) \<and>
     sum_list (n_rdy p) = of_nat (length (filter is_alloc cs)) \<and>
     fetch_slots p = n_rdy p ! 1 + 2 * n_rdy p ! 2) (do_calls cs perf_init)"
proof -
  have "fetch_slots perf_init = n_rdy perf_init ! 1 + 2 * n_rdy perf_init ! 2"
    by (simp add: perf_init_def)
  with do_calls_totals [OF perf_init_wf, of cs] show ?thesis
    by (simp add: perf_init_def calls_of_def)
qed

text \<open>
  Stall codes. A run of the calls accesses memory outside \<open>l1d_stall_reasons\<close> exactly
  when some \<open>record_l1d\<close> call has a stall code with the fourth bit set: the mask admits
  sixteen codes, the array has eight counters.
\<close>

theorem stall_code_out_of_range:
  "(\<exists>e. do_calls cs perf_init = Inl e) \<longleftrightarrow> list_ex bad_stall cs"
proof -
  have "(\<exists>e. do_calls cs p = Inl e) \<longleftrightarrow> list_ex bad_stall cs" if "perf_wf p" for p
    using that
  proof (induction cs arbitrary: p)
    case Nil
    then show ?case by simp
  next
    case (Cons c cs)
    with do_call_fails_iff [of p c] do_call_wf [of p c] show ?case by (cases "do_call c p") auto
  qed
  with perf_init_wf show ?thesis by blast
qed

text \<open>Between a fault and its restart the clock runs and the pending fault is kept.\<close>

lemma do_calls_pending:
  assumes "pending_fault p" and "\<not> list_ex is_restart cs"
  shows "ok_r (\<lambda>p'. pending_fault p' \<and> fault_start_cycle p' = fault_start_cycle p \<and>
     fault_to_restart_distribution p' = fault_to_restart_distribution p \<and>
     cycle p' = cycle p + of_nat (length (filter ((=) Tick) cs))) (do_calls cs p)"
  using assms
proof (induction cs arbitrary: p)
  case Nil
  then show ?case by simp
next
  case (Cons c cs)
  then have r: "\<not> is_restart c" by simp
  have "ok_r (\<lambda>p'. pending_fault p' \<and> fault_start_cycle p' = fault_start_cycle p \<and>
      fault_to_restart_distribution p' = fault_to_restart_distribution p \<and>
      cycle p' = cycle p + (if c = Tick then 1 else 0)) (do_call c p)"
    using Cons.prems(1) r by (cases c) (auto simp: perf_defs Let_def)
  then show ?case
  proof (cases "do_call c p")
    case (Inl e)
    then show ?thesis by simp
  next
    case (Inr p1)
    with \<open>ok_r _ (do_call c p)\<close> have "pending_fault p1"
      and f: "fault_start_cycle p1 = fault_start_cycle p"
        "fault_to_restart_distribution p1 = fault_to_restart_distribution p"
        "cycle p1 = cycle p + (if c = Tick then 1 else 0)" by simp_all
    with Cons.IH [of p1] Cons.prems(2) have "ok_r (\<lambda>p'. pending_fault p' \<and>
      fault_start_cycle p' = fault_start_cycle p1 \<and>
      fault_to_restart_distribution p' = fault_to_restart_distribution p1 \<and>
      cycle p' = cycle p1 + of_nat (length (filter ((=) Tick) cs))) (do_calls cs p1)" by simp
    then show ?thesis
      by (auto simp: Inr f elim!: ok_r_mono)
  qed
qed

lemma ucast_of_nat_u32: "ucast (of_nat n :: u64) = (of_nat n :: u32)"
  by (simp add: unsigned_of_nat word_of_nat_eq_iff)

text \<open>
  C38. Restart latency. When a fault is reported while none is pending, then however often
  further faults are reported before the restart, the restart counts the number of cycles
  since the first one (as a 32-bit value) and clears the pending fault.
\<close>

theorem restart_latency:
  assumes "n \<noteq> 0" and "\<not> pending_fault p" and "\<not> list_ex is_restart cs"
  shows "ok_r (\<lambda>p'. \<not> pending_fault p' \<and> fault_to_restart_distribution p' =
       bump (sint (of_nat (length (filter ((=) Tick) cs)) :: u32)) (fault_to_restart_distribution p))
     (do_calls (Faults n # cs @ [Restart k]) p)"
proof -
  let ?p = "record_faults n p"
  have "pending_fault ?p" and f: "fault_start_cycle ?p = cycle p" "cycle ?p = cycle p"
    "fault_to_restart_distribution ?p = fault_to_restart_distribution p"
    using assms(1,2) by (simp_all add: record_faults_def Let_def)
  from do_calls_pending [OF this(1) assms(3)] show ?thesis
    by (auto simp: do_calls_append f record_restart_def ucast_of_nat_u32 elim!: ok_r_mono)
qed

theorem restart_latency_witness:
  "ok_r (\<lambda>p'. \<not> pending_fault p' \<and> fault_to_restart_distribution p' = [(2, 1)])
     (do_calls (Faults 1 # [Tick, Faults 3, Tick] @ [Restart 7]) perf_init)"
  using restart_latency [of 1 perf_init "[Tick, Faults 3, Tick]" 7]
  by (simp add: perf_init_def)

end
