(* ===== verification/Run_Text.thy ===== *)
theory Run_Text
  imports Complex_Main Machine_State Disassemble Perf_Counters
begin

text \<open>
  What \<open>top.cc: main\<close> prints while it runs: the progress lines, the tables of registers and
  the messages it stops with, and \<open>top.hh: histo_mean_median\<close>.

  Floating-point numbers only occur in what is printed. An expression of type \<open>double\<close> is
  kept as the tree of its operations (\<open>fexpr\<close>), in the order of the code; the text the stream
  makes of its value is a parameter (\<open>printer\<close>), as the disassembler is. \<open>exact\<close> is the value
  the tree has in exact arithmetic.
\<close>

unbundle bit_operations_syntax

section \<open>Floating-point expressions\<close>

text \<open>Literals, \<open>1e-6\<close>, conversions of \<open>uint64_t\<close>, and the four operations.\<close>

datatype fexpr = Lit nat | Micro | Conv u64 | Plus fexpr fexpr | Minus fexpr fexpr | Times fexpr fexpr | Over fexpr fexpr

primrec exact :: "fexpr \<Rightarrow> rat" where
  "exact (Lit n) = of_nat n"
| "exact Micro = 1 / 1000000"
| "exact (Conv x) = of_nat (unat x)"
| "exact (Plus a b) = exact a + exact b"
| "exact (Minus a b) = exact a - exact b"
| "exact (Times a b) = exact a * exact b"
| "exact (Over a b) = exact a / exact b"

text \<open>The disassembler, and the text of a double with \<open>std::fixed\<close> and without.\<close>

record printer =
  asm :: capstone
  fixed_text :: "fexpr \<Rightarrow> string"
  plain_text :: "fexpr \<Rightarrow> string"

definition newline :: string where
  "newline = [CHR 0x0A]"

definition int_text :: "int \<Rightarrow> string" where
  "int_text k = (if k < 0 then CHR 0x2D # dec (nat (- k)) else dec (nat k))"

definition bool_text :: "bool \<Rightarrow> string" where
  "bool_text b = (if b then ''1'' else ''0'')"

section \<open>histo_mean_median\<close>

text \<open>The product of an \<open>int\<close> key and a count is a \<open>uint64_t\<close>.\<close>

definition histo_sum :: "int histo \<Rightarrow> fexpr" where
  "histo_sum h = foldl (\<lambda>acc p. Plus acc (Conv (word_of_int (fst p) * snd p))) (Lit 0) h"

definition histo_mean_median :: "int histo \<Rightarrow> int \<Rightarrow> fexpr \<times> int" where
  "histo_mean_median h m =
    (if h = [] then (Lit 0, 0)
     else (Over (histo_sum h) (Conv (total h)), histo_median h m))"

section \<open>Progress\<close>

definition progress_text ::
    "printer \<Rightarrow> string \<Rightarrow> u64 \<Rightarrow> u64 \<Rightarrow> u64 \<Rightarrow> u64 \<Rightarrow> u32 \<Rightarrow> u32 \<Rightarrow> string" where
  "progress_text prt port cyc retired reqs mispr p insn =
     port @ ''  cycle '' @ toString cyc @ '' '' @ toStringHex p @ '' '' @ getAsmString (asm prt) insn p @
     '', '' @ fixed_text prt (Over (Conv retired) (Conv cyc)) @ '' IPC , insns_retired '' @ toString retired @
     '', mem pki '' @ fixed_text prt (Times (Over (Conv reqs) (Conv retired)) (Lit 100)) @
     '', mispredict pki '' @ fixed_text prt (Times (Over (Conv mispr) (Conv retired)) (Lit 1000)) @
     '' '' @ newline"

section \<open>Messages before a stop\<close>

text \<open>The simulator's state as \<open>interpret.cc: operator<<\<close> prints it before an unknown opcode ends the program.\<close>

definition state_text :: "state_t \<Rightarrow> string" where
  "state_text s =
     ''PC : '' @ toStringHex (last_pc s) @ newline @
     concat (map (\<lambda>i. let v = gpr s (of_nat i) in
       getGPRName (of_nat i) @ '' : 0x'' @ toStringHex v @ ''('' @ int_text (sint v) @ '')'' @ newline) [0..<32]) @
     ''icnt : '' @ toString (icnt s) @ newline"

text \<open>Eight rows of four registers.\<close>

definition reg_cell :: "state_t \<Rightarrow> u32 \<Rightarrow> string" where
  "reg_cell s i = ''reg '' @ getGPRName i @ '' = '' @ toStringHex (gpr s (ucast i))"

definition reg_row :: "state_t \<Rightarrow> u32 \<Rightarrow> string" where
  "reg_row s i = reg_cell s i @ '' '' @ reg_cell s (i + 1) @ '' '' @ reg_cell s (i + 2) @ '' '' @
     reg_cell s (i + 3) @ newline"

definition reg_table :: "state_t \<Rightarrow> string" where
  "reg_table s = concat (map (\<lambda>n. reg_row s (of_nat (4 * n))) [0..<8])"

definition incorrect_text :: "printer \<Rightarrow> u32 \<Rightarrow> u32 \<Rightarrow> string" where
  "incorrect_text prt p insn =
     ''incorrect '' @ toStringHex p @ '' : '' @ getAsmString (asm prt) insn p @ newline"

text \<open>One register that differs: \<open>s\<close> is the core's state, \<open>ss\<close> the simulator's.\<close>

definition mismatch_text :: "printer \<Rightarrow> state_t \<Rightarrow> state_t \<Rightarrow> u32 \<Rightarrow> u5 \<Rightarrow> string" where
  "mismatch_text prt ss s insn r =
     ''register '' @ getGPRName (ucast r) @ '' does not match : rtl '' @ toStringHex (gpr s r) @
     '' simulator '' @ toStringHex (gpr ss r) @ '' bits in difference '' @
     dec (popcount32 (gpr ss r XOR gpr s r)) @ newline @ incorrect_text prt (pc ss) insn"

text \<open>All of them, and the report of the divergence.\<close>

definition diverged_text :: "printer \<Rightarrow> state_t \<Rightarrow> state_t \<Rightarrow> u5 list \<Rightarrow> u32 \<Rightarrow> failure + string" where
  "diverged_text prt ss s bad p =
     bind_r (mem_r32 (mem ss) (unat (pc ss))) (\<lambda>next_insn.
     bind_r (mem_r32 (mem s) (unat p)) (\<lambda>insn.
     Inr (concat (map (mismatch_text prt ss s next_insn) bad) @ incorrect_text prt p insn @ reg_table s)))"

text \<open>The other messages go to two streams, \<open>cout\<close> and \<open>cerr\<close>.\<close>

definition no_match_text :: "printer \<Rightarrow> state_t \<Rightarrow> u64 \<Rightarrow> u32 \<Rightarrow> u32 \<Rightarrow> u32 \<Rightarrow> failure + string \<times> string" where
  "no_match_text prt s n last_match rtl_pc sim_pc =
     bind_r (mem_r32 (mem s) (unat last_match)) (\<lambda>insn.
     Inr (reg_table s,
       ''no match in '' @ toString n @ '' insts, last match : '' @ toStringHex last_match @ '' '' @
       getAsmString (asm prt) insn last_match @ '', rtl pc ='' @ toStringHex rtl_pc @
       '', sim pc ='' @ toStringHex sim_pc @ newline))"

definition no_retire_text :: "printer \<Rightarrow> state_t \<Rightarrow> bool \<Rightarrow> u64 \<Rightarrow> u64 \<Rightarrow> failure + string \<times> string" where
  "no_retire_text prt s flushing n lpc =
     bind_r (get_insn (ucast lpc) s) (\<lambda>insn.
     Inr (''in flush mode = '' @ bool_text flushing @ newline,
       ''no retire in '' @ toString n @ '' cycles, last retired '' @ toStringHex lpc @ '' '' @
       getAsmString (asm prt) insn (ucast lpc) @ newline))"

text \<open>An undefined instruction (UD) or a bad address (VA), at the address the core gives.\<close>

definition fault_text :: "printer \<Rightarrow> string \<Rightarrow> state_t \<Rightarrow> u32 \<Rightarrow> failure + string \<times> string" where
  "fault_text prt what s p =
     bind_r (get_insn p s) (\<lambda>insn.
     Inr ('''', ''GOT '' @ what @ '' for '' @ toStringHex p @ '' opcode '' @ toStringHex (insn AND 127) @ '' '' @
       getAsmString (asm prt) insn p @ newline))"

definition break_text :: "u32 \<Rightarrow> string" where
  "break_text p = ''got break, epc = '' @ toStringHex p @ newline"

definition unaligned_text :: string where
  "unaligned_text = ''fatal - unaligned address'' @ newline"

text \<open>What the simulator prints before it exits on an opcode it does not know.\<close>

definition unknown_opcode_text :: "u32 \<Rightarrow> state_t \<Rightarrow> string" where
  "unknown_opcode_text opcode s = ''opcode '' @ toStringHex opcode @ newline @ state_text s @ newline"

section \<open>The mean\<close>

lemma exact_histo_sum:
  assumes "\<forall>p \<in> set h. 0 \<le> fst p \<and> nat (fst p) * unat (snd p) < 2 ^ 64"
  shows "exact (foldl (\<lambda>acc p. Plus acc (Conv (word_of_int (fst p) * snd p))) a h) =
    exact a + (\<Sum>p \<leftarrow> h. of_int (fst p) * of_nat (unat (snd p)))"
  using assms
proof (induction h arbitrary: a)
  case (Cons p h)
  obtain k n where p: "p = (k, n)" by (cases p)
  have k: "k = int (nat k)" and lt: "nat k * unat n < 2 ^ 64" using Cons.prems p by auto
  have "(word_of_int k :: u64) = of_nat (nat k)" by (subst k) simp
  then have "unat (word_of_int k * n :: u64) = (nat k mod 2 ^ 64) * unat n mod 2 ^ 64"
    by (simp add: unat_word_ariths unsigned_of_nat take_bit_eq_mod)
  also have "\<dots> = nat k * unat n" using lt by (simp add: mod_mult_left_eq)
  finally have "(of_nat (unat (word_of_int k * n :: u64)) :: rat) = of_int k * of_nat (unat n)"
    by (subst (2) k) simp
  with Cons show ?case by (simp add: p)
qed simp

lemma weighted_bounds:
  fixes lo hi :: int
  assumes "\<forall>p \<in> set h. lo \<le> fst p \<and> fst p \<le> hi"
  shows "of_int lo * of_nat (weight h) \<le> (\<Sum>p \<leftarrow> h. of_int (fst p) * (of_nat (unat (snd p)) :: rat)) \<and>
    (\<Sum>p \<leftarrow> h. of_int (fst p) * (of_nat (unat (snd p)) :: rat)) \<le> of_int hi * of_nat (weight h)"
  using assms
proof (induction h)
  case (Cons p h)
  have m: "a \<le> b \<Longrightarrow> of_int a * (of_nat n :: rat) \<le> of_int b * of_nat n" for a b n
    by (simp add: mult_right_mono)
  from Cons.prems m [of lo "fst p" "unat (snd p)"] m [of "fst p" hi "unat (snd p)"]
  have "of_int lo * (of_nat (unat (snd p)) :: rat) \<le> of_int (fst p) * of_nat (unat (snd p))"
    and "of_int (fst p) * (of_nat (unat (snd p)) :: rat) \<le> of_int hi * of_nat (unat (snd p))"
    by (simp_all del: of_nat_unat)
  with Cons show ?case by (simp add: distrib_left)
qed simp

lemma ordered_ends:
  assumes "ordered h" and "p \<in> set h"
  shows "fst (hd h) \<le> fst p \<and> fst p \<le> fst (last h)"
  using assms
proof (induction h)
  case (Cons q h)
  show ?case
  proof (cases "h = []")
    case True
    with Cons.prems show ?thesis by simp
  next
    case False
    have o: "ordered h" and q: "\<forall>p \<in> set h. fst q < fst p" using Cons.prems(1) by (auto simp: ordered_def)
    with False have l: "fst q < fst (last h)" by simp
    show ?thesis
    proof (cases "p = q")
      case True
      with l False show ?thesis by simp
    next
      case neq: False
      with Cons.IH [OF o] Cons.prems(2) q False show ?thesis by auto
    qed
  qed
qed simp



end
