(* ===== verification/Harness.thy ===== *)
theory Harness
  imports Memory_Port Exec Run_Text
begin

text \<open>
  The main loop of \<open>top.cc: main\<close>: the Verilog core runs beside the simulator. The core
  works on the memory of the state \<open>s\<close>, whose registers follow what it retires; the
  simulator steps its own state \<open>ss\<close> once for every retired instruction, and the loop
  compares the two. Each block of the loop body is one definition, in the order of the
  code; \<open>loop_body\<close> is their composition and \<open>main_loop\<close> the loop.

  The core is the Verilator translation of the SystemVerilog files, a parameter: a state of
  its own type \<open>'r\<close>, what one \<open>eval\<close> with given inputs makes of it, and the outputs read off
  it. The functions it calls back into are modelled where their own state is (the theories of
  the counters and of the retirement log). What the loop prints is appended to two texts of its
  state, \<open>console\<close> (\<open>cout\<close>) and \<open>errors\<close> (\<open>cerr\<close>); an instruction word that is loaded only
  to be printed can fail like any other load.
\<close>

unbundle bit_operations_syntax

section \<open>The core\<close>

record core_in =
  clk :: bool
  reset :: bool
  extern_irq :: bool
  resume :: bool
  resume_pc :: u32
  rsp_valid :: bool
  rsp_load_data :: "u32 list"
  monitor_ack :: bool

record core_out =
  got_monitor :: bool
  ready_for_resume :: bool
  retire_valid :: bool
  retire_pc :: u32
  retire_reg_valid :: bool
  retire_reg_ptr :: u5
  retire_reg_data :: u32
  retire_two_valid :: bool
  retire_two_pc :: u32
  retire_reg_two_valid :: bool
  retire_reg_two_ptr :: u5
  retire_reg_two_data :: u32
  branch_pc :: u32
  branch_pc_valid :: bool
  branch_fault :: bool
  in_flush_mode :: bool
  alloc_valid :: bool
  alloc_two_valid :: bool
  iq_one_valid :: bool
  iq_none_valid :: bool
  in_branch_recovery :: bool
  got_bad_addr :: bool
  got_break :: bool
  got_ud :: bool
  epc_out :: u32
  inflight_out :: u8
  req :: mem_req

record 'r rtl =
  eval :: "core_in \<Rightarrow> 'r \<Rightarrow> 'r"
  outs :: "'r \<Rightarrow> core_out"
  gotFinish :: "'r \<Rightarrow> bool"

section \<open>The loop's state\<close>

text \<open>The command line, as far as the loop reads it, and how texts are made.\<close>

record config =
  enable_checker :: bool
  max_cycle :: u64
  max_icnt :: u64
  mem_lat :: u64
  heartbeat :: u64
  start_trace_at :: u64
  prt :: printer

record 'w harness =
  st_s :: state_t
  st_ss :: state_t
  world :: 'w
  port :: mem_port
  cyc :: u64
  insns_retired :: u64
  insns_allocated :: u64
  cycles_in_faulted :: u64
  fetch_stalls :: u64
  n_branches :: u64
  n_mispredicts :: u64
  mispredicts :: "u32 histo"
  n_flush_cycles :: u64
  pushout_histo :: "u64 histo"
  last_retire :: u64
  last_retired_pc :: u64
  trace_retirement :: bool
  last_match_pc :: u32
  last_check :: u64
  n_checks :: u64
  mismatches :: u64
  incorrect :: bool
  inflight :: "u64 list"
  max_inflight :: u32
  ack_out :: bool
  got_mon :: bool
  console :: string
  errors :: string

definition harness_init :: "'w \<Rightarrow> state_t \<Rightarrow> state_t \<Rightarrow> u64 \<Rightarrow> bool \<Rightarrow> 'w harness" where
  "harness_init w s ss c trace = \<lparr>st_s = s\<lparr>pc := pc ss\<rparr>, st_ss = ss, world = w, port = mem_port_init,
     cyc = c, insns_retired = 0, insns_allocated = 0, cycles_in_faulted = 0, fetch_stalls = 0,
     n_branches = 0, n_mispredicts = 0, mispredicts = [], n_flush_cycles = 0, pushout_histo = [],
     last_retire = 0, last_retired_pc = 0, trace_retirement = trace, last_match_pc = 0,
     last_check = 0, n_checks = 0, mismatches = 0, incorrect = False, inflight = replicate 32 0,
     max_inflight = 0, ack_out = False, got_mon = False, console = '''', errors = ''''\<rparr>"

text \<open>Why the loop was left from inside, and how a block of the body ends.\<close>

datatype stop = Exit_request | Unaligned | Diverged | No_match | No_retire | Break_hit | Undefined_insn | Bad_address

datatype 'h outcome = Go 'h | Stop stop 'h

definition then_do :: "failure + 'h outcome \<Rightarrow> ('h \<Rightarrow> failure + 'h outcome) \<Rightarrow> failure + 'h outcome" where
  "then_do x f = bind_r x (\<lambda>o1. case o1 of Go h \<Rightarrow> f h | Stop why h \<Rightarrow> Inr (Stop why h))"

lemma then_do_simps [simp]:
  "then_do (Inl e) f = Inl e" "then_do (Inr (Go h)) f = f h"
  "then_do (Inr (Stop why h)) f = Inr (Stop why h)"
  by (simp_all add: then_do_def)

section \<open>Printing\<close>

definition say :: "failure + string \<times> string \<Rightarrow> 'w harness \<Rightarrow> failure + 'w harness" where
  "say t H = bind_r t (\<lambda>(a, b). Inr (H\<lparr>console := console H @ a, errors := errors H @ b\<rparr>))"

text \<open>Leaving the loop with a message.\<close>

definition stop_with :: "stop \<Rightarrow> failure + string \<times> string \<Rightarrow> 'w harness \<Rightarrow> failure + 'w harness outcome" where
  "stop_with why t H = bind_r (say t H) (\<lambda>H. Inr (Stop why H))"

definition cout_only :: "failure + string \<Rightarrow> failure + string \<times> string" where
  "cout_only t = bind_r t (\<lambda>a. Inr (a, ''''))"

section \<open>The blocks of the loop body\<close>

text \<open>A guest request, served on \<open>s\<close> when the core signals it.\<close>

definition service_monitor ::
    "'w host \<Rightarrow> globals \<Rightarrow> core_out \<Rightarrow> 'w harness \<Rightarrow> failure + 'w harness outcome" where
  "service_monitor h g c H =
    (if got_monitor c then
       bind_r (st_r32 (st_s H) (tohost_addr g)) (\<lambda>to_host.
       if to_host \<noteq> 0 then
         if to_host AND 1 \<noteq> 0 then Inr (Stop Exit_request H)
         else bind_r (handle_syscall h g (world H) (st_s H) (ucast to_host)) (\<lambda>(w, s).
           Inr (Go (H\<lparr>world := w, st_s := s, ack_out := True, got_mon := True\<rparr>)))
       else Inr (Go H))
     else Inr (Go H))"

definition retire_reg_one :: "core_out \<Rightarrow> 'w harness \<Rightarrow> 'w harness" where
  "retire_reg_one c H =
    (if retire_reg_valid c then H\<lparr>st_s := set_gpr (st_s H) (retire_reg_ptr c) (retire_reg_data c)\<rparr> else H)"

definition count_events :: "core_out \<Rightarrow> 'w harness \<Rightarrow> 'w harness" where
  "count_events c H =
    (let H1 = (if branch_pc_valid c then H\<lparr>n_branches := n_branches H + 1\<rparr> else H);
         H2 = (if branch_fault c then H1\<lparr>mispredicts := bump (branch_pc c) (mispredicts H1),
                 n_mispredicts := n_mispredicts H1 + 1\<rparr> else H1);
         H3 = (if in_flush_mode c then H2\<lparr>n_flush_cycles := n_flush_cycles H2 + 1\<rparr> else H2);
         H4 = (if alloc_two_valid c then H3\<lparr>insns_allocated := insns_allocated H3 + 2\<rparr>
               else if alloc_valid c then H3\<lparr>insns_allocated := insns_allocated H3 + 1\<rparr> else H3);
         H5 = (if iq_one_valid c then H4\<lparr>fetch_stalls := fetch_stalls H4 + 1\<rparr>
               else if iq_none_valid c then H4\<lparr>fetch_stalls := fetch_stalls H4 + 2\<rparr> else H4)
     in if in_branch_recovery c then H5\<lparr>cycles_in_faulted := cycles_in_faulted H5 + 1\<rparr> else H5)"

text \<open>
  Counting what retires. Every \<open>heartbeat\<close> instructions, and always when tracing, a line of
  progress is printed for the port.
\<close>

definition progress :: "config \<Rightarrow> string \<Rightarrow> u32 \<Rightarrow> 'w harness \<Rightarrow> failure + 'w harness" where
  "progress k name p H =
    (if heartbeat k = 0 then Inl Div_trap
     else if insns_retired H mod heartbeat k = 0 \<or> trace_retirement H then
       say (cout_only (bind_r (st_r32 (st_s H) p) (\<lambda>insn.
         Inr (progress_text (prt k) name (cyc H) (insns_retired H) (mem_reqs (port H)) (n_mispredicts H) p insn)))) H
     else Inr H)"

definition count_retired :: "config \<Rightarrow> core_out \<Rightarrow> 'w harness \<Rightarrow> failure + 'w harness" where
  "count_retired k c H =
    (let H1 = H\<lparr>insns_retired := insns_retired H + 1\<rparr>;
         H2 = (if last_retire H1 > 1
               then H1\<lparr>pushout_histo := bump_by (ucast (retire_pc c)) (last_retire H1) (pushout_histo H1)\<rparr> else H1);
         H3 = H2\<lparr>last_retire := 0, last_retired_pc := ucast (retire_pc c)\<rparr>;
         H4 = (if insns_retired H3 \<ge> start_trace_at k then H3\<lparr>trace_retirement := True\<rparr> else H3)
     in bind_r (progress k ''port a'' (retire_pc c) H4) (\<lambda>H5.
        if retire_two_valid c
        then progress k ''port b'' (retire_two_pc c) (H5\<lparr>insns_retired := insns_retired H5 + 1\<rparr>)
        else Inr H5))"

text \<open>The registers in which the two states differ.\<close>

definition differing :: "state_t \<Rightarrow> state_t \<Rightarrow> u5 list" where
  "differing a b = filter (\<lambda>r. gpr a r \<noteq> gpr b r) (map of_nat [0..<32])"

text \<open>The check of the first retirement port.\<close>

definition check_one ::
    "'w host \<Rightarrow> globals \<Rightarrow> config \<Rightarrow> core_out \<Rightarrow> 'w harness \<Rightarrow> failure + 'w harness outcome" where
  "check_one h g k c H =
    (if retire_pc c = pc (st_ss H) then
       bind_r (execRiscv h g (world H) (st_ss H)) (\<lambda>(w, ss).
       let H1 = H\<lparr>world := w, st_ss := ss\<rparr>;
           bad = (if pc ss = retire_pc c + 4 then differing ss (st_s H1) else []);
           H2 = H1\<lparr>mismatches := mismatches H1 + of_nat (length bad)\<rparr>
       in if bad \<noteq> []
          then stop_with Diverged (cout_only (diverged_text (prt k) ss (st_s H) bad (retire_pc c)))
            (H2\<lparr>incorrect := True\<rparr>)
          else Inr (Go (H2\<lparr>n_checks := n_checks H2 + 1, last_check := 0, last_match_pc := retire_pc c\<rparr>)))
     else
       let H1 = H\<lparr>last_check := last_check H + 1\<rparr> in
       if last_check H1 > 0
       then stop_with No_match (no_match_text (prt k) (st_s H1) (last_check H1) (last_match_pc H1)
         (retire_pc c) (pc (st_ss H1))) H1
       else Inr (Go H1))"

definition retire_one ::
    "'w host \<Rightarrow> globals \<Rightarrow> config \<Rightarrow> core_out \<Rightarrow> 'w harness \<Rightarrow> failure + 'w harness outcome" where
  "retire_one h g k c H =
    (if retire_valid c then
       bind_r (count_retired k c H) (\<lambda>H1.
       if got_bad_addr c then stop_with Unaligned (Inr (unaligned_text, '''')) H1
       else if enable_checker k then check_one h g k c H1
       else Inr (Go H1))
     else Inr (Go H))"

text \<open>The second port: its instruction is executed, its registers are not compared.\<close>

definition retire_two ::
    "'w host \<Rightarrow> globals \<Rightarrow> config \<Rightarrow> core_out \<Rightarrow> 'w harness \<Rightarrow> failure + 'w harness outcome" where
  "retire_two h g k c H =
    (let H1 = (if retire_reg_two_valid c
               then H\<lparr>st_s := set_gpr (st_s H) (retire_reg_two_ptr c) (retire_reg_two_data c)\<rparr> else H)
     in if enable_checker k \<and> retire_two_valid c \<and> retire_two_pc c = pc (st_ss H1)
        then bind_r (execRiscv h g (world H1) (st_ss H1)) (\<lambda>(w, ss).
          Inr (Go (H1\<lparr>world := w, st_ss := ss, n_checks := n_checks H1 + 1, last_check := 0,
            last_match_pc := retire_two_pc c\<rparr>)))
        else Inr (Go H1))"

definition watchdog :: "config \<Rightarrow> core_out \<Rightarrow> 'w harness \<Rightarrow> failure + 'w harness outcome" where
  "watchdog k c H =
    (let H1 = H\<lparr>last_retire := last_retire H + 1\<rparr> in
     if last_retire H1 > 2 ^ 16 \<and> \<not> in_flush_mode c
     then stop_with No_retire
       (no_retire_text (prt k) (st_s H1) (in_flush_mode c) (last_retire H1) (last_retired_pc H1)) H1
     else if got_break c then stop_with Break_hit (Inr (break_text (epc_out c), '''')) H1
     else if got_ud c then stop_with Undefined_insn (fault_text (prt k) ''UD'' (st_s H1) (epc_out c)) H1
     else if got_bad_addr c then stop_with Bad_address (fault_text (prt k) ''VA'' (st_s H1) (epc_out c)) H1
     else Inr (Go H1))"

definition count_inflight :: "core_out \<Rightarrow> 'w harness \<Rightarrow> 'w harness" where
  "count_inflight c H =
    (let i = unat (inflight_out c AND 31) in
     H\<lparr>inflight := (inflight H)[i := inflight H ! i + 1],
       max_inflight := max (max_inflight H) (ucast (inflight_out c))\<rparr>)"

definition serve_memory :: "config \<Rightarrow> core_out \<Rightarrow> 'w harness \<Rightarrow> failure + 'w harness" where
  "serve_memory k c H =
     bind_r (mem_service (mem_lat k) (cyc H) (req c) (mem (st_s H)) (port H)) (\<lambda>(m, p, replied).
     let H1 = H\<lparr>st_s := (st_s H)\<lparr>mem := m\<rparr>, port := p\<rparr> in
     Inr (if replied then H1\<lparr>last_retire := 0\<rparr> else H1))"

definition loop_body ::
    "'w host \<Rightarrow> globals \<Rightarrow> config \<Rightarrow> core_out \<Rightarrow> 'w harness \<Rightarrow> failure + 'w harness outcome" where
  "loop_body h g k c H =
     then_do (service_monitor h g c H) (\<lambda>H.
     then_do (retire_one h g k c (count_events c (retire_reg_one c H))) (\<lambda>H.
     then_do (retire_two h g k c H) (\<lambda>H.
     then_do (watchdog k c H) (\<lambda>H.
     bind_r (serve_memory k c (count_inflight c H)) (\<lambda>H. Inr (Go H))))))"

text \<open>After the falling edge.\<close>

definition loop_tail :: "'w harness \<Rightarrow> 'w harness" where
  "loop_tail H =
    (let H1 = (if got_mon H then H\<lparr>ack_out := False, got_mon := False\<rparr> else H)
     in H1\<lparr>cyc := cyc H1 + 1\<rparr>)"

text \<open>The inputs the core sees: the memory's response and the acknowledgement.\<close>

definition inputs :: "bool \<Rightarrow> u32 \<Rightarrow> 'w harness \<Rightarrow> core_in" where
  "inputs level start H = \<lparr>clk = level, reset = False, extern_irq = False, resume = False,
     resume_pc = start, rsp_valid = mem_rsp_valid (port H),
     rsp_load_data = mem_rsp_load_data (port H), monitor_ack = ack_out H\<rparr>"

section \<open>The clock in the blocks\<close>

text \<open>Reasoning block by block: one condition for going on, one for stopping.\<close>

lemma then_do_rule:
  assumes "ok_r (case_outcome P Q) x" and "\<And>h. P h \<Longrightarrow> ok_r (case_outcome R Q) (f h)"
  shows "ok_r (case_outcome R Q) (then_do x f)"
  using assms by (cases x) (auto simp: then_do_def split: outcome.splits)

lemma then_do_Go:
  assumes "then_do x f = Inr (Go h')"
  obtains h where "x = Inr (Go h)" and "f h = Inr (Go h')"
  using assms by (cases x) (auto simp: then_do_def split: outcome.splits)

text \<open>Printing changes the two texts only.\<close>

lemma sayE:
  assumes "say t H = Inr H'"
  obtains a b where "H' = H\<lparr>console := a, errors := b\<rparr>"
  using assms by (auto simp: say_def bind_r_eq_Inr_iff)

lemma progressE:
  assumes "progress k name p H = Inr H'"
  obtains a b where "H' = H\<lparr>console := a, errors := b\<rparr>" and "heartbeat k \<noteq> 0"
proof -
  have "\<exists>a b. H' = H\<lparr>console := a, errors := b\<rparr>"
  proof (cases "H' = H")
    case True
    then have "H' = H\<lparr>console := console H, errors := errors H\<rparr>" by simp
    then show ?thesis by blast
  next
    case False
    then have "\<exists>t. say t H = Inr H'" using assms by (auto simp: progress_def split: if_splits)
    then show ?thesis by (blast elim: sayE)
  qed
  moreover have "heartbeat k \<noteq> 0" using assms by (auto simp: progress_def)
  ultimately show ?thesis using that by blast
qed

lemma stop_with_rule:
  "(\<And>a b. Q why (H\<lparr>console := a, errors := b\<rparr>)) \<Longrightarrow> ok_r (case_outcome P Q) (stop_with why t H)"
  by (auto simp: stop_with_def say_def intro!: ok_rI)

lemma stop_with_simps [simp]:
  "stop_with why t H = Inr (Go H') \<longleftrightarrow> False"
  "stop_with why (Inr (a, b)) H = Inr (Stop why (H\<lparr>console := console H @ a, errors := errors H @ b\<rparr>))"
  by (auto simp: stop_with_def say_def bind_r_eq_Inr_iff)

text \<open>What is printed before a divergence and when nothing retires, if the words are there.\<close>

lemma diverged_text_defined:
  "in_mem (unat (pc ss)) 4 \<Longrightarrow> in_mem (unat p) 4 \<Longrightarrow> \<exists>t. diverged_text q ss s bad p = Inr t"
  by (simp add: diverged_text_def load_in)

lemma no_retire_text_defined:
  "in_mem (unat (ucast lpc :: u32)) 4 \<Longrightarrow> \<exists>t. no_retire_text q s b n lpc = Inr t"
  by (simp add: no_retire_text_def get_insn_def load_in)

lemma plain_blocks_sel [simp]:
  "st_ss (retire_reg_one c H) = st_ss H" "st_ss (count_events c H) = st_ss H" "st_ss (count_inflight c H) = st_ss H"
  "world (retire_reg_one c H) = world H" "world (count_events c H) = world H" "world (count_inflight c H) = world H"
  "n_checks (retire_reg_one c H) = n_checks H" "n_checks (count_events c H) = n_checks H"
  "n_checks (count_inflight c H) = n_checks H"
  "last_retire (retire_reg_one c H) = last_retire H" "last_retire (count_events c H) = last_retire H"
  "last_retire (count_inflight c H) = last_retire H"
  "insns_retired (retire_reg_one c H) = insns_retired H" "insns_retired (count_events c H) = insns_retired H"
  "insns_retired (count_inflight c H) = insns_retired H"
  "st_s (count_events c H) = st_s H" "st_s (count_inflight c H) = st_s H"
  "mem (st_s (retire_reg_one c H)) = mem (st_s H)"
  "port (retire_reg_one c H) = port H" "port (count_events c H) = port H" "port (count_inflight c H) = port H"
  by (simp_all add: retire_reg_one_def count_events_def count_inflight_def Let_def)

lemma count_retired_sel:
  assumes "count_retired k c H = Inr H1"
  shows "st_ss H1 = st_ss H" "st_s H1 = st_s H" "world H1 = world H" "n_checks H1 = n_checks H"
    "port H1 = port H" "cyc H1 = cyc H" "last_retire H1 = 0" "last_check H1 = last_check H"
    "insns_retired H1 = insns_retired H + (if retire_two_valid c then 2 else 1)" "heartbeat k \<noteq> 0"
    "incorrect H1 = incorrect H"
  using assms
  by (auto simp: count_retired_def Let_def bind_r_eq_Inr_iff elim!: progressE split: if_splits)

text \<open>Without a line of progress it succeeds; with one, if the retired words are in memory.\<close>

lemma count_retired_defined:
  assumes "heartbeat k \<noteq> 0" and "in_mem (unat (retire_pc c)) 4"
    and "retire_two_valid c \<Longrightarrow> in_mem (unat (retire_two_pc c)) 4"
  shows "\<exists>H1. count_retired k c H = Inr H1"
proof -
  have p: "\<exists>H'. progress k name q H0 = Inr H'" if "in_mem (unat q) 4" for name q and H0 :: "'a harness"
    using assms(1) that by (auto simp: progress_def say_def cout_only_def st_r32_def load_in)
  define H4 where "H4 = (let H1 = H\<lparr>insns_retired := insns_retired H + 1\<rparr>;
         H2 = (if last_retire H1 > 1
               then H1\<lparr>pushout_histo := bump_by (ucast (retire_pc c)) (last_retire H1) (pushout_histo H1)\<rparr> else H1);
         H3 = H2\<lparr>last_retire := 0, last_retired_pc := ucast (retire_pc c)\<rparr>
    in if insns_retired H3 \<ge> start_trace_at k then H3\<lparr>trace_retirement := True\<rparr> else H3)"
  from p [OF assms(2), of "''port a''" H4] obtain H5 where
    5: "progress k ''port a'' (retire_pc c) H4 = Inr H5" by blast
  show ?thesis
  proof (cases "retire_two_valid c")
    case True
    with p [OF assms(3), of "''port b''"] 5 show ?thesis
      by (simp add: count_retired_def Let_def H4_def)
  next
    case False
    with 5 show ?thesis by (simp add: count_retired_def Let_def H4_def)
  qed
qed

lemma retire_one_rule:
  assumes "\<not> retire_valid c \<Longrightarrow> P H"
    and "\<And>H1. retire_valid c \<Longrightarrow> count_retired k c H = Inr H1 \<Longrightarrow> got_bad_addr c \<Longrightarrow> ok_r (case_outcome P Q) (stop_with Unaligned (Inr (unaligned_text, '''')) H1)"
    and "\<And>H1. retire_valid c \<Longrightarrow> count_retired k c H = Inr H1 \<Longrightarrow> enable_checker k \<Longrightarrow>
      ok_r (case_outcome P Q) (check_one h g k c H1)"
    and "\<And>H1. retire_valid c \<Longrightarrow> count_retired k c H = Inr H1 \<Longrightarrow> \<not> enable_checker k \<Longrightarrow> P H1"
  shows "ok_r (case_outcome P Q) (retire_one h g k c H)"
  using assms by (cases "count_retired k c H") (auto simp: retire_one_def)

lemma service_monitor_cyc: "cyc H = n \<Longrightarrow> ok_r (case_outcome (\<lambda>H'. cyc H' = n) (\<lambda>why H'. cyc H' = n)) (service_monitor h g c H)"
  by (auto simp: service_monitor_def intro!: ok_rI split: prod.splits)

lemma plain_blocks_cyc [simp]:
  "cyc (retire_reg_one c H) = cyc H" "cyc (count_events c H) = cyc H"
  "cyc (count_inflight c H) = cyc H"
  by (simp_all add: retire_reg_one_def count_events_def count_inflight_def Let_def)

lemma retire_one_cyc: "cyc H = n \<Longrightarrow> ok_r (case_outcome (\<lambda>H'. cyc H' = n) (\<lambda>why H'. cyc H' = n)) (retire_one h g k c H)"
proof (rule retire_one_rule)
  assume c: "cyc H = n"
  fix H1 assume "count_retired k c H = Inr H1"
  with c have "cyc H1 = n" by (simp add: count_retired_sel)
  then show "ok_r (case_outcome (\<lambda>H'. cyc H' = n) (\<lambda>why H'. cyc H' = n)) (check_one h g k c H1)"
    by (auto simp: check_one_def Let_def intro!: ok_rI stop_with_rule split: prod.splits if_splits)
qed (simp_all add: count_retired_sel)

lemma retire_two_cyc: "cyc H = n \<Longrightarrow> ok_r (case_outcome (\<lambda>H'. cyc H' = n) (\<lambda>why H'. cyc H' = n)) (retire_two h g k c H)"
  by (auto simp: retire_two_def Let_def bind_r_eq_Inr_iff intro!: ok_rI split: prod.splits if_splits)

lemma watchdog_cyc: "cyc H = n \<Longrightarrow> ok_r (case_outcome (\<lambda>H'. cyc H' = n) (\<lambda>why H'. cyc H' = n)) (watchdog k c H)"
  by (auto simp: watchdog_def Let_def intro!: stop_with_rule)

lemma serve_memory_cyc:
  "cyc H = n \<Longrightarrow> ok_r (case_outcome (\<lambda>H'. cyc H' = n) (\<lambda>why H'. cyc H' = n)) (bind_r (serve_memory k c H) (\<lambda>H. Inr (Go H)))"
  by (auto simp: serve_memory_def Let_def bind_r_eq_Inr_iff intro!: ok_rI split: prod.splits)

lemma loop_body_rule:
  assumes "ok_r (case_outcome PA Q) (service_monitor h g c H)"
    and "\<And>H. PA H \<Longrightarrow> ok_r (case_outcome PB Q) (retire_one h g k c (count_events c (retire_reg_one c H)))"
    and "\<And>H. PB H \<Longrightarrow> ok_r (case_outcome PC Q) (retire_two h g k c H)"
    and "\<And>H. PC H \<Longrightarrow> ok_r (case_outcome PD Q) (watchdog k c H)"
    and "\<And>H. PD H \<Longrightarrow> ok_r R (serve_memory k c (count_inflight c H))"
  shows "ok_r (case_outcome R Q) (loop_body h g k c H)"
  unfolding loop_body_def
  by (intro then_do_rule [OF assms(1)] then_do_rule [OF assms(2)] then_do_rule [OF assms(3)]
      then_do_rule [where P = PD]) (auto intro: assms)

lemma loop_body_cyc: "ok_r (case_outcome (\<lambda>H'. cyc H' = cyc H) (\<lambda>why H'. cyc H' = cyc H)) (loop_body h g k c H)"
  unfolding loop_body_def
  by (intro then_do_rule [where P = "\<lambda>H'. cyc H' = cyc H"]) (simp_all add: service_monitor_cyc retire_one_cyc retire_two_cyc
      watchdog_cyc serve_memory_cyc del: ok_r_bind)

text \<open>The distance to the cycle limit shrinks.\<close>

lemma loop_decreases:
  assumes "cyc H < max_cycle k" and "loop_body h g k c H = Inr (Go H1)"
  shows "unat (max_cycle k) - unat (cyc (loop_tail H1)) < unat (max_cycle k) - unat (cyc H)"
proof -
  have "cyc H1 = cyc H" using loop_body_cyc [of H h g k c] assms(2) by simp
  then have c: "cyc (loop_tail H1) = cyc H + 1" by (simp add: loop_tail_def Let_def)
  have "cyc H \<noteq> - 1" using assms(1) by auto
  then have "unat (cyc H + 1) = unat (cyc H) + 1" by (rule unat_plus_1)
  moreover have "unat (cyc H) < unat (max_cycle k)" using assms(1) by (simp add: word_less_nat_alt)
  ultimately show ?thesis using c by simp
qed

section \<open>The loop\<close>

text \<open>The loop ends by its conditions (\<open>None\<close>) or from inside; it returns the core with its state.\<close>

function main_loop ::
    "'r rtl \<Rightarrow> 'w host \<Rightarrow> globals \<Rightarrow> config \<Rightarrow> u32 \<Rightarrow> 'r \<Rightarrow> 'w harness \<Rightarrow>
     failure + 'r \<times> stop option \<times> 'w harness" where
  "main_loop v h g k start r H =
    (if \<not> gotFinish v r \<and> cyc H < max_cycle k \<and> insns_retired H < max_icnt k then
       let r1 = eval v (inputs True start H) r in
       case loop_body h g k (outs v r1) H of
         Inl e \<Rightarrow> Inl e
       | Inr (Stop why H1) \<Rightarrow> Inr (r1, Some why, H1)
       | Inr (Go H1) \<Rightarrow>
           main_loop v h g k start (eval v (inputs False start H1) r1) (loop_tail H1)
     else Inr (r, None, H))"
  by pat_completeness auto
termination
proof (relation "measure (\<lambda>(v, h, g, k, start, r, H). unat (max_cycle k) - unat (cyc H))")
  fix v :: "'r rtl" and h :: "'w host" and g k start r and H H1 :: "'w harness" and r1 b x
  assume run: "\<not> gotFinish v r \<and> cyc H < max_cycle k \<and> insns_retired H < max_icnt k"
    and r1: "r1 = eval v (inputs True start H) r"
    and b: "loop_body h g k (outs v r1) H = Inr x" and x: "x = Go H1"
  from loop_decreases [of H k h g "outs v r1" H1] run b x
  show "((v, h, g, k, start, eval v (inputs False start H1) r1, loop_tail H1), v, h, g, k, start, r, H)
      \<in> measure (\<lambda>(v, h, g, k, start, r, H). unat (max_cycle k) - unat (cyc H))"
    by simp
qed simp

declare main_loop.simps [simp del]

text \<open>
  An invariant of the core and the loop's state at the loop heads, and a condition for each way
  out of the loop's middle.
\<close>

lemma main_loop_core_rule:
  assumes "P r H"
    and "\<And>r H. P r H \<Longrightarrow> cyc H < max_cycle k \<Longrightarrow> insns_retired H < max_icnt k \<Longrightarrow>
      ok_r (case_outcome (\<lambda>H'. P (eval v (inputs False start H') (eval v (inputs True start H) r)) (loop_tail H')) Q)
        (loop_body h g k (outs v (eval v (inputs True start H) r)) H)"
  shows "ok_r (\<lambda>(r', why, H'). case why of None \<Rightarrow> P r' H' | Some why \<Rightarrow> Q why H') (main_loop v h g k start r H)"
  using assms
proof (induction v h g k start r H rule: main_loop.induct)
  case (1 v h g k start r H)
  show ?case
  proof (cases "\<not> gotFinish v r \<and> cyc H < max_cycle k \<and> insns_retired H < max_icnt k")
    case False
    then show ?thesis using 1(2) by (subst main_loop.simps) auto
  next
    case True
    let ?r1 = "eval v (inputs True start H) r"
    have b: "ok_r (case_outcome (\<lambda>H'. P (eval v (inputs False start H') ?r1) (loop_tail H')) Q)
        (loop_body h g k (outs v ?r1) H)"
      using 1(2) True by (intro 1(3)) auto
    show ?thesis
    proof (cases "loop_body h g k (outs v ?r1) H")
      case (Inl e)
      with True show ?thesis by (subst main_loop.simps) simp
    next
      case (Inr x)
      show ?thesis
      proof (cases x)
        case (Stop why H1)
        with True Inr b show ?thesis by (subst main_loop.simps) simp
      next
        case (Go H1)
        with Inr b have "P (eval v (inputs False start H1) ?r1) (loop_tail H1)" by simp
        from 1(1) [OF True refl Inr Go this 1(3)] True Inr Go show ?thesis
          by (subst main_loop.simps) simp
      qed
    qed
  qed
qed

text \<open>If every iteration goes on, the loop ends by its conditions, with the invariant.\<close>

lemma main_loop_goes_rule:
  assumes "P r H"
    and "\<And>r H. P r H \<Longrightarrow> cyc H < max_cycle k \<Longrightarrow> insns_retired H < max_icnt k \<Longrightarrow>
      \<exists>H'. loop_body h g k (outs v (eval v (inputs True start H) r)) H = Inr (Go H') \<and>
        P (eval v (inputs False start H') (eval v (inputs True start H) r)) (loop_tail H')"
  shows "\<exists>r' H'. main_loop v h g k start r H = Inr (r', None, H') \<and> P r' H' \<and>
    (gotFinish v r' \<or> max_cycle k \<le> cyc H' \<or> max_icnt k \<le> insns_retired H')"
  using assms
proof (induction v h g k start r H rule: main_loop.induct)
  case (1 v h g k start r H)
  show ?case
  proof (cases "\<not> gotFinish v r \<and> cyc H < max_cycle k \<and> insns_retired H < max_icnt k")
    case False
    then show ?thesis using 1(2) by (subst main_loop.simps) (auto simp: not_less)
  next
    case True
    let ?r1 = "eval v (inputs True start H) r"
    obtain H1 where go: "loop_body h g k (outs v ?r1) H = Inr (Go H1)"
      and p: "P (eval v (inputs False start H1) ?r1) (loop_tail H1)"
      using 1(3) [OF 1(2)] True by blast
    from 1(1) [OF True refl go refl p 1(3)] show ?thesis
      using True go by (subst main_loop.simps) simp
  qed
qed

text \<open>The same for an invariant that does not mention the core.\<close>

lemma main_loop_rule:
  assumes "P H"
    and "\<And>c H. P H \<Longrightarrow> cyc H < max_cycle k \<Longrightarrow> insns_retired H < max_icnt k \<Longrightarrow>
      ok_r (case_outcome (\<lambda>H'. P (loop_tail H')) Q) (loop_body h g k c H)"
  shows "ok_r (\<lambda>(r', why, H'). case why of None \<Rightarrow> P H' | Some why \<Rightarrow> Q why H') (main_loop v h g k start r H)"
  using assms by (intro main_loop_core_rule [where P = "\<lambda>_. P"])

lemma loop_tail_sel [simp]:
  "cyc (loop_tail H) = cyc H + 1" "insns_retired (loop_tail H) = insns_retired H"
  "st_s (loop_tail H) = st_s H" "st_ss (loop_tail H) = st_ss H" "world (loop_tail H) = world H"
  "n_checks (loop_tail H) = n_checks H" "last_retire (loop_tail H) = last_retire H"
  "port (loop_tail H) = port H" "incorrect (loop_tail H) = incorrect H" "mismatches (loop_tail H) = mismatches H"
  by (simp_all add: loop_tail_def Let_def)

end
