(* ===== verification/Cosimulation.thy ===== *)
theory Cosimulation
  imports Harness
begin

text \<open>
  What the main loop guarantees: the simulator and the core stay in lockstep and a divergence
  is caught, a stuck core is given up, a run keeps its limits, and how the two states share
  the host.
\<close>

unbundle bit_operations_syntax

section \<open>Lockstep\<close>

lemma execRiscv_icnt: "execRiscv h g w s = Inr (w', s') \<Longrightarrow> icnt s' = icnt s + 1"
  using execRiscv_frame [of s h g w] by simp

text \<open>The simulator's instruction count follows the number of checks.\<close>

definition in_step :: "u64 \<Rightarrow> 'w harness \<Rightarrow> bool" where
  "in_step d H \<longleftrightarrow> icnt (st_ss H) = d + n_checks H"

definition in_step_stop :: "u64 \<Rightarrow> stop \<Rightarrow> 'w harness \<Rightarrow> bool" where
  "in_step_stop d why H \<longleftrightarrow> in_step (d + (if why = Diverged then 1 else 0)) H"

lemma in_step_check:
  "in_step d H \<Longrightarrow> ok_r (case_outcome (in_step d) (in_step_stop d)) (check_one h g k c H)"
  by (auto simp: check_one_def in_step_def in_step_stop_def Let_def bind_r_eq_Inr_iff
      intro!: ok_rI stop_with_rule dest!: execRiscv_icnt split: prod.splits if_splits)

lemma in_step_blocks:
  assumes "in_step d H"
  shows "ok_r (case_outcome (in_step d) (in_step_stop d)) (service_monitor h g c H)"
    and "ok_r (case_outcome (in_step d) (in_step_stop d)) (retire_one h g k c (count_events c (retire_reg_one c H)))"
    and "ok_r (case_outcome (in_step d) (in_step_stop d)) (retire_two h g k c H)"
    and "ok_r (case_outcome (in_step d) (in_step_stop d)) (watchdog k c H)"
    and "ok_r (in_step d) (serve_memory k c (count_inflight c H))"
proof -
  show "ok_r (case_outcome (in_step d) (in_step_stop d)) (service_monitor h g c H)"
    using assms by (auto simp: service_monitor_def in_step_def in_step_stop_def intro!: ok_rI split: prod.splits)
  have "in_step d H1" if "count_retired k c (count_events c (retire_reg_one c H)) = Inr H1" for H1
    using count_retired_sel [OF that] assms by (simp add: in_step_def)
  then show "ok_r (case_outcome (in_step d) (in_step_stop d)) (retire_one h g k c (count_events c (retire_reg_one c H)))"
    using assms by (intro retire_one_rule in_step_check) (simp_all add: in_step_def in_step_stop_def)
  show "ok_r (case_outcome (in_step d) (in_step_stop d)) (retire_two h g k c H)"
    using assms by (auto simp: retire_two_def in_step_def Let_def bind_r_eq_Inr_iff
        intro!: ok_rI dest!: execRiscv_icnt split: prod.splits if_splits)
  show "ok_r (case_outcome (in_step d) (in_step_stop d)) (watchdog k c H)"
    using assms by (auto simp: watchdog_def in_step_def in_step_stop_def Let_def intro!: stop_with_rule)
  show "ok_r (in_step d) (serve_memory k c (count_inflight c H))"
    using assms by (auto simp: serve_memory_def in_step_def Let_def intro!: ok_rI split: prod.splits)
qed

lemma loop_in_step:
  "ok_r (\<lambda>(r', why, H'). icnt (st_ss H') - icnt (st_ss H) =
      n_checks H' - n_checks H + (if why = Some Diverged then 1 else 0))
    (main_loop v h g k start r H)"
proof -
  define d where "d = icnt (st_ss H) - n_checks H"
  have body: "ok_r (case_outcome (in_step d) (in_step_stop d)) (loop_body h g k c H1)"
    if "in_step d H1" for c H1
    by (rule loop_body_rule [where PA = "in_step d" and PB = "in_step d" and PC = "in_step d" and PD = "in_step d"])
      (simp_all add: in_step_blocks that del: ok_r_bind)
  have "ok_r (case_outcome (\<lambda>H'. in_step d (loop_tail H')) (in_step_stop d)) (loop_body h g k c H1)"
    if "in_step d H1" for c H1
    using body [OF that, of c] by (auto simp: in_step_def elim!: ok_r_mono split: outcome.splits)
  moreover have "in_step d H" by (simp add: in_step_def d_def)
  ultimately show ?thesis
    using main_loop_rule [of "in_step d" H k "in_step_stop d" h g v start r]
    by (auto elim!: ok_r_mono simp: in_step_def in_step_stop_def d_def algebra_simps split: option.splits)
qed

text \<open>
  Lockstep. When the loop ends, however it ends, the simulator has executed exactly as
  many instructions as the loop has counted checks, plus the one it stopped at when the
  states diverged.
\<close>

theorem lockstep:
  "ok_r (\<lambda>(r', why, H'). icnt (st_ss H') - icnt (st_ss H) =
      n_checks H' - n_checks H + (if why = Some Diverged then 1 else 0))
    (main_loop v h g k start r H)"
  by (rule loop_in_step)

section \<open>What a checked iteration says\<close>

lemma all_registers: "r \<in> set (map of_nat [0..<32] :: u5 list)"
proof -
  have "unat r < 32" using unsigned_less [of r, where ?'a = nat] by simp
  then show ?thesis by (intro image_eqI [where x = "unat r", THEN list.set_map [THEN equalityD2, THEN subsetD]]) simp_all
qed

lemma differing_Nil: "differing a b = [] \<longleftrightarrow> gpr a = gpr b"
  using all_registers unfolding differing_def filter_empty_conv by (metis ext)

lemma service_monitor_Go:
  assumes "service_monitor h g c H = Inr (Go H1)"
  shows "st_ss H1 = st_ss H" "gpr (st_s H1) = gpr (st_s H)" "last_check H1 = last_check H"
    "n_checks H1 = n_checks H"
proof -
  have "gpr s' = gpr (st_s H)" if "handle_syscall h g w (st_s H) t = Inr (w', s')" for t w w' s'
    using handle_syscall_frame [of "st_s H" t w h g] that by (auto simp: state_t.equality) (metis state_t.select_convs(3) state_t.surjective state_t.update_convs(4,5))
  then show "st_ss H1 = st_ss H" "gpr (st_s H1) = gpr (st_s H)" "last_check H1 = last_check H"
    "n_checks H1 = n_checks H"
    using assms by (auto simp: service_monitor_def bind_r_eq_Inr_iff split: if_splits prod.splits)
qed

lemma check_one_Go:
  assumes "check_one h g k c H = Inr (Go H1)" and "last_check H = 0"
  shows "retire_pc c = pc (st_ss H)" "execRiscv h g (world H) (st_ss H) = Inr (world H1, st_ss H1)"
    "pc (st_ss H1) = retire_pc c + 4 \<Longrightarrow> gpr (st_ss H1) = gpr (st_s H)" "last_check H1 = 0"
  using assms
  by (auto simp: check_one_def Let_def bind_r_eq_Inr_iff differing_Nil split: if_splits prod.splits)

lemma retire_one_Go:
  assumes "retire_one h g k c H = Inr (Go H1)" and "retire_valid c" and "enable_checker k"
  obtains H0 where "count_retired k c H = Inr H0" and "check_one h g k c H0 = Inr (Go H1)" and "\<not> got_bad_addr c"
  using assms by (auto simp: retire_one_def bind_r_eq_Inr_iff split: if_splits)

lemma retire_two_Go:
  assumes "retire_two h g k c H = Inr (Go H1)" and "enable_checker k"
  shows "if retire_two_valid c \<and> retire_two_pc c = pc (st_ss H)
    then execRiscv h g (world H) (st_ss H) = Inr (world H1, st_ss H1)
    else st_ss H1 = st_ss H \<and> world H1 = world H"
    and "last_check H = 0 \<Longrightarrow> last_check H1 = 0"
  using assms by (auto simp: retire_two_def Let_def bind_r_eq_Inr_iff split: if_splits prod.splits)

lemma late_blocks_Go:
  assumes "watchdog k c H = Inr (Go H1)" and "serve_memory k c (count_inflight c H1) = Inr H2"
  shows "st_ss H2 = st_ss H" "world H2 = world H" "last_check H2 = last_check H"
  using assms by (auto simp: watchdog_def serve_memory_def count_inflight_def Let_def bind_r_eq_Inr_iff
      split: if_splits prod.splits)

lemma loop_body_Go:
  assumes "loop_body h g k c H = Inr (Go H')"
  obtains H1 H2 H3 H4 where "service_monitor h g c H = Inr (Go H1)"
    and "retire_one h g k c (count_events c (retire_reg_one c H1)) = Inr (Go H2)"
    and "retire_two h g k c H2 = Inr (Go H3)" and "watchdog k c H3 = Inr (Go H4)"
    and "serve_memory k c (count_inflight c H4) = Inr H'"
  using assms unfolding loop_body_def
  by (elim then_do_Go) (auto simp: bind_r_eq_Inr_iff)

text \<open>
  C9. What an iteration that goes on has checked. With the checker on, an instruction retired
  on the first port was the one at the simulator's \<open>pc\<close>; the simulator has executed it, and
  if that led to the next address, the simulator's registers equal the core's, the written
  one included. A second retired instruction is executed too if it is the next one of the
  simulator; otherwise it is passed over.
\<close>

theorem checked_iteration:
  assumes "loop_body h g k c H = Inr (Go H')" and "enable_checker k" and "retire_valid c"
    and "last_check H = 0"
  shows "\<exists>w0 w1 ss1. retire_pc c = pc (st_ss H) \<and>
    execRiscv h g w0 (st_ss H) = Inr (w1, ss1) \<and>
    (pc ss1 = retire_pc c + 4 \<longrightarrow> gpr ss1 = (if retire_reg_valid c
      then (gpr (st_s H))(retire_reg_ptr c := retire_reg_data c) else gpr (st_s H))) \<and>
    (if retire_two_valid c \<and> retire_two_pc c = pc ss1
     then execRiscv h g w1 ss1 = Inr (world H', st_ss H') else st_ss H' = ss1) \<and>
    last_check H' = 0"
proof -
  obtain H1 H2 H3 H4 where 1: "service_monitor h g c H = Inr (Go H1)"
    and 2: "retire_one h g k c (count_events c (retire_reg_one c H1)) = Inr (Go H2)"
    and 3: "retire_two h g k c H2 = Inr (Go H3)" and 4: "watchdog k c H3 = Inr (Go H4)"
    and 5: "serve_memory k c (count_inflight c H4) = Inr H'"
    using loop_body_Go [OF assms(1)] by blast
  let ?R = "count_events c (retire_reg_one c H1)"
  obtain H0 where cr: "count_retired k c ?R = Inr H0" and ck: "check_one h g k c H0 = Inr (Go H2)"
    using retire_one_Go [OF 2 assms(3,2)] by blast
  have s0: "st_s H0 = st_s (retire_reg_one c H1)" "st_ss H0 = st_ss H"
    using count_retired_sel [OF cr] service_monitor_Go [OF 1] by simp_all
  have "last_check H0 = last_check ?R" using cr by (rule count_retired_sel)
  then have l0: "last_check H0 = 0"
    using service_monitor_Go [OF 1] assms(4)
    by (simp add: count_events_def retire_reg_one_def Let_def)
  note c1 = check_one_Go [OF ck l0] and c3 = retire_two_Go [OF 3 assms(2)]
    and c5 = late_blocks_Go [OF 4 5] and m = service_monitor_Go [OF 1]
  have g: "gpr (st_s H0) = (if retire_reg_valid c
      then (gpr (st_s H))(retire_reg_ptr c := retire_reg_data c) else gpr (st_s H))"
    using s0 m by (simp add: retire_reg_one_def)
  show ?thesis
    using c1 c3 c5 s0 g
    by (intro exI [of _ "world H0"] exI [of _ "world H2"] exI [of _ "st_ss H2"])
      (auto split: if_splits)
qed

section \<open>An example core\<close>

text \<open>Outputs of a core that does nothing, and of one that retires \<open>addi x1, x0, 5\<close> at 0.\<close>

definition no_req :: mem_req where
  "no_req = \<lparr>mem_req_valid = False, mem_req_addr = 0, mem_req_opcode = 0, mem_req_store_data = (\<lambda>_. 0)\<rparr>"

definition idle_out :: core_out where
  "idle_out = \<lparr>got_monitor = False, ready_for_resume = True, retire_valid = False, retire_pc = 0,
     retire_reg_valid = False, retire_reg_ptr = 0, retire_reg_data = 0, retire_two_valid = False,
     retire_two_pc = 0, retire_reg_two_valid = False, retire_reg_two_ptr = 0, retire_reg_two_data = 0,
     branch_pc = 0, branch_pc_valid = False, branch_fault = False, in_flush_mode = False,
     alloc_valid = False, alloc_two_valid = False, iq_one_valid = False, iq_none_valid = False,
     in_branch_recovery = False, got_bad_addr = False, got_break = False, got_ud = False, epc_out = 0,
     inflight_out = 0, req = no_req\<rparr>"

definition addi_out :: "u32 \<Rightarrow> core_out" where
  "addi_out v = idle_out\<lparr>retire_valid := True, retire_pc := 0, retire_reg_valid := True,
     retire_reg_ptr := 1, retire_reg_data := v\<rparr>"

definition demo_config :: config where
  "demo_config = \<lparr>enable_checker = True, max_cycle = 100000, max_icnt = 1000, mem_lat = 4,
     heartbeat = 1000, start_trace_at = - 1,
     prt = \<lparr>asm = (\<lambda>i a. []), fixed_text = (\<lambda>e. ''''), plain_text = (\<lambda>e. '''')\<rparr>\<rparr>"

definition demo_start :: "(u32 \<times> u8 list) list harness" where
  "demo_start = harness_init [] addi_demo addi_demo 0 False"

lemma demo_start_sel:
  "st_s demo_start = addi_demo" "st_ss demo_start = addi_demo" "world demo_start = []"
  "port demo_start = mem_port_init" "cyc demo_start = 0" "last_check demo_start = 0" "last_retired_pc demo_start = 0"
  "last_retire demo_start = 0" "insns_retired demo_start = 0"
  by (simp_all add: demo_start_def harness_init_def addi_demo_fields state_t.equality)

lemma idle_memory:
  assumes "\<not> mem_req_valid (req c)" and "mem_reply_cycle (port H) = - 1" and "cyc H \<noteq> - 1"
  shows "serve_memory k c H = Inr (H\<lparr>port := (port H)\<lparr>mem_rsp_valid := False\<rparr>\<rparr>)"
  using assms by (simp add: serve_memory_def mem_service_def mem_accept_def Let_def)

lemma gpr_addi_demo: "gpr addi_demo = (\<lambda>_. 0)"
  by (simp add: addi_demo_fields)

lemma addi_out_sel:
  "retire_valid (addi_out v)" "\<not> got_monitor (addi_out v)" "\<not> got_bad_addr (addi_out v)"
  "retire_pc (addi_out v) = 0" "\<not> got_break (addi_out v)" "\<not> got_ud (addi_out v)"
  "\<not> retire_two_valid (addi_out v)" "\<not> retire_reg_two_valid (addi_out v)"
  "\<not> mem_req_valid (req (addi_out v))" "retire_reg_valid (addi_out v)"
  "retire_reg_ptr (addi_out v) = 1" "retire_reg_data (addi_out v) = v"
  by (simp_all add: addi_out_def idle_out_def no_req_def)

lemma demo_config_sel: "enable_checker demo_config" "heartbeat demo_config = 1000"
  by (simp_all add: demo_config_def)

text \<open>After the check nothing stops the iteration as diverged.\<close>

lemma late_blocks_not_diverged:
  "ok_r (case_outcome (\<lambda>_. True) (\<lambda>why _. why \<noteq> Diverged))
    (then_do (retire_two h g k c H) (\<lambda>H. then_do (watchdog k c H)
      (\<lambda>H. bind_r (serve_memory k c (count_inflight c H)) (\<lambda>H. Inr (Go H)))))"
proof (rule then_do_rule [where P = "\<lambda>_. True"])
  show "ok_r (case_outcome (\<lambda>_. True) (\<lambda>why _. why \<noteq> Diverged)) (retire_two h g k c H)"
    by (auto simp: retire_two_def Let_def intro!: ok_rI split: prod.splits)
  fix H :: "'a harness"
  show "ok_r (case_outcome (\<lambda>_. True) (\<lambda>why _. why \<noteq> Diverged)) (then_do (watchdog k c H)
      (\<lambda>H. bind_r (serve_memory k c (count_inflight c H)) (\<lambda>H. Inr (Go H))))"
  proof (rule then_do_rule [where P = "\<lambda>_. True"])
    show "ok_r (case_outcome (\<lambda>_. True) (\<lambda>why _. why \<noteq> Diverged)) (watchdog k c H)"
      by (auto simp: watchdog_def Let_def intro!: stop_with_rule)
  qed (auto intro!: ok_rI)
qed

text \<open>
  C10. Divergence is caught, and only divergence. Let an instruction retire on the first port at
  the simulator's \<open>pc\<close>, with no request of the guest to serve, and let the simulator's
  execution of it succeed. If that leads to the next address with registers that differ from
  the core's (the written one included), the iteration stops as diverged and marks the run
  incorrect; in every other case it does not stop as diverged. What is printed on the way
  shows the instruction words at the next address and of a second retirement, which have to
  lie in the memory.
\<close>

theorem divergence_detected:
  assumes "\<not> got_monitor c" and "retire_valid c" and "\<not> got_bad_addr c" and "enable_checker k"
    and "heartbeat k \<noteq> 0" and "retire_pc c = pc (st_ss H)"
    and "execRiscv h g (world H) (st_ss H) = Inr (w1, ss1)"
    and "in_mem (unat (retire_pc c + 4)) 4" and "retire_two_valid c \<longrightarrow> in_mem (unat (retire_two_pc c)) 4"
  shows "if pc ss1 = retire_pc c + 4 \<and> gpr ss1 \<noteq> (if retire_reg_valid c
      then (gpr (st_s H))(retire_reg_ptr c := retire_reg_data c) else gpr (st_s H))
    then \<exists>H'. loop_body h g k c H = Inr (Stop Diverged H') \<and> incorrect H' \<and> st_ss H' = ss1
    else \<not> (\<exists>H'. loop_body h g k c H = Inr (Stop Diverged H'))"
proof -
  let ?R = "count_events c (retire_reg_one c H)"
  let ?g = "if retire_reg_valid c
      then (gpr (st_s H))(retire_reg_ptr c := retire_reg_data c) else gpr (st_s H)"
  have here: "in_mem (unat (retire_pc c)) 4"
    using assms(6,7) by (auto simp: execRiscv_def bind_r_eq_Inr_iff load_eq_Inr_iff)
  obtain H0 where cr: "count_retired k c ?R = Inr H0"
    using count_retired_defined [OF assms(5) here] assms(9) by blast
  note s0 = count_retired_sel [OF cr]
  have d: "differing ss1 (st_s H0) = [] \<longleftrightarrow> gpr ss1 = ?g"
    using s0 by (simp add: retire_reg_one_def differing_Nil)
  have body: "loop_body h g k c H = then_do (check_one h g k c H0) (\<lambda>H. then_do (retire_two h g k c H)
      (\<lambda>H. then_do (watchdog k c H) (\<lambda>H. bind_r (serve_memory k c (count_inflight c H)) (\<lambda>H. Inr (Go H)))))"
    using assms(1-4) cr by (simp add: loop_body_def service_monitor_def retire_one_def)
  show ?thesis
  proof (cases "pc ss1 = retire_pc c + 4 \<and> gpr ss1 \<noteq> ?g")
    case True
    obtain t where t: "diverged_text (prt k) ss1 (st_s H0) (differing ss1 (st_s H0)) (retire_pc c) = Inr t"
      using diverged_text_defined [of ss1 "retire_pc c"] assms(8) True here by metis
    have "\<exists>H'. check_one h g k c H0 = Inr (Stop Diverged H') \<and> incorrect H' \<and> st_ss H' = ss1"
      using s0 t d True assms(6,7) by (simp add: check_one_def Let_def cout_only_def)
    with True body show ?thesis by auto
  next
    case False
    then have "\<exists>H1. check_one h g k c H0 = Inr (Go H1)"
      using s0 d assms(6,7) by (auto simp: check_one_def Let_def)
    then obtain H1 where "check_one h g k c H0 = Inr (Go H1)" by blast
    with body late_blocks_not_diverged [of h g k c H1] have "\<not> (\<exists>H'. loop_body h g k c H = Inr (Stop Diverged H'))"
      by auto
    with False show ?thesis by (simp only: if_False not_False_eq_True)
  qed
qed

theorem divergence_detected_witness:
  "(\<exists>H'. loop_body echo_host example_globals demo_config (addi_out 6) demo_start = Inr (Stop Diverged H') \<and>
     incorrect H') \<and>
   \<not> (\<exists>H'. loop_body echo_host example_globals demo_config (addi_out 5) demo_start = Inr (Stop Diverged H'))"
proof -
  let ?ss = "addi_demo\<lparr>gpr := (\<lambda>_. 0)(1 := 5), pc := 4, last_pc := 0, icnt := 1\<rparr>"
  have "((\<lambda>_. 0)(1 := 5) :: u5 \<Rightarrow> u32) \<noteq> (\<lambda>_. 0)(1 := 6)" by (auto dest: fun_upd_eqD)
  then show ?thesis
    using divergence_detected [of "addi_out 6" demo_config demo_start echo_host example_globals "[]" ?ss]
      divergence_detected [of "addi_out 5" demo_config demo_start echo_host example_globals "[]" ?ss]
    by (auto simp: addi_out_sel demo_config_sel demo_start_sel addi_demo_fields addi_demo_step in_mem_val)
qed

theorem checked_iteration_witness:
  "\<exists>H'. loop_body echo_host example_globals demo_config (addi_out 5) demo_start = Inr (Go H') \<and>
    st_ss H' = addi_demo\<lparr>gpr := (\<lambda>_. 0)(1 := 5), pc := 4, last_pc := 0, icnt := 1\<rparr>"
proof -
  let ?ss = "addi_demo\<lparr>gpr := (\<lambda>_. 0)(1 := 5), pc := 4, last_pc := 0, icnt := 1\<rparr>"
  let ?c = "addi_out 5" and ?R = "count_events (addi_out 5) (retire_reg_one (addi_out 5) demo_start)"
  note c = addi_out_sel [of 5] and k = demo_config_sel
  obtain H0 where cr: "count_retired demo_config ?c ?R = Inr H0"
    using count_retired_defined [of demo_config ?c ?R] k c by (auto simp: in_mem_val)
  note s0 = count_retired_sel [OF cr]
  have "gpr (st_s H0) = (\<lambda>_. 0)(1 := 5)"
    using s0 by (simp add: retire_reg_one_def addi_out_sel demo_start_sel addi_demo_fields)
  then have "differing ?ss (st_s H0) = []" by (simp add: differing_Nil)
  then obtain H2 where ck: "check_one echo_host example_globals demo_config ?c H0 = Inr (Go H2)"
    and H2: "cyc H2 = 0" "port H2 = mem_port_init" "last_retire H2 = 0"
    using s0 c by (simp add: check_one_def Let_def demo_start_sel addi_demo_fields addi_demo_step)
  have "watchdog demo_config ?c H2 = Inr (Go (H2\<lparr>last_retire := 1\<rparr>))"
    using H2 c by (simp add: watchdog_def Let_def)
  moreover have "\<exists>H'. serve_memory demo_config ?c (count_inflight ?c (H2\<lparr>last_retire := 1\<rparr>)) = Inr H'"
    using c H2 by (subst idle_memory) (simp_all add: mem_port_init_def)
  ultimately obtain H' where go: "loop_body echo_host example_globals demo_config ?c demo_start = Inr (Go H')"
    using c k cr ck by (auto simp: loop_body_def service_monitor_def retire_one_def retire_two_def)
  from checked_iteration [OF go k(1) c(1)] show ?thesis
    using go c by (auto simp: demo_start_sel addi_demo_step)
qed

section \<open>A core that is stuck\<close>

definition stuck :: "core_out \<Rightarrow> bool" where
  "stuck c \<longleftrightarrow> \<not> got_monitor c \<and> \<not> retire_valid c \<and> \<not> retire_two_valid c \<and> \<not> in_flush_mode c \<and>
     \<not> got_break c \<and> \<not> got_ud c \<and> \<not> got_bad_addr c \<and> \<not> mem_req_valid (req c)"

text \<open>No answer of the memory is due.\<close>

definition idle_port :: "'w harness \<Rightarrow> bool" where
  "idle_port H \<longleftrightarrow> mem_reply_cycle (port H) = - 1"

lemma stuck_body:
  assumes "stuck c" and "idle_port H" and "cyc H \<noteq> - 1"
    and "in_mem (unat (ucast (last_retired_pc H) :: u32)) 4"
  shows "if 2 ^ 16 \<le> unat (last_retire H) \<and> last_retire H \<noteq> - 1
    then \<exists>H'. loop_body h g k c H = Inr (Stop No_retire H') \<and> cyc H' = cyc H
    else \<exists>H'. loop_body h g k c H = Inr (Go H') \<and> idle_port H' \<and> cyc H' = cyc H \<and>
      last_retire H' = last_retire H + 1 \<and> insns_retired H' = insns_retired H \<and>
      last_retired_pc H' = last_retired_pc H"
proof -
  define R where "R = count_events c (retire_reg_one c H)"
  define R2 where "R2 = (if retire_reg_two_valid c
    then R\<lparr>st_s := set_gpr (st_s R) (retire_reg_two_ptr c) (retire_reg_two_data c)\<rparr> else R)"
  have r2: "retire_two h g k c R = Inr (Go R2)"
    using assms(1) by (simp add: retire_two_def stuck_def R2_def Let_def)
  have sel: "last_retire R2 = last_retire H" "port R2 = port H" "cyc R2 = cyc H"
    "insns_retired R2 = insns_retired H" "last_retired_pc R2 = last_retired_pc H"
    by (simp_all add: R2_def R_def count_events_def retire_reg_one_def Let_def)
  have pre: "loop_body h g k c H = then_do (watchdog k c R2)
      (\<lambda>H. bind_r (serve_memory k c (count_inflight c H)) (\<lambda>H. Inr (Go H)))"
    using assms(1) r2 by (simp add: loop_body_def service_monitor_def retire_one_def stuck_def R_def)
  have gt: "last_retire R2 + 1 > 2 ^ 16 \<longleftrightarrow> 2 ^ 16 \<le> unat (last_retire H) \<and> last_retire H \<noteq> - 1"
  proof (cases "last_retire H = - 1")
    case True
    then show ?thesis by (simp add: sel)
  next
    case False
    then have "unat (last_retire H + 1) = unat (last_retire H) + 1" by (simp add: unat_plus_1)
    with False show ?thesis by (simp add: sel word_less_nat_alt) linarith
  qed
  show ?thesis
  proof (cases "last_retire R2 + 1 > 2 ^ 16")
    case True
    obtain a b where "no_retire_text (prt k) (st_s R2) (in_flush_mode c) (last_retire R2 + 1) (last_retired_pc R2) = Inr (a, b)"
      using no_retire_text_defined assms(4) sel(5) by (metis surj_pair)
    then have "watchdog k c R2 = Inr (Stop No_retire (R2\<lparr>last_retire := last_retire R2 + 1,
        console := console R2 @ a, errors := errors R2 @ b\<rparr>))"
      using assms(1) True by (simp add: watchdog_def Let_def stuck_def)
    with pre True gt sel show ?thesis by simp
  next
    case False
    let ?W = "R2\<lparr>last_retire := last_retire R2 + 1\<rparr>"
    have "watchdog k c R2 = Inr (Go ?W)"
      using assms(1) False by (simp add: watchdog_def Let_def stuck_def)
    moreover have "serve_memory k c (count_inflight c ?W) =
        Inr ((count_inflight c ?W)\<lparr>port := (port (count_inflight c ?W))\<lparr>mem_rsp_valid := False\<rparr>\<rparr>)"
      using assms sel by (intro idle_memory) (simp_all add: stuck_def idle_port_def)
    ultimately show ?thesis using pre False gt sel assms(2)
      by (simp add: idle_port_def count_inflight_def Let_def)
  qed
qed

lemma watchdog_fires:
  assumes "\<forall>r. stuck (outs v r) \<and> \<not> gotFinish v r" and "idle_port H"
    and "unat (last_retire H) \<le> 2 ^ 16" and "insns_retired H < max_icnt k"
    and "unat (cyc H) + (2 ^ 16 - unat (last_retire H)) < unat (max_cycle k)"
    and "in_mem (unat (ucast (last_retired_pc H) :: u32)) 4"
  shows "\<exists>r' H'. main_loop v h g k start r H = Inr (r', Some No_retire, H') \<and>
    unat (cyc H') = unat (cyc H) + (2 ^ 16 - unat (last_retire H))"
  using assms(2-)
proof (induction "2 ^ 16 - unat (last_retire H)" arbitrary: r H)
  case 0
  then have l: "unat (last_retire H) = 2 ^ 16" by simp
  then have "last_retire H \<noteq> - 1" by (auto simp: unsigned_minus_1_eq_mask mask_eq_exp_minus_1)
  moreover have c: "cyc H < max_cycle k" using 0 by (simp add: word_less_nat_alt)
  then have "cyc H \<noteq> - 1" by auto
  ultimately show ?case
    using stuck_body [of "outs v (eval v (inputs True start H) r)" H h g k] assms(1) 0 l c
    by (subst main_loop.simps) auto
next
  case (Suc n)
  then have l: "unat (last_retire H) < 2 ^ 16" by linarith
  have c: "cyc H < max_cycle k" using Suc.prems by (simp add: word_less_nat_alt)
  then have c1: "cyc H \<noteq> - 1" by auto
  let ?r1 = "eval v (inputs True start H) r"
  from stuck_body [of "outs v ?r1" H h g k] assms(1) Suc.prems c1 l obtain H1 where
    go: "loop_body h g k (outs v ?r1) H = Inr (Go H1)" and p: "idle_port H1" and c': "cyc H1 = cyc H"
    and l': "last_retire H1 = last_retire H + 1" and i: "insns_retired H1 = insns_retired H"
    and lp: "last_retired_pc H1 = last_retired_pc H"
    by auto
  have l1: "last_retire H \<noteq> - 1" using l by (auto simp: unsigned_minus_1_eq_mask mask_eq_exp_minus_1)
  have u: "unat (last_retire H + 1) = unat (last_retire H) + 1" and uc: "unat (cyc H + 1) = unat (cyc H) + 1"
    using l1 c1 by (simp_all add: unat_plus_1)
  let ?T = "loop_tail H1"
  have "n = 2 ^ 16 - unat (last_retire ?T)" using Suc.hyps(2) l' u by simp
  moreover have "idle_port ?T" "unat (last_retire ?T) \<le> 2 ^ 16" "insns_retired ?T < max_icnt k"
    "unat (cyc ?T) + (2 ^ 16 - unat (last_retire ?T)) < unat (max_cycle k)"
    "in_mem (unat (ucast (last_retired_pc ?T) :: u32)) 4"
    using p l l' u i c' uc lp Suc.prems by (simp_all add: idle_port_def loop_tail_def Let_def)
  ultimately obtain r' H' where "main_loop v h g k start (eval v (inputs False start H1) ?r1) ?T =
      Inr (r', Some No_retire, H')"
    and "unat (cyc H') = unat (cyc ?T) + (2 ^ 16 - unat (last_retire ?T))"
    using Suc.hyps(1) by blast
  moreover have "main_loop v h g k start r H = main_loop v h g k start (eval v (inputs False start H1) ?r1) ?T"
    using go assms(1) c Suc.prems(3) by (subst main_loop.simps) simp
  ultimately show ?case using l l' u uc c' by auto
qed


definition dead_core :: "unit rtl" where
  "dead_core = \<lparr>eval = (\<lambda>i r. r), outs = (\<lambda>r. idle_out), gotFinish = (\<lambda>r. False)\<rparr>"


section \<open>The limits of a run\<close>

lemma outcome_mono:
  assumes "ok_r (case_outcome P Q) x" and "\<And>h. P h \<Longrightarrow> P' h" and "\<And>why h. Q why h \<Longrightarrow> Q' why h"
  shows "ok_r (case_outcome P' Q') x"
  using assms(1) by (rule ok_r_mono) (auto split: outcome.splits intro: assms(2,3))

definition retired_upto :: "nat \<Rightarrow> 'w harness \<Rightarrow> bool" where
  "retired_upto n H \<longleftrightarrow> unat (insns_retired H) \<le> n"

lemma count_retired_upto:
  assumes "count_retired k c H = Inr H1" and "retired_upto n H"
  shows "retired_upto (n + 2) H1"
proof -
  have "insns_retired H1 = insns_retired H + (if retire_two_valid c then 2 else 1)"
    using assms(1) by (rule count_retired_sel)
  moreover have "unat (insns_retired H + w) \<le> unat (insns_retired H) + unat w" for w
    by (simp add: unat_word_ariths)
  from this [of 1] this [of 2] have "unat (insns_retired H + 1) \<le> unat (insns_retired H) + 1"
    "unat (insns_retired H + 2) \<le> unat (insns_retired H) + 2" by simp_all
  ultimately show ?thesis using assms(2) by (auto simp: retired_upto_def split: if_splits)
qed

lemma retired_upto_mono: "retired_upto n H \<Longrightarrow> n \<le> n' \<Longrightarrow> retired_upto n' H"
  by (simp add: retired_upto_def)

lemma retired_upto_plain [simp]:
  "retired_upto n (count_events c (retire_reg_one c H)) = retired_upto n H"
  by (simp add: retired_upto_def)

lemma retired_upto_blocks:
  assumes "retired_upto n H"
  shows "ok_r (case_outcome (retired_upto n) (\<lambda>why. retired_upto n)) (service_monitor h g c H)"
    and "ok_r (case_outcome (retired_upto n) (\<lambda>why. retired_upto n)) (check_one h g k c H)"
    and "ok_r (case_outcome (retired_upto n) (\<lambda>why. retired_upto n)) (retire_two h g k c H)"
    and "ok_r (case_outcome (retired_upto n) (\<lambda>why. retired_upto n)) (watchdog k c H)"
    and "ok_r (retired_upto n) (serve_memory k c (count_inflight c H))"
  using assms
  by (auto simp: retired_upto_def service_monitor_def check_one_def retire_two_def watchdog_def
      serve_memory_def Let_def bind_r_eq_Inr_iff intro!: ok_rI stop_with_rule split: prod.splits if_splits)

lemma retired_upto_one:
  assumes "retired_upto n H"
  shows "ok_r (case_outcome (retired_upto (n + 2)) (\<lambda>why. retired_upto (n + 2))) (retire_one h g k c H)"
proof -
  have h: "retired_upto (n + 2) H" using assms by (rule retired_upto_mono) simp
  have le: "retired_upto (n + 2) H1" if "count_retired k c H = Inr H1" for H1
    using count_retired_upto [OF that assms] .
  have out: "ok_r (case_outcome (retired_upto (n + 2)) (\<lambda>why. retired_upto (n + 2))) (stop_with why t H1)"
    if "retired_upto (n + 2) H1" for why t H1
    using that by (intro stop_with_rule) (simp add: retired_upto_def)
  show ?thesis
    by (rule retire_one_rule) (blast intro: h le out retired_upto_blocks(2))+
qed

lemma retired_upto_body:
  assumes "retired_upto n H"
  shows "ok_r (case_outcome (retired_upto (n + 2)) (\<lambda>why. retired_upto (n + 2))) (loop_body h g k c H)"
proof (rule loop_body_rule [where PA = "retired_upto n" and PB = "retired_upto (n + 2)"
      and PC = "retired_upto (n + 2)" and PD = "retired_upto (n + 2)"])
  show "ok_r (case_outcome (retired_upto n) (\<lambda>why. retired_upto (n + 2))) (service_monitor h g c H)"
    using retired_upto_blocks(1) [OF assms] by (rule outcome_mono) (simp_all add: retired_upto_mono)
qed (simp_all add: retired_upto_blocks retired_upto_one del: ok_r_bind add_2_eq_Suc')

text \<open>
  The limits. A run that starts within its limits ends by its conditions with at most
  \<open>max_cycle\<close> cycles, and however it ends it has retired at most one instruction more than
  \<open>max_icnt\<close> (two may retire in the last cycle).
\<close>

theorem run_limits:
  assumes "cyc H \<le> max_cycle k" and "unat (insns_retired H) \<le> unat (max_icnt k) + 1"
  shows "ok_r (\<lambda>(r', why, H'). cyc H' \<le> max_cycle k \<and> unat (insns_retired H') \<le> unat (max_icnt k) + 1)
    (main_loop v h g k start r H)"
proof -
  let ?P = "\<lambda>H'. cyc H' \<le> max_cycle k \<and> unat (insns_retired H') \<le> unat (max_icnt k) + 1"
  have body: "ok_r (case_outcome (\<lambda>H'. ?P (loop_tail H')) (\<lambda>why. ?P)) (loop_body h g k c H1)"
    if "cyc H1 < max_cycle k" "insns_retired H1 < max_icnt k" for c H1
  proof -
    have "retired_upto (unat (max_icnt k) - 1) H1" and "0 < unat (max_icnt k)"
      using that(2) by (auto simp: retired_upto_def word_less_nat_alt)
    then have "ok_r (case_outcome (retired_upto (unat (max_icnt k) + 1)) (\<lambda>why. retired_upto (unat (max_icnt k) + 1)))
        (loop_body h g k c H1)"
      using retired_upto_body [of "unat (max_icnt k) - 1" H1 h g k c] by simp
    moreover have "cyc H1 + 1 \<le> max_cycle k" using that(1) by (rule inc_le)
    ultimately show ?thesis
      using loop_body_cyc [of H1 h g k c] that
      by (cases "loop_body h g k c H1") (auto simp: retired_upto_def split: outcome.splits)
  qed
  have "ok_r (\<lambda>(r', why, H'). case why of None \<Rightarrow> ?P H' | Some why \<Rightarrow> ?P H') (main_loop v h g k start r H)"
    by (rule main_loop_rule) (use assms body in auto)
  then show ?thesis by (auto elim!: ok_r_mono split: option.splits)
qed

theorem run_limits_witness:
  "ok_r (\<lambda>(r', why, H'). cyc H' \<le> 100000 \<and> unat (insns_retired H') \<le> 1001)
    (main_loop dead_core echo_host example_globals demo_config 0 () demo_start)"
  using run_limits [of demo_start demo_config dead_core echo_host example_globals 0 "()"]
  by (simp add: demo_start_sel demo_config_def)

section \<open>Which runs are marked incorrect\<close>

definition marked :: "bool \<Rightarrow> 'w harness \<Rightarrow> bool" where
  "marked b H \<longleftrightarrow> (incorrect H \<longleftrightarrow> b)"

lemma marked_blocks:
  assumes "marked False H"
  shows "ok_r (case_outcome (marked False) (\<lambda>why. marked (why = Diverged))) (service_monitor h g c H)"
    and "ok_r (case_outcome (marked False) (\<lambda>why. marked (why = Diverged))) (check_one h g k c H)"
    and "ok_r (case_outcome (marked False) (\<lambda>why. marked (why = Diverged))) (retire_two h g k c H)"
    and "ok_r (case_outcome (marked False) (\<lambda>why. marked (why = Diverged))) (watchdog k c H)"
    and "ok_r (marked False) (serve_memory k c (count_inflight c H))"
  using assms
  by (auto simp: marked_def service_monitor_def check_one_def retire_two_def watchdog_def count_inflight_def
      serve_memory_def Let_def bind_r_eq_Inr_iff intro!: ok_rI stop_with_rule split: prod.splits if_splits)

lemma marked_one:
  assumes "marked False H"
  shows "ok_r (case_outcome (marked False) (\<lambda>why. marked (why = Diverged))) (retire_one h g k c H)"
proof -
  have le: "marked False H1" if "count_retired k c H = Inr H1" for H1
    using count_retired_sel(11) [OF that] assms by (simp add: marked_def)
  have out: "ok_r (case_outcome (marked False) (\<lambda>why. marked (why = Diverged))) (stop_with Unaligned t H1)"
    if "marked False H1" for t H1
    using that by (intro stop_with_rule) (simp add: marked_def)
  show ?thesis
    by (rule retire_one_rule) (blast intro: assms le out marked_blocks(2))+
qed

lemma loop_marks:
  assumes "\<not> incorrect H"
  shows "ok_r (\<lambda>(r', why, H'). incorrect H' \<longleftrightarrow> why = Some Diverged) (main_loop v h g k start r H)"
proof -
  let ?Q = "\<lambda>why. marked (why = Diverged)"
  have body: "ok_r (case_outcome (marked False) ?Q) (loop_body h g k c H1)" if "marked False H1" for c H1
  proof (rule loop_body_rule [where PA = "marked False" and PB = "marked False" and PC = "marked False"
        and PD = "marked False"])
    show "ok_r (case_outcome (marked False) ?Q) (retire_one h g k c (count_events c (retire_reg_one c H)))"
      if "marked False H" for H :: "'a harness"
      using that by (intro marked_one) (simp add: marked_def count_events_def retire_reg_one_def Let_def)
  qed (simp_all add: marked_blocks that del: ok_r_bind)
  have "ok_r (case_outcome (\<lambda>H'. marked False (loop_tail H')) ?Q) (loop_body h g k c H1)"
    if "marked False H1" for c H1
    using body [OF that, of c] by (rule outcome_mono) (simp_all add: marked_def)
  moreover have "marked False H" using assms by (simp add: marked_def)
  ultimately show ?thesis
    using main_loop_rule [of "marked False" H k ?Q h g v start r]
    by (auto elim!: ok_r_mono simp: marked_def split: option.splits)
qed

text \<open>
  The mark. However the loop ends, the run is marked incorrect exactly when it stopped because
  registers differed. A run that stopped because the core and the simulator were at different
  instructions (\<open>No_match\<close>), or because nothing retired, is not: its statistics are written as
  those of a correct run.
\<close>

theorem incorrect_iff_diverged:
  assumes "\<not> incorrect H"
  shows "ok_r (\<lambda>(r', why, H'). incorrect H' \<longleftrightarrow> why = Some Diverged) (main_loop v h g k start r H)"
  using assms by (rule loop_marks)

theorem incorrect_iff_diverged_witness:
  "\<exists>H'. main_loop dead_core echo_host example_globals demo_config 0 () demo_start = Inr ((), Some No_retire, H') \<and>
    \<not> incorrect H'"
proof -
  obtain H' where r: "main_loop dead_core echo_host example_globals demo_config 0 () demo_start = Inr ((), Some No_retire, H')"
    using watchdog_fires [of dead_core demo_start demo_config echo_host example_globals 0 "()"]
    by (auto simp add: dead_core_def stuck_def idle_out_def no_req_def idle_port_def demo_start_sel
        mem_port_init_def demo_config_def in_mem_val)
  have "\<not> incorrect demo_start" by (simp add: demo_start_def harness_init_def)
  from incorrect_iff_diverged [OF this, of dead_core echo_host example_globals demo_config 0 "()"] r
  show ?thesis by simp
qed

section \<open>Requests are served on both states\<close>

lemma low_bit_clear: "(x :: 'a::len word) AND 1 = 0 \<longleftrightarrow> \<not> bit x 0"
  by (simp add: and_one_eq bit_0 mod_2_eq_odd)

lemma tohost_word_low:
  assumes "tohost_word g s = Inr t"
  shows "st_r32 s (tohost_addr g) = Inr (ucast t)" and "ucast (ucast t :: u32) = t"
proof -
  let ?a = "unat (tohost_addr g)"
  let ?bs = "read_bytes (mem s) ?a 8"
  from assms have r: "in_mem ?a 8" and t: "t = le_word ?bs AND 0xffffffff"
    by (auto simp: tohost_word_def bind_r_eq_Inr_iff load_eq_Inr_iff)
  have m: "(0xffffffff :: u64) = mask 32" by (simp add: mask_eq_exp_minus_1)
  have t': "t = take_bit 32 (le_word ?bs)" by (simp add: t m take_bit_eq_mask)
  then show "ucast (ucast t :: u32) = t"
    by (auto intro!: bit_word_eqI simp: bit_simps dest: bit_imp_le_length)
  have "take 4 ?bs = read_bytes (mem s) ?a 4" using take_drop_read_bytes [of 0 4 8 "mem s" ?a] by simp
  then have nth: "read_bytes (mem s) ?a 4 ! i = ?bs ! i" if "i < 4" for i
    using that by (metis nth_take)
  have "(le_word (read_bytes (mem s) ?a 4) :: u32) = ucast t"
    by (rule bit_word_eqI) (auto simp: t' bit_simps bit_le_word_iff nth)
  moreover have "in_mem ?a 4" using r by (rule in_mem_mono) simp
  ultimately show "st_r32 s (tohost_addr g) = Inr (ucast t)" by (simp add: st_r32_def load_in)
qed

text \<open>A guest waits for the answer to a \<open>SYS_write\<close>, with the buffer clear of the mailboxes.\<close>

definition pending_write :: "globals \<Rightarrow> state_t \<Rightarrow> u64 \<Rightarrow> u64 \<Rightarrow> u64 \<Rightarrow> u64 \<Rightarrow> bool" where
  "pending_write g s t fd p len \<longleftrightarrow> tohost_word g s = Inr t \<and> t \<noteq> 0 \<and> t AND 1 = 0 \<and>
     buf_get (mem s) (unat t) 0 = Inr SYS_write \<and> buf_get (mem s) (unat t) 1 = Inr fd \<and>
     buf_get (mem s) (unat t) 2 = Inr p \<and> buf_get (mem s) (unat t) 3 = Inr len"

definition buffer_clear :: "globals \<Rightarrow> u64 \<Rightarrow> bool" where
  "buffer_clear g t \<longleftrightarrow> in_mem (unat (tohost_addr g)) 8 \<and> in_mem (unat (fromhost_addr g)) 8 \<and>
     mailboxes_apart g \<and>
     (unat t + 8 \<le> unat (tohost_addr g) \<or> unat (tohost_addr g) + 8 \<le> unat t) \<and>
     (unat t + 8 \<le> unat (fromhost_addr g) \<or> unat (fromhost_addr g) + 8 \<le> unat t)"

definition flushed :: "'w host \<Rightarrow> u64 \<Rightarrow> 'w \<Rightarrow> 'w" where
  "flushed h fd w = (if fd = 1 then h_fflush h w 1 else if fd = 2 then h_fflush h w 2 else w)"

lemma pending_write_served:
  assumes "pending_write g s t fd p len" and "buffer_clear g t"
    and "h_write h w (ucast fd) (mem s) p len = (w1, rc)"
  shows "\<exists>m'. handle_syscall h g w s t = Inr (flushed h fd w1, s\<lparr>mem := m'\<rparr>)"
  using write_call_served [of t s fd p len h w w1 rc g] assms
  by (auto simp: pending_write_def buffer_clear_def mailboxes_apart_def flushed_def)

text \<open>
  Host calls are made twice. When the core signals a request and the guest of either
  state waits for the same \<open>SYS_write\<close>, an iteration that also checks an instruction makes
  the host call for \<open>s\<close> and then again, from the memory of \<open>ss\<close>, when the simulator steps.
\<close>

theorem request_served_twice:
  assumes "got_monitor c" and "retire_pc c = pc (st_ss H)" and "buffer_clear g t"
    and "pending_write g (st_s H) t fd p len" and "pending_write g (st_ss H) t fd p len"
    and "h_write h (world H) (ucast fd) (mem (st_s H)) p len = (w1, rc1)"
    and "h_write h (flushed h fd w1) (ucast fd) (mem (st_ss H)) p len = (w2, rc2)"
  shows "ok_r (case_outcome (\<lambda>H'. world H' = flushed h fd w2) (\<lambda>why H'. world H' = flushed h fd w2))
    (then_do (service_monitor h g c H) (check_one h g k c))"
proof -
  have t: "tohost_word g (st_s H) = Inr t" "t \<noteq> 0" "t AND 1 = 0"
    using assms(4) by (simp_all add: pending_write_def)
  note low = tohost_word_low [OF t(1)]
  from low(2) t(2) have nz: "(ucast t :: u32) \<noteq> 0" by auto
  have "(ucast t :: u32) AND 1 = 0"
    using t(3) by (simp add: low_bit_clear bit_ucast_iff)
  moreover obtain m1 where "handle_syscall h g (world H) (st_s H) t = Inr (flushed h fd w1, (st_s H)\<lparr>mem := m1\<rparr>)"
    using pending_write_served [OF assms(4,3,6)] by blast
  ultimately have "service_monitor h g c H = Inr (Go (H\<lparr>world := flushed h fd w1,
      st_s := (st_s H)\<lparr>mem := m1\<rparr>, ack_out := True, got_mon := True\<rparr>))"
    using assms(1) low nz by (simp add: service_monitor_def)
  moreover obtain m2 where "handle_syscall h g (flushed h fd w1) (st_ss H) t = Inr (flushed h fd w2, (st_ss H)\<lparr>mem := m2\<rparr>)"
    using pending_write_served [OF assms(5,3,7)] by blast
  then have "w = flushed h fd w2" if "execRiscv h g (flushed h fd w1) (st_ss H) = Inr (w, s')" for w s'
    using that assms(5) t(2) by (auto simp: execRiscv_def pending_write_def bind_r_eq_Inr_iff)
  ultimately show ?thesis
    using assms(2) by (auto simp: check_one_def Let_def bind_r_eq_Inr_iff intro!: ok_rI stop_with_rule split: if_splits prod.splits)
qed

text \<open>Two machines whose guest waits for a write of two bytes to stdout, at \<open>addi x1, x0, 5\<close>.\<close>

definition waiting :: state_t where
  "waiting = initState\<lparr>mem := write_bytes (write_bytes write_demo 0x8000 (le_bytes 8 (0x9000 :: u64)))
     0 (le_bytes 4 (encode (AluImm ADDI 1 0 5)))\<rparr>"

lemma waiting_pending: "pending_write example_globals waiting 0x9000 1 0x9100 2"
proof -
  have "buf_get (mem waiting) 0x9000 i = buf_get write_demo 0x9000 i" for i
    by (simp add: buf_get_def waiting_def load_write_disjoint)
  moreover have "mem_r64 (mem waiting) 0x8000 = Inr 0x9000"
    by (simp add: waiting_def load_write_disjoint load_write_same in_mem_val)
  ultimately show ?thesis
    by (simp add: pending_write_def tohost_word_def example_globals_sel write_demo_words del: One_nat_def)
qed

theorem request_served_twice_witness:
  "ok_r (case_outcome (\<lambda>H'. world H' = [(1, [0, 0]), (1, [0, 0])]) (\<lambda>why H'. world H' = [(1, [0, 0]), (1, [0, 0])]))
    (then_do (service_monitor echo_host example_globals (idle_out\<lparr>got_monitor := True\<rparr>)
        (harness_init [] waiting waiting 0 False))
      (check_one echo_host example_globals demo_config (idle_out\<lparr>got_monitor := True\<rparr>)))"
proof -
  let ?H = "harness_init [] waiting waiting 0 False"
  have H: "st_s ?H = waiting" "st_ss ?H = waiting" "world ?H = []" "pc waiting = 0"
    by (simp_all add: harness_init_def waiting_def initState_def)
  have "mem waiting 0x9100 = 0 \<and> mem waiting 0x9101 = 0"
    by (simp add: waiting_def write_demo_def write_bytes_out mmap4G_def del: encode.simps)
  then have b: "read_bytes (mem waiting) 0x9100 2 = [0, 0]"
    by (simp add: read_bytes_def numeral_2_eq_2)
  have "buffer_clear example_globals 0x9000"
    by (simp add: buffer_clear_def mailboxes_apart_def example_globals_sel in_mem_val)
  from request_served_twice [of "idle_out\<lparr>got_monitor := True\<rparr>" ?H, OF _ _ this, of 1 "0x9100" 2 echo_host
      "[(1, [0, 0])]" 2 "[(1, [0, 0]), (1, [0, 0])]" 2]
  show ?thesis
    using waiting_pending b by (simp add: H idle_out_def echo_host_def flushed_def)
qed

end
