(* ===== verification/Save_State.thy ===== *)
theory Save_State
  imports Exec
begin

text \<open>
  \<open>saveState.cc\<close>: checkpoints of the machine state, and the code that rebuilds a register
  file on a core whose registers cannot be written directly. A file is the list of its
  bytes; \<open>None\<close> stands for a file that cannot be opened. A \<open>read\<close> of a file returns the
  bytes asked for as far as the file has them; how much a \<open>write\<close> transfers is a parameter.
\<close>

unbundle bit_operations_syntax

section \<open>The file format\<close>

record header =
  h_magic :: u64
  h_pc :: u32
  h_gpr :: "u5 \<Rightarrow> u32"
  h_icnt :: u64
  num_nz_pages :: u32

record page =
  va :: u32
  data :: "u8 list"

definition MAGICNUM :: u64 where
  "MAGICNUM = 0xbeefd00d12345670"

definition page_size :: nat where "page_size = 4096"
definition n_pages :: nat where "n_pages = 2 ^ 20"
definition sizeof_header :: nat where "sizeof_header = 152"
definition sizeof_page :: nat where "sizeof_page = 4100"

definition gpr_bytes :: "(u5 \<Rightarrow> u32) \<Rightarrow> u8 list" where
  "gpr_bytes g = concat (map (\<lambda>i. le_bytes 4 (g (of_nat i))) [0..<32])"

text \<open>Both structures are packed.\<close>

definition header_bytes :: "header \<Rightarrow> u8 list" where
  "header_bytes h = le_bytes 8 (h_magic h) @ le_bytes 4 (h_pc h) @ gpr_bytes (h_gpr h) @
     le_bytes 8 (h_icnt h) @ le_bytes 4 (num_nz_pages h)"

definition header_of :: "u8 list \<Rightarrow> header" where
  "header_of bs = \<lparr>h_magic = le_word (take 8 bs), h_pc = le_word (take 4 (drop 8 bs)),
     h_gpr = (\<lambda>r. le_word (take 4 (drop (12 + 4 * unat r) bs))),
     h_icnt = le_word (take 8 (drop 140 bs)), num_nz_pages = le_word (take 4 (drop 148 bs))\<rparr>"

definition page_bytes :: "page \<Rightarrow> u8 list" where
  "page_bytes p = le_bytes 4 (va p) @ data p"

definition page_of :: "u8 list \<Rightarrow> page" where
  "page_of bs = \<lparr>va = le_word (take 4 bs), data = take 4096 (drop 4 bs)\<rparr>"

section \<open>dumpState\<close>

text \<open>The inner loop looks at the page's 512 words and stops at the first that is not zero.\<close>

definition page_nz :: "mem \<Rightarrow> nat \<Rightarrow> bool" where
  "page_nz m p \<longleftrightarrow>
     list_ex (\<lambda>pp. (le_word (read_bytes m (8 * (p * 512 + pp)) 8) :: u64) \<noteq> 0) [0..<512]"

definition nz_pages :: "mem \<Rightarrow> nat list" where
  "nz_pages m = filter (page_nz m) [0..<n_pages]"

definition dump_page :: "mem \<Rightarrow> nat \<Rightarrow> page" where
  "dump_page m i = \<lparr>va = of_nat (i * 4096), data = read_bytes m (i * 4096) 4096\<rparr>"

text \<open>
  A sequence of \<open>write\<close> calls, each followed by the assertion that all bytes went out;
  \<open>wb k n\<close> is the number of bytes call \<open>k\<close> transfers of \<open>n\<close>.
\<close>

fun write_chunks :: "(nat \<Rightarrow> nat \<Rightarrow> int) \<Rightarrow> nat \<Rightarrow> u8 list list \<Rightarrow> failure + u8 list" where
  "write_chunks wb k [] = Inr []"
| "write_chunks wb k (c # cs) =
     bind_r (assert_r (wb k (length c) = int (length c))) (\<lambda>_.
     bind_r (write_chunks wb (k + 1) cs) (\<lambda>rest. Inr (c @ rest)))"

definition dumpState :: "bool \<Rightarrow> (nat \<Rightarrow> nat \<Rightarrow> int) \<Rightarrow> state_t \<Rightarrow> failure + u8 list" where
  "dumpState opened wb s =
     (let nz = nz_pages (mem s);
          h = \<lparr>h_magic = MAGICNUM, h_pc = pc s, h_gpr = gpr s, h_icnt = icnt s,
            num_nz_pages = of_nat (length nz)\<rparr>
      in bind_r (assert_r opened) (\<lambda>_.
         write_chunks wb 0 (header_bytes h # map (\<lambda>i. page_bytes (dump_page (mem s) i)) nz)))"

section \<open>loadState\<close>

fun load_pages :: "nat \<Rightarrow> u8 list \<Rightarrow> state_t \<Rightarrow> failure + state_t" where
  "load_pages 0 bs s = Inr s"
| "load_pages (Suc n) bs s =
     bind_r (assert_r (length (take sizeof_page bs) = sizeof_page)) (\<lambda>_.
     let p = page_of (take sizeof_page bs) in
     bind_r (copy_in (mem s) (unat (va p)) (data p)) (\<lambda>m.
     load_pages n (drop sizeof_page bs) (s\<lparr>mem := m\<rparr>)))"

definition loadState :: "state_t \<Rightarrow> u8 list option \<Rightarrow> failure + state_t" where
  "loadState s file = (case file of
     None \<Rightarrow> Inl Assert_failed
   | Some bs \<Rightarrow>
       bind_r (assert_r (length (take sizeof_header bs) = sizeof_header)) (\<lambda>_.
       let h = header_of (take sizeof_header bs) in
       load_pages (unat (num_nz_pages h)) (drop sizeof_header bs)
         (s\<lparr>pc := h_pc h, gpr := h_gpr h, icnt := h_icnt h\<rparr>)))"

section \<open>Round trips of the structures\<close>

lemma length_gpr_bytes [simp]: "length (gpr_bytes g) = 128"
  by (simp add: gpr_bytes_def length_concat comp_def sum_list_triv)

lemma gpr_of_bytes: "le_word (take 4 (drop (4 * unat r) (gpr_bytes g))) = g r"
proof -
  have r: "unat r < 32" using unsigned_less [of r, where ?'a = nat] by simp
  have "gpr_bytes g = concat (map (le_bytes 4) (map (\<lambda>i. g (of_nat i)) [0..<32]))"
    by (simp only: gpr_bytes_def map_map comp_def)
  with le32.slot [of "map (\<lambda>i. g (of_nat i)) [0..<32]" "unat r"] r show ?thesis by simp
qed

lemma length_header_bytes [simp]: "length (header_bytes h) = sizeof_header"
  by (simp add: header_bytes_def sizeof_header_def)

lemma header_of_bytes: "header_of (header_bytes h) = h"
proof -
  have "le_word (take 4 (drop (12 + 4 * unat r) (header_bytes h))) = h_gpr h r" for r
  proof -
    have "unat r < 32" using unsigned_less [of r, where ?'a = nat] by simp
    then have "take 4 (drop (12 + 4 * unat r) (header_bytes h)) =
        take 4 (drop (4 * unat r) (gpr_bytes (h_gpr h)))"
      by (simp add: header_bytes_def)
    then show ?thesis by (simp add: gpr_of_bytes)
  qed
  moreover have "le_word (take 8 (header_bytes h)) = h_magic h"
    "le_word (take 4 (drop 8 (header_bytes h))) = h_pc h"
    "le_word (take 8 (drop 140 (header_bytes h))) = h_icnt h"
    "le_word (take 4 (drop 148 (header_bytes h))) = num_nz_pages h"
    by (simp_all add: header_bytes_def le_word_le_bytes)
  ultimately show ?thesis by (simp add: header_of_def)
qed

lemma page_of_bytes: "length (data p) = 4096 \<Longrightarrow> page_of (page_bytes p) = p"
  by (simp add: page_of_def page_bytes_def le_word_le_bytes)

interpretation header_codec: codec header_bytes header_of "\<lambda>_. True" sizeof_header
  by unfold_locales (simp_all add: header_of_bytes)

interpretation page_codec: codec page_bytes page_of "\<lambda>p. length (data p) = 4096" sizeof_page
  by unfold_locales (simp_all add: page_of_bytes, simp add: page_bytes_def sizeof_page_def)

lemma dump_page_valid [simp]: "length (data (dump_page m i)) = 4096"
  by (simp add: dump_page_def)

lemma length_page_bytes [simp]: "length (page_bytes (dump_page m i)) = sizeof_page"
  by (simp add: page_bytes_def dump_page_def sizeof_page_def)

section \<open>What a dump holds and a load restores\<close>

lemma read_bytes_zero: "(le_word (read_bytes m a 8) :: u64) = 0 \<Longrightarrow> i < 8 \<Longrightarrow> m (a + i) = 0"
proof -
  assume z: "(le_word (read_bytes m a 8) :: u64) = 0" and i: "i < 8"
  have "read_bytes m a 8 = le_bytes 8 (le_word (read_bytes m a 8) :: u64)"
    using le_bytes_le_word [of "read_bytes m a 8", where ?'a = 64] by simp
  also have "\<dots> = replicate 8 0" by (simp add: z le_bytes_def map_replicate_const)
  finally show ?thesis using i by (metis nth_replicate read_bytes_nth)
qed

text \<open>A page is dumped exactly when one of its bytes is not zero.\<close>

lemma page_nz_iff: "page_nz m p \<longleftrightarrow> (\<exists>i < 4096. m (p * 4096 + i) \<noteq> 0)"
proof
  assume "page_nz m p"
  then obtain pp where pp: "pp < 512" and nz: "(le_word (read_bytes m (8 * (p * 512 + pp)) 8) :: u64) \<noteq> 0"
    by (auto simp: page_nz_def list_ex_iff)
  have "\<exists>i < 8. m (8 * (p * 512 + pp) + i) \<noteq> 0"
  proof (rule ccontr)
    assume "\<not> (\<exists>i < 8. m (8 * (p * 512 + pp) + i) \<noteq> 0)"
    then have "read_bytes m (8 * (p * 512 + pp)) 8 = replicate 8 0"
      by (intro nth_equalityI) (simp_all add: read_bytes_nth)
    with nz show False by simp
  qed
  then obtain i where "i < 8" "m (8 * (p * 512 + pp) + i) \<noteq> 0" by blast
  with pp have "8 * pp + i < 4096" and "m (p * 4096 + (8 * pp + i)) \<noteq> 0"
    by (simp_all add: algebra_simps)
  then show "\<exists>i < 4096. m (p * 4096 + i) \<noteq> 0" by blast
next
  assume "\<exists>i < 4096. m (p * 4096 + i) \<noteq> 0"
  then obtain i where i: "i < 4096" and nz: "m (p * 4096 + i) \<noteq> 0" by blast
  have "8 * (p * 512 + i div 8) + i mod 8 = p * 4096 + i" by simp
  then have "m (8 * (p * 512 + i div 8) + i mod 8) \<noteq> 0" using nz by metis
  then have "(le_word (read_bytes m (8 * (p * 512 + i div 8)) 8) :: u64) \<noteq> 0"
    using read_bytes_zero [of m "8 * (p * 512 + i div 8)" "i mod 8"]
    by (metis mod_less_divisor zero_less_numeral)
  moreover have "i div 8 < 512" using i by simp
  ultimately show "page_nz m p" by (auto simp: page_nz_def list_ex_iff)
qed

lemma load_dumped_pages:
  assumes "\<forall>p \<in> set ps. p < n_pages"
  shows "\<exists>m'. load_pages (length ps) (concat (map (\<lambda>i. page_bytes (dump_page m i)) ps)) s =
      Inr (s\<lparr>mem := m'\<rparr>) \<and>
    (\<forall>i. m' i = (if i div 4096 \<in> set ps then m i else mem s i))"
  using assms
proof (induction ps arbitrary: s)
  case Nil
  have "s = s\<lparr>mem := mem s\<rparr>" by simp
  then show ?case by (intro exI [of _ "mem s"]) simp
next
  case (Cons p ps)
  let ?m1 = "write_bytes (mem s) (p * 4096) (read_bytes m (p * 4096) 4096)"
  have p: "p * 4096 + 4096 \<le> 4294967296" using Cons.prems by (simp add: n_pages_def)
  then have "unat (of_nat (p * 4096) :: u32) = p * 4096"
    by (subst unat_of_nat) (simp add: mod_less)
  then have "copy_in (mem s) (unat (va (dump_page m p))) (data (dump_page m p)) = Inr ?m1"
    using p by (simp add: dump_page_def copy_in_def in_mem_val del: of_nat_mult)
  moreover obtain m' where
    "load_pages (length ps) (concat (map (\<lambda>i. page_bytes (dump_page m i)) ps)) (s\<lparr>mem := ?m1\<rparr>) =
      Inr (s\<lparr>mem := m'\<rparr>)" and m': "\<forall>i. m' i = (if i div 4096 \<in> set ps then m i else ?m1 i)"
    using Cons.IH [of "s\<lparr>mem := ?m1\<rparr>"] Cons.prems by auto
  moreover have "?m1 i = (if i div 4096 = p then m i else mem s i)" for i
  proof -
    have "i div 4096 = p \<longleftrightarrow> p * 4096 \<le> i \<and> i < p * 4096 + 4096" by auto
    then show ?thesis by (auto simp: write_bytes_def read_bytes_nth)
  qed
  ultimately show ?case using page_codec.read_first [OF dump_page_valid] by (auto simp: Let_def)
qed

lemma write_chunks_all: "\<forall>k n. wb k n = int n \<Longrightarrow> write_chunks wb k cs = Inr (concat cs)"
  by (induction cs arbitrary: k) simp_all

lemma load_dump:
  assumes "dumpState opened wb s = Inr bs" and "\<forall>k n. wb k n = int n"
  shows "\<exists>m'. loadState s0 (Some bs) =
      Inr (s0\<lparr>pc := pc s, gpr := gpr s, icnt := icnt s, mem := m'\<rparr>) \<and>
    (\<forall>i. m' i = (if i div 4096 \<in> set (nz_pages (mem s)) then mem s i else mem s0 i))"
proof -
  let ?nz = "nz_pages (mem s)"
  let ?h = "\<lparr>h_magic = MAGICNUM, h_pc = pc s, h_gpr = gpr s, h_icnt = icnt s,
            num_nz_pages = of_nat (length ?nz)\<rparr>"
  let ?pages = "concat (map (\<lambda>i. page_bytes (dump_page (mem s) i)) ?nz)"
  let ?s1 = "s0\<lparr>pc := pc s, gpr := gpr s, icnt := icnt s\<rparr>"
  have bs: "bs = header_bytes ?h @ ?pages"
    using assms by (auto simp: dumpState_def Let_def bind_r_eq_Inr_iff write_chunks_all)
  have "length ?nz \<le> n_pages"
    unfolding nz_pages_def by (rule order_trans [OF length_filter_le]) simp
  then have "length ?nz < 2 ^ 32" by (simp add: n_pages_def)
  then have n: "unat (of_nat (length ?nz) :: u32) = length ?nz"
    by (subst unat_of_nat) (simp add: mod_less)
  have "\<forall>p \<in> set ?nz. p < n_pages" by (simp add: nz_pages_def)
  from load_dumped_pages [OF this, of "mem s" ?s1] n bs show ?thesis
    by (auto simp: loadState_def Let_def header_codec.dec_enc)
qed

text \<open>
  C18. Checkpoint round trip. Loading a dump into a machine whose memory is zero wherever
  the dumped memory is zero on a whole page gives back \<open>pc\<close>, the registers, \<open>icnt\<close> and
  every byte of the 4 GiB memory; the other fields are those of the machine loaded into.
\<close>

theorem checkpoint_roundtrip:
  assumes "dumpState opened wb s = Inr bs" and "\<forall>k n. wb k n = int n"
    and "\<forall>p < n_pages. \<not> page_nz (mem s) p \<longrightarrow> (\<forall>i < 4096. mem s0 (p * 4096 + i) = 0)"
  shows "\<exists>m'. loadState s0 (Some bs) =
      Inr (s0\<lparr>pc := pc s, gpr := gpr s, icnt := icnt s, mem := m'\<rparr>) \<and>
    (\<forall>i < mem_size. m' i = mem s i)"
proof -
  obtain m' where l: "loadState s0 (Some bs) =
      Inr (s0\<lparr>pc := pc s, gpr := gpr s, icnt := icnt s, mem := m'\<rparr>)"
    and m': "\<And>i. m' i = (if i div 4096 \<in> set (nz_pages (mem s)) then mem s i else mem s0 i)"
    using load_dump [OF assms(1,2), of s0] by blast
  have "m' i = mem s i" if "i < mem_size" for i
  proof (cases "page_nz (mem s) (i div 4096)")
    case True
    with that m' show ?thesis by (auto simp: nz_pages_def n_pages_def mem_size_val)
  next
    case False
    have p: "i div 4096 < n_pages" and i: "i div 4096 * 4096 + i mod 4096 = i"
      using that by (simp_all add: n_pages_def mem_size_val)
    have "mem s i = 0" using False page_nz_iff [of "mem s" "i div 4096"] i
      by (metis mod_less_divisor zero_less_numeral)
    moreover have "mem s0 i = 0" using assms(3) p False i
      by (metis mod_less_divisor zero_less_numeral)
    ultimately show ?thesis using False m' by (simp add: nz_pages_def)
  qed
  with l show ?thesis by blast
qed

lemma dump_total: "\<forall>k n. wb k n = int n \<Longrightarrow> \<exists>bs. dumpState True wb s = Inr bs"
  by (simp add: dumpState_def Let_def write_chunks_all)

theorem checkpoint_roundtrip_witness:
  "\<exists>bs m'. dumpState True (\<lambda>k n. int n) addi_demo = Inr bs \<and>
    loadState initState (Some bs) = Inr (initState\<lparr>pc := 0, gpr := \<lambda>_. 0, icnt := 0, mem := m'\<rparr>) \<and>
    (\<forall>i < mem_size. m' i = mem addi_demo i)"
proof -
  obtain bs where bs: "dumpState True (\<lambda>k n. int n) addi_demo = Inr bs"
    using dump_total [of "\<lambda>k n. int n"] by auto
  show ?thesis
    using checkpoint_roundtrip [OF bs, of initState] bs
    by (auto simp: initState_def mmap4G_def addi_demo_fields)
qed

text \<open>
  Loading does not clear: on a page the dump does not hold, a byte of the machine's
  memory keeps the value it had, so a second load of the same checkpoint into a machine
  that has run in between does not restore such a page.
\<close>

theorem reload_keeps_stale_pages:
  assumes "dumpState opened wb s = Inr bs" and "\<forall>k n. wb k n = int n"
    and "\<not> page_nz (mem s) p" and "i < 4096"
  shows "ok_r (\<lambda>s'. mem s' (p * 4096 + i) = mem s0 (p * 4096 + i)) (loadState s0 (Some bs))"
proof -
  have "(p * 4096 + i) div 4096 = p" using assms(4) by simp
  then show ?thesis
    using load_dump [OF assms(1,2), of s0] assms(3) by (auto simp: nz_pages_def)
qed

lemma addi_demo_zero_page: "\<not> page_nz (mem addi_demo) 1"
  by (simp add: page_nz_iff addi_demo_def write_bytes_out mmap4G_def del: encode.simps)

theorem reload_keeps_stale_pages_witness:
  "\<exists>bs s'. dumpState True (\<lambda>k n. int n) addi_demo = Inr bs \<and>
    loadState (initState\<lparr>mem := \<lambda>_. 0xff\<rparr>) (Some bs) = Inr s' \<and>
    mem s' 0x1000 = 0xff \<and> mem addi_demo 0x1000 = 0"
proof -
  obtain bs where bs: "dumpState True (\<lambda>k n. int n) addi_demo = Inr bs"
    using dump_total [of "\<lambda>k n. int n"] by auto
  obtain m' where l: "loadState (initState\<lparr>mem := \<lambda>_. 0xff\<rparr>) (Some bs) =
      Inr (initState\<lparr>mem := \<lambda>_. 0xff, pc := pc addi_demo, gpr := gpr addi_demo,
        icnt := icnt addi_demo, mem := m'\<rparr>)"
    using load_dump [OF bs, of "initState\<lparr>mem := \<lambda>_. 0xff\<rparr>"] by auto
  have "mem addi_demo 0x1000 = 0"
    by (simp add: addi_demo_def write_bytes_out mmap4G_def del: encode.simps)
  then show ?thesis
    using reload_keeps_stale_pages [OF bs _ addi_demo_zero_page, of 0 "initState\<lparr>mem := \<lambda>_. 0xff\<rparr>"]
      bs l by simp
qed

section \<open>emitCodeForInitialRegisterValues\<close>

text \<open>
  The two instructions for one register. A value whose bit 11 is set is split into a multiple
  \<open>k\<close> of 4096 and a difference \<open>d\<close>; dividing an \<open>int\<close> truncates towards zero.
\<close>

definition split_value :: "u32 \<Rightarrow> u32 \<times> u32" where
  "split_value v =
    (let k = word_of_int ((sint v sdiv 4096) * 4096); d = v - k in
     if 0 \<le> sint d
     then (let k' = word_of_int ((sint (v + 4095) sdiv 4096) * 4096) in (k', v - k'))
     else (k, d))"

definition lui_word :: "u5 \<Rightarrow> u32 \<Rightarrow> u32" where
  "lui_word i k = (k AND 0xfffff000) OR push_bit 7 (ucast i) OR 0x37"

definition imm_word :: "u32 \<Rightarrow> u5 \<Rightarrow> u32 \<Rightarrow> u32" where
  "imm_word f3 i d = push_bit 20 (d AND 0xfff) OR push_bit 15 (ucast i) OR push_bit 12 f3 OR
     push_bit 7 (ucast i) OR 0x13"

definition reg_code :: "u5 \<Rightarrow> u32 \<Rightarrow> failure + u32 list" where
  "reg_code i v =
    (if drop_bit 11 v AND 1 \<noteq> 0 then
       let (k, d) = split_value v in
       bind_r (assert_r (signed_drop_bit 12 d = - 1)) (\<lambda>_.
       bind_r (assert_r (k + d = v)) (\<lambda>_.
       Inr [lui_word i k, imm_word 0 i d]))
     else Inr [lui_word i v, imm_word 6 i v])"

fun put_words :: "u32 list \<Rightarrow> state_t \<times> u32 \<Rightarrow> failure + state_t \<times> u32" where
  "put_words [] (s, a) = Inr (s, a)"
| "put_words (w # ws) (s, a) = bind_r (st_w32 s a w) (\<lambda>s'. put_words ws (s', a + 4))"

fun emit_regs :: "u5 list \<Rightarrow> state_t \<times> u32 \<Rightarrow> failure + state_t \<times> u32" where
  "emit_regs [] (s, a) = Inr (s, a)"
| "emit_regs (i # is) (s, a) =
     bind_r (reg_code i (gpr s i)) (\<lambda>ws. bind_r (put_words ws (s, a)) (emit_regs is))"

definition reg_order :: "u5 list" where
  "reg_order = map of_nat [1..<32]"

definition emitCodeForInitialRegisterValues :: "state_t \<Rightarrow> u32 \<Rightarrow> failure + state_t" where
  "emitCodeForInitialRegisterValues s a =
     bind_r (emit_regs reg_order (s, a)) (\<lambda>c.
     bind_r (put_words (0x73 # replicate 128 0x13) c) (\<lambda>(s', _). Inr s'))"

subsection \<open>The emitted instructions\<close>

lemma imm_word_enc: "imm_word (ucast f3) i d = enc_i 0x13 f3 i i (ucast d)"
  by (rule u32_eqI) (simp add: bitwise_32 imm_word_def enc_i_def raw_of_itype_def)

lemma lui_word_enc: "lui_word i k = encode (Lui i (ucast (drop_bit 12 k)))"
  by (rule u32_eqI) (simp add: bitwise_32 lui_word_def enc_u_def raw_of_utype_def)

lemma lui_value:
  "(scast (ucast (drop_bit 12 (k :: u32)) :: 20 word) :: u32) * 4096 = k AND NOT (mask 12)"
  unfolding times_4096 by (rule bit_word_eqI) (auto simp: bit_simps)

lemma exec_lui_word:
  "i \<noteq> 0 \<Longrightarrow> exec_insn (lui_word i k) s = Inr (next_pc (set_gpr s i (k AND NOT (mask 12))))"
  by (simp only: lui_word_enc exec_lui) (simp add: wr_def lui_value)

lemma exec_imm_word:
  "i \<noteq> 0 \<Longrightarrow> exec_insn (imm_word 0 i d) s =
     Inr (next_pc (set_gpr s i (gpr s i + scast (ucast d :: 12 word))))"
  "i \<noteq> 0 \<Longrightarrow> exec_insn (imm_word 6 i d) s =
     Inr (next_pc (set_gpr s i (gpr s i OR scast (ucast d :: 12 word))))"
proof -
  have "imm_word 0 i d = encode (AluImm ADDI i i (ucast d))"
    and "imm_word 6 i d = encode (AluImm ORI i i (ucast d))"
    using imm_word_enc [of 0 i d] imm_word_enc [of 6 i d] by simp_all
  then show "i \<noteq> 0 \<Longrightarrow> exec_insn (imm_word 0 i d) s =
     Inr (next_pc (set_gpr s i (gpr s i + scast (ucast d :: 12 word))))"
    and "i \<noteq> 0 \<Longrightarrow> exec_insn (imm_word 6 i d) s =
     Inr (next_pc (set_gpr s i (gpr s i OR scast (ucast d :: 12 word))))"
    by (simp_all add: exec_alui wr_def of_int_or_eq word_of_int_sint del: encode.simps)
qed

lemma split_value_multiple:
  assumes "split_value v = (k, d)"
  shows "\<exists>y. k = push_bit 12 y" and "d = v - k"
  using assms by (auto simp: split_value_def Let_def times_4096 split: if_splits)

lemma take_bit_push_bit_add: "take_bit 12 (push_bit 12 y + d) = take_bit 12 (d :: u32)"
proof (simp only: word_uint_eq_iff)
  have low: "uint (take_bit 12 x) = uint x mod 4096" for x :: u32
    by (subst unsigned_take_bit_eq) (simp add: take_bit_eq_mod)
  have "uint (push_bit 12 y + d) = (uint y * 4096 + uint d) mod 2 ^ 32"
    by (simp add: uint_word_ariths push_bit_eq_mult mod_simps)
  also have "\<dots> mod 4096 = uint d mod 4096" by (simp add: mod_mod_cancel)
  finally show "uint (take_bit 12 (push_bit 12 y + d)) = uint (take_bit 12 d)" by (simp only: low)
qed

lemma add_imm_value:
  assumes "k = push_bit 12 y" and "bit v 11" and "signed_drop_bit 12 (v - k) = (- 1 :: u32)"
  shows "(k AND NOT (mask 12)) + scast (ucast (v - k) :: 12 word) = v"
proof -
  have "k AND NOT (mask 12) = k"
    by (rule bit_word_eqI) (auto simp: assms(1) bit_simps)
  moreover have "scast (ucast (v - k) :: 12 word) = v - k"
  proof (rule bit_word_eqI)
    fix n assume "n < LENGTH(32)"
    have "take_bit 12 (v - k) = take_bit 12 (k + (v - k))"
      by (simp only: take_bit_push_bit_add assms(1))
    then have b: "bit (take_bit 12 (v - k)) 11" using assms(2) by (simp add: bit_take_bit_iff)
    have "bit (v - k) n" if "12 \<le> n"
    proof -
      have "bit (signed_drop_bit 12 (v - k)) (n - 12)" using assms(3) \<open>n < LENGTH(32)\<close> by simp
      then show ?thesis using that \<open>n < LENGTH(32)\<close>
        by (auto simp: bit_signed_drop_bit_iff split: if_splits)
    qed
    moreover have "n = 11 \<or> n < 11 \<or> 12 \<le> n" by linarith
    ultimately show "bit (scast (ucast (v - k) :: 12 word) :: u32) n = bit (v - k) n"
      using b \<open>n < LENGTH(32)\<close> by (auto simp: bit_simps)
  qed
  ultimately show ?thesis by simp
qed

lemma or_imm_value:
  "\<not> bit (v :: u32) 11 \<Longrightarrow> (v AND NOT (mask 12)) OR scast (ucast v :: 12 word) = v"
proof (rule bit_word_eqI)
  fix n assume "\<not> bit v 11" and "n < LENGTH(32)"
  moreover have "n = 11 \<or> n < 11 \<or> 12 \<le> n" by linarith
  ultimately show "bit ((v AND NOT (mask 12)) OR scast (ucast v :: 12 word)) n = bit v n"
    by (auto simp: bit_simps)
qed

lemma reg_code_exec:
  assumes "reg_code i v = Inr ws" and "i \<noteq> 0"
  shows "\<exists>w1 w2 x. ws = [w1, w2] \<and> (\<forall>s. exec_insn w1 s = Inr (next_pc (set_gpr s i x))) \<and>
    (\<forall>s. gpr s i = x \<longrightarrow> exec_insn w2 s = Inr (next_pc (set_gpr s i v)))"
proof (cases "bit v 11")
  case True
  then have t: "drop_bit 11 v AND 1 \<noteq> 0" using extractBit_iff [of v 11] by (simp add: extractBit_def)
  obtain k d where kd: "split_value v = (k, d)" by (cases "split_value v")
  from assms(1) t kd have ws: "ws = [lui_word i k, imm_word 0 i d]" and d: "signed_drop_bit 12 d = - 1"
    by (auto simp: reg_code_def bind_r_eq_Inr_iff)
  from split_value_multiple [OF kd] obtain y where "k = push_bit 12 y" "d = v - k" by blast
  with d True have "(k AND NOT (mask 12)) + scast (ucast d :: 12 word) = v"
    by (simp only: add_imm_value)
  with ws assms(2) show ?thesis by (auto simp: exec_lui_word exec_imm_word)
next
  case False
  then have t: "drop_bit 11 v AND 1 = 0" using extractBit_iff [of v 11] by (simp add: extractBit_def)
  with assms(1) have "ws = [lui_word i v, imm_word 6 i v]" by (simp add: reg_code_def)
  with assms(2) or_imm_value [OF False] show ?thesis by (auto simp: exec_lui_word exec_imm_word)
qed

subsection \<open>The code in memory\<close>

fun code_of :: "u5 list \<Rightarrow> (u5 \<Rightarrow> u32) \<Rightarrow> failure + u32 list" where
  "code_of [] g = Inr []"
| "code_of (i # is) g =
     bind_r (reg_code i (g i)) (\<lambda>ws. bind_r (code_of is g) (\<lambda>r. Inr (ws @ r)))"

lemma put_words_append: "put_words (xs @ ys) c = bind_r (put_words xs c) (put_words ys)"
  by (induction xs c rule: put_words.induct) (simp_all add: bind_r_assoc cong: bind_r_cong)

lemma put_words_gpr: "ok_r (\<lambda>(s', _). gpr s' = gpr s \<and> pc s' = pc s) (put_words ws (s, a))"
proof (induction ws arbitrary: s a)
  case (Cons w ws)
  show ?case
    using Cons.IH [of "s\<lparr>mem := write_bytes (mem s) (unat a) (le_bytes 4 w)\<rparr>" "a + 4"]
    by (auto simp: st_w32_def store_def)
qed simp

lemma emit_regs_code:
  assumes "emit_regs is (s, a) = Inr c"
  shows "\<exists>ws. code_of is (gpr s) = Inr ws \<and> put_words ws (s, a) = Inr c"
  using assms
proof (induction "is" arbitrary: s a)
  case (Cons i "is")
  then obtain ws s1 a1 where 1: "reg_code i (gpr s i) = Inr ws" "put_words ws (s, a) = Inr (s1, a1)"
    and 2: "emit_regs is (s1, a1) = Inr c"
    by (auto simp: bind_r_eq_Inr_iff)
  then show ?case
    using Cons.IH [OF 2] put_words_gpr [of s ws a] by (auto simp: put_words_append)
qed auto

definition code_at :: "mem \<Rightarrow> nat \<Rightarrow> u32 list \<Rightarrow> bool" where
  "code_at m a ws \<longleftrightarrow> (\<forall>j < length ws. mem_r32 m (a + 4 * j) = Inr (ws ! j))"

lemma code_at_Cons: "code_at m a (w # ws) \<longleftrightarrow> mem_r32 m a = Inr w \<and> code_at m (a + 4) ws"
  unfolding code_at_def by (auto simp: less_Suc_eq_0_disj algebra_simps)

lemma code_at_append: "code_at m a (xs @ ys) \<longleftrightarrow> code_at m a xs \<and> code_at m (a + 4 * length xs) ys"
proof (induction xs arbitrary: a)
  case Nil
  then show ?case by (simp add: code_at_def)
next
  case (Cons x xs)
  then show ?case by (simp add: code_at_Cons algebra_simps)
qed

text \<open>Writing the words one by one is the memory's run of stores.\<close>

lemma put_words_st_all:
  assumes "put_words ws (s, a) = Inr (s', a')" and "unat a + 4 * length ws \<le> 2 ^ 32"
  shows "ram.st_all 4 (mem s) (unat a) ws = Inr (mem s') \<and> s' = s\<lparr>mem := mem s'\<rparr>"
  using assms
proof (induction ws arbitrary: s a)
  case (Cons w ws)
  from Cons.prems(1) obtain m where m: "mem_w32 (mem s) (unat a) w = Inr m"
    and p: "put_words ws (s\<lparr>mem := m\<rparr>, a + 4) = Inr (s', a')"
    by (auto simp: st_w32_def bind_r_assoc bind_r_eq_Inr_iff)
  show ?case
  proof (cases ws)
    case Nil
    with m p show ?thesis by auto
  next
    case (Cons w' ws')
    with Cons.prems(2) have "unat (a + 4) = unat a + 4" by (simp add: unat_plus_4)
    with Cons.IH [OF p] Cons.prems(2) m show ?thesis by simp
  qed
qed simp

lemma put_words_code_at:
  assumes "put_words ws (s, a) = Inr (s', a')" and "unat a + 4 * length ws \<le> 2 ^ 32"
  shows "code_at (mem s') (unat a) ws"
  using put_words_st_all [OF assms] ram.st_all_nth [of 4 "mem s" "unat a" ws "mem s'"]
  by (simp add: code_at_def)

subsection \<open>Running it\<close>

lemma execRiscv_reg:
  assumes "mem_r32 (mem s) (unat (pc s)) = Inr inst" and "tohost_word g s = Inr 0"
    and "exec_insn inst s = Inr (next_pc (set_gpr s i x))"
  shows "\<exists>s'. execRiscv h g w s = Inr (w, s') \<and> gpr s' = (gpr s)(i := x) \<and> mem s' = mem s \<and>
    pc s' = pc s + 4 \<and> brk s' = brk s"
  using execRiscv_quiet [OF assms(1,2), of h w] assms(3) by simp

lemma tohost_word_mem: "mem s' = mem s \<Longrightarrow> tohost_word g s' = tohost_word g s"
  by (simp add: tohost_word_def)

lemma pair_run:
  assumes code: "reg_code i v = Inr ws" and i: "i \<noteq> 0" and at: "code_at (mem s) (unat (pc s)) ws"
    and quiet: "tohost_word g s = Inr 0" and room: "unat (pc s) + 8 \<le> 2 ^ 32"
  shows "\<exists>s'. run h g (length ws) (w, s) = Inr (w, s') \<and> gpr s' = (gpr s)(i := v) \<and> mem s' = mem s \<and>
    pc s' = pc s + 8 \<and> length ws = 2"
proof -
  obtain w1 w2 x where e: "ws = [w1, w2] \<and> (\<forall>s. exec_insn w1 s = Inr (next_pc (set_gpr s i x))) \<and>
    (\<forall>s. gpr s i = x \<longrightarrow> exec_insn w2 s = Inr (next_pc (set_gpr s i v)))"
    using reg_code_exec [OF code i] by (elim exE)
  note ws = e [THEN conjunct1] and e1 = e [THEN conjunct2, THEN conjunct1, rule_format]
    and e2 = e [THEN conjunct2, THEN conjunct2, rule_format]
  from at ws have m1: "mem_r32 (mem s) (unat (pc s)) = Inr w1"
    and m2: "mem_r32 (mem s) (unat (pc s) + 4) = Inr w2" by (simp_all add: code_at_Cons)
  obtain s1 where "execRiscv h g w s = Inr (w, s1) \<and> gpr s1 = (gpr s)(i := x) \<and>
      mem s1 = mem s \<and> pc s1 = pc s + 4 \<and> brk s1 = brk s"
    using execRiscv_reg [OF m1 quiet e1, of h w] by (elim exE)
  then have s1: "execRiscv h g w s = Inr (w, s1)" "gpr s1 = (gpr s)(i := x)" "mem s1 = mem s"
    "pc s1 = pc s + 4" by simp_all
  have "unat (pc s1) = unat (pc s) + 4" using room s1(4) by (simp add: unat_plus_4)
  then have m2': "mem_r32 (mem s1) (unat (pc s1)) = Inr w2" using m2 s1(3) by simp
  have q1: "tohost_word g s1 = Inr 0" using quiet tohost_word_mem [OF s1(3)] by simp
  have x: "gpr s1 i = x" using s1(2) by simp
  obtain s2 where "execRiscv h g w s1 = Inr (w, s2) \<and> gpr s2 = (gpr s1)(i := v) \<and>
      mem s2 = mem s1 \<and> pc s2 = pc s1 + 4 \<and> brk s2 = brk s1"
    using execRiscv_reg [OF m2' q1 e2 [OF x], of h w] by (elim exE)
  then have s2: "execRiscv h g w s1 = Inr (w, s2)" "gpr s2 = (gpr s1)(i := v)" "mem s2 = mem s1"
    "pc s2 = pc s1 + 4" by simp_all
  show ?thesis using s1 s2 ws by (auto simp: numeral_2_eq_2)
qed

lemma regs_run:
  assumes "code_of is g0 = Inr ws" and "0 \<notin> set is" and "code_at (mem s) (unat (pc s)) ws"
    and "tohost_word g s = Inr 0" and "unat (pc s) + 8 * length is < 2 ^ 32"
  shows "\<exists>s'. run h g (2 * length is) (w, s) = Inr (w, s') \<and>
    gpr s' = (\<lambda>r. if r \<in> set is then g0 r else gpr s r) \<and> mem s' = mem s \<and>
    pc s' = pc s + of_nat (8 * length is) \<and> length ws = 2 * length is"
  using assms
proof (induction "is" arbitrary: s ws)
  case Nil
  then show ?case by simp
next
  case (Cons i "is")
  then obtain w1 w2 where c: "reg_code i (g0 i) = Inr w1" "code_of is g0 = Inr w2" "ws = w1 @ w2"
    by (auto simp: bind_r_eq_Inr_iff)
  have at: "code_at (mem s) (unat (pc s)) w1" "code_at (mem s) (unat (pc s) + 4 * length w1) w2"
    using Cons.prems(3) c(3) by (simp_all add: code_at_append)
  obtain s1 where s1: "run h g (length w1) (w, s) = Inr (w, s1)" "gpr s1 = (gpr s)(i := g0 i)"
    "mem s1 = mem s" "pc s1 = pc s + 8" "length w1 = 2"
    using pair_run [OF c(1) _ at(1) Cons.prems(4)] Cons.prems(2,5) by force
  have "unat (pc s1) = unat (pc s) + 8"
    using Cons.prems(5) s1(4) by (subst s1(4), subst unat_add_lem [THEN iffD1]) simp_all
  then have "\<exists>s'. run h g (2 * length is) (w, s1) = Inr (w, s') \<and>
    gpr s' = (\<lambda>r. if r \<in> set is then g0 r else gpr s1 r) \<and> mem s' = mem s1 \<and>
    pc s' = pc s1 + of_nat (8 * length is) \<and> length w2 = 2 * length is"
    using Cons.prems at(2) s1 tohost_word_mem [OF s1(3)] c(2) by (intro Cons.IH) simp_all
  then obtain s2 where s2: "run h g (2 * length is) (w, s1) = Inr (w, s2)"
    "gpr s2 = (\<lambda>r. if r \<in> set is then g0 r else gpr s1 r)" "mem s2 = mem s1"
    "pc s2 = pc s1 + of_nat (8 * length is)" "length w2 = 2 * length is" by blast
  have "run h g (length w1 + 2 * length is) (w, s) = Inr (w, s2)"
    using s1(1) s2(1) by (simp only: run_append bind_r_Inr)
  then show ?case using s1 s2 c(3) by (auto simp: fun_eq_iff algebra_simps)
qed

subsection \<open>Which values the assertion accepts\<close>

text \<open>The 2048 values whose rounding up to a multiple of 4096 overflows an \<open>int\<close>.\<close>

definition unsplittable :: "u32 \<Rightarrow> bool" where
  "unsplittable v \<longleftrightarrow> 2 ^ 31 - 2048 \<le> sint v"

lemma sint_of_small: "- (2 ^ 31) \<le> x \<Longrightarrow> x < 2 ^ 31 \<Longrightarrow> sint (word_of_int x :: u32) = x"
  by (simp add: signed_of_int signed_take_bit_int_eq_self)

lemma sint_32_bounds: "- (2 ^ 31) \<le> sint (v :: u32)" "sint (v :: u32) < 2 ^ 31"
  using sint_greater_eq [of v] sint_less [of v] by simp_all

lemma upper_ones_iff: "signed_drop_bit 12 d = (- 1 :: u32) \<longleftrightarrow> - 4096 \<le> sint d \<and> sint d < 0"
proof -
  have "signed_drop_bit 12 d = (- 1 :: u32) \<longleftrightarrow> sint (signed_drop_bit 12 d) = sint (- 1 :: u32)"
    by (rule word_eq_iff_signed)
  also have "\<dots> \<longleftrightarrow> sint d div 4096 = - 1"
    by (simp add: sint_signed_drop_bit_eq drop_bit_eq_div)
  also have "\<dots> \<longleftrightarrow> - 4096 \<le> sint d \<and> sint d < 0"
    using div_mult_mod_eq [of "sint d" 4096] pos_mod_bound [of 4096 "sint d"]
      pos_mod_sign [of 4096 "sint d"] by (intro iffI conjI) linarith+
  finally show ?thesis .
qed

lemma sdiv_4096: "x sdiv 4096 = (if 0 \<le> x then x div 4096 else - ((- x) div (4096 :: int)))"
  by (simp add: signed_divide_int_def sgn_if)

lemma sub_of_int: "(word_of_int x :: u32) - word_of_int y = word_of_int (x - y)"
  by simp

lemma bit_11_mod: "bit (v :: u32) 11 \<longleftrightarrow> 2048 \<le> sint v mod 4096"
proof -
  have "bit v 11 \<longleftrightarrow> bit (sint v) 11" by (simp add: bit_simps)
  also have "\<dots> \<longleftrightarrow> odd (sint v div 2048)" by (simp add: bit_iff_odd_drop_bit drop_bit_eq_div)
  also have "\<dots> \<longleftrightarrow> 2048 \<le> sint v mod 4096"
    using zmod_zmult2_eq [of 2 "sint v" 2048] pos_mod_bound [of 2048 "sint v"]
      pos_mod_sign [of 2048 "sint v"] by (cases "odd (sint v div 2048)") (simp_all add: odd_iff_mod_2_eq_one)
  finally show ?thesis .
qed

lemma split_value_accepts:
  assumes "bit v 11"
  shows "signed_drop_bit 12 (snd (split_value v)) = - 1 \<longleftrightarrow> \<not> unsplittable v"
proof -
  define g q r where "g = sint v" and "q = g div 4096" and "r = g mod 4096"
  have g: "g = 4096 * q + r" "0 \<le> r" "r < 4096" "2048 \<le> r"
    using assms by (simp_all add: q_def r_def g_def bit_11_mod)
  have v: "v = word_of_int g" by (simp add: g_def)
  have bounds: "- (2 ^ 31) \<le> g" "g < 2 ^ 31" unfolding g_def by (rule sint_32_bounds)+
  show ?thesis
  proof (cases "0 \<le> g")
    case False
    have "g sdiv 4096 = q + 1" using False g by (simp add: sdiv_4096)
    then have d: "v - word_of_int ((sint v sdiv 4096) * 4096) = word_of_int (r - 4096)"
      using g(1) by (subst v, unfold g_def [symmetric]) (simp only: sub_of_int, simp)
    have "sint (word_of_int (r - 4096) :: u32) = r - 4096" using g by (intro sint_of_small) simp_all
    with d have "sint (snd (split_value v)) = r - 4096" using g by (simp add: split_value_def Let_def)
    then show ?thesis using g False by (simp add: upper_ones_iff unsplittable_def g_def [symmetric])
  next
    case True
    have "g sdiv 4096 = q" using True by (simp add: sdiv_4096 q_def)
    then have d: "v - word_of_int ((sint v sdiv 4096) * 4096) = word_of_int r"
      using g(1) by (subst v, unfold g_def [symmetric]) (simp only: sub_of_int, simp)
    have "sint (word_of_int r :: u32) = r" using g by (intro sint_of_small) simp_all
    with d g have s: "snd (split_value v) = v - word_of_int ((sint (v + 4095) sdiv 4096) * 4096)"
      by (simp add: split_value_def Let_def)
    show ?thesis
    proof (cases "g + 4095 < 2 ^ 31")
      case fits: True
      have "sint (v + 4095) = g + 4095"
        using True fits by (subst v) (subst sint_of_small [symmetric], simp_all)
      moreover have "(g + 4095) sdiv 4096 = q + 1" using True g by (simp add: sdiv_4096)
      ultimately have "snd (split_value v) = word_of_int (r - 4096)"
        unfolding s using g(1) by (subst v) (simp only: sub_of_int, simp)
      moreover have "sint (word_of_int (r - 4096) :: u32) = r - 4096"
        using g by (intro sint_of_small) simp_all
      ultimately show ?thesis using g fits by (simp add: upper_ones_iff unsplittable_def g_def [symmetric])
    next
      case over: False
      have "q < 524288" "524286 < q" using over bounds g by simp_all
      then have q: "q = 0x7ffff" by simp
      have "v + 4095 = word_of_int (g + 4095 - 2 ^ 32)" by (subst v) simp
      moreover have "sint (word_of_int (g + 4095 - 2 ^ 32) :: u32) = g + 4095 - 2 ^ 32"
        using bounds over by (intro sint_of_small) simp_all
      ultimately have "sint (v + 4095) = g + 4095 - 2 ^ 32" by (simp only:)
      moreover have "(g + 4095 - 2 ^ 32) sdiv 4096 = - 0x7ffff" using q g by (simp add: sdiv_4096)
      ultimately have "snd (split_value v) = word_of_int (r - 8192 + 2 ^ 32)"
        unfolding s using g(1) q by (subst v) (simp only: sub_of_int, simp)
      also have "\<dots> = word_of_int (r - 8192)" by simp
      finally have "snd (split_value v) = word_of_int (r - 8192)" .
      moreover have "sint (word_of_int (r - 8192) :: u32) = r - 8192"
        using g by (intro sint_of_small) simp_all
      ultimately show ?thesis using g q by (simp add: upper_ones_iff unsplittable_def g_def [symmetric])
    qed
  qed
qed

lemma reg_code_outcome:
  "(unsplittable v \<longrightarrow> reg_code i v = Inl Assert_failed) \<and>
   (\<not> unsplittable v \<longrightarrow> (\<exists>w1 w2. reg_code i v = Inr [w1, w2]))"
proof (cases "bit v 11")
  case True
  obtain k d where kd: "split_value v = (k, d)" by (cases "split_value v")
  then have "k + d = v" using split_value_multiple [OF kd] by simp
  with True kd split_value_accepts [OF True] extractBit_iff [of v 11] show ?thesis
    by (auto simp: reg_code_def extractBit_def)
next
  case False
  have "\<not> unsplittable v"
  proof
    assume "unsplittable v"
    then obtain y where y: "sint v = 4096 * 524287 + y" "2048 \<le> y" "y < 4096"
      using sint_32_bounds(2) [of v] that [of "sint v - 4096 * 524287"] by (simp add: unsplittable_def)
    then have "sint v mod 4096 = y" by (simp only: mod_mult_self4) simp
    with False y(2) show False by (simp add: bit_11_mod)
  qed
  with False extractBit_iff [of v 11] show ?thesis by (simp add: reg_code_def extractBit_def)
qed

lemma in_reg_order: "r \<in> set reg_order \<longleftrightarrow> r \<noteq> 0"
proof
  assume "r \<noteq> 0"
  then have "0 < unat r" by (simp add: unat_gt_0)
  moreover have "unat r < 32" using unsigned_less [of r, where ?'a = nat] by simp
  moreover have "r = of_nat (unat r)" by simp
  ultimately show "r \<in> set reg_order"
    unfolding reg_order_def set_map set_upt by (metis (no_types) Suc_leI One_nat_def atLeastLessThan_iff image_eqI)
next
  assume "r \<in> set reg_order"
  then obtain n where n: "1 \<le> n" "n < 32" "r = of_nat n" by (auto simp: reg_order_def)
  then have "unat r = n" by (simp add: unat_of_nat)
  with n show "r \<noteq> 0" by auto
qed

lemma length_reg_order [simp]: "length reg_order = 31"
  by (simp add: reg_order_def)

lemma put_words_total:
  assumes "unat a + 4 * length ws \<le> 2 ^ 32"
  shows "\<exists>s'. put_words ws (s, a) = Inr (s', a + 4 * of_nat (length ws)) \<and> gpr s' = gpr s"
  using assms
proof (induction ws arbitrary: s a)
  case (Cons w ws)
  let ?s1 = "s\<lparr>mem := write_bytes (mem s) (unat a) (le_bytes 4 w)\<rparr>"
  have 1: "st_w32 s a w = Inr ?s1" using Cons.prems by (simp add: st_w32_def store_in in_mem_val)
  show ?case
  proof (cases ws)
    case Nil
    with 1 show ?thesis by simp
  next
    case (Cons w' ws')
    with Cons.prems have "unat (a + 4) = unat a + 4" by (simp add: unat_plus_4)
    then have "\<exists>s'. put_words ws (?s1, a + 4) = Inr (s', a + 4 + 4 * of_nat (length ws)) \<and> gpr s' = gpr ?s1"
      using Cons.prems by (intro Cons.IH) simp
    with 1 show ?thesis by (auto simp: algebra_simps)
  qed
qed simp

lemma emit_regs_outcome:
  assumes "unat a + 8 * length is < 2 ^ 32"
  shows "((\<exists>i \<in> set is. unsplittable (gpr s i)) \<longrightarrow> emit_regs is (s, a) = Inl Assert_failed) \<and>
    ((\<forall>i \<in> set is. \<not> unsplittable (gpr s i)) \<longrightarrow>
      (\<exists>s'. emit_regs is (s, a) = Inr (s', a + 8 * of_nat (length is)) \<and> gpr s' = gpr s))"
  using assms
proof (induction "is" arbitrary: s a)
  case (Cons i "is")
  show ?case
  proof (cases "unsplittable (gpr s i)")
    case True
    then show ?thesis using reg_code_outcome [of "gpr s i" i] by auto
  next
    case False
    then obtain w1 w2 where c: "reg_code i (gpr s i) = Inr [w1, w2]"
      using reg_code_outcome [of "gpr s i" i] by blast
    obtain s1 where s1: "put_words [w1, w2] (s, a) = Inr (s1, a + 4 * of_nat (length [w1, w2]))"
      "gpr s1 = gpr s"
      using put_words_total [of a "[w1, w2]" s] Cons.prems by auto
    have "unat (a + 8) = unat a + 8"
      using Cons.prems by (subst unat_add_lem [THEN iffD1]) simp_all
    with Cons.IH [of "a + 8" s1] Cons.prems False c s1 show ?thesis
      by (auto simp: algebra_simps simp del: put_words.simps)
  qed
qed simp

lemma exec_insn_ecall: "exec_insn 0x73 s = Inr (s\<lparr>brk := 1\<rparr>)"
  by (simp add: exec_insn_def opcode_of_def exec_system_def)

lemma register_code_emission:
  assumes "unat a + 764 \<le> 2 ^ 32"
  shows "if \<exists>r. r \<noteq> 0 \<and> unsplittable (gpr s r)
    then emitCodeForInitialRegisterValues s a = Inl Assert_failed
    else \<exists>s'. emitCodeForInitialRegisterValues s a = Inr s'"
proof (cases "\<exists>r. r \<noteq> 0 \<and> unsplittable (gpr s r)")
  case True
  then have "emit_regs reg_order (s, a) = Inl Assert_failed"
    using emit_regs_outcome [of a reg_order s] assms in_reg_order by auto
  with True show ?thesis by (simp add: emitCodeForInitialRegisterValues_def)
next
  case False
  then obtain s1 where s1: "emit_regs reg_order (s, a) = Inr (s1, a + 8 * of_nat (length reg_order))"
    using emit_regs_outcome [of a reg_order s] assms in_reg_order by auto
  have "unat (a + 8 * of_nat (length reg_order)) = unat a + 248"
    using assms by (simp, subst unat_add_lem [THEN iffD1]) simp_all
  then have "\<exists>s'. put_words (0x73 # replicate 128 0x13) (s1, a + 8 * of_nat (length reg_order)) =
      Inr (s', a + 8 * of_nat (length reg_order) + 4 * of_nat (length (0x73 # replicate 128 (0x13 :: u32)))) \<and>
      gpr s' = gpr s1"
    using assms by (intro put_words_total) simp
  with False s1 show ?thesis by (auto simp: emitCodeForInitialRegisterValues_def simp del: put_words.simps)
qed

text \<open>
  C36. The register code. With room for its 191 words, emission succeeds exactly when no
  register other than register 0 holds one of the 2048 values from \<open>2 ^ 31 - 2048\<close> on, for
  which rounding up overflows and the assertion on the difference fails.
\<close>

theorem register_code_outcome:
  assumes "unat a + 764 \<le> 2 ^ 32"
  shows "if \<exists>r. r \<noteq> 0 \<and> unsplittable (gpr s r)
    then emitCodeForInitialRegisterValues s a = Inl Assert_failed
    else \<exists>s'. emitCodeForInitialRegisterValues s a = Inr s'"
  using assms by (rule register_code_emission)

text \<open>Emission as one run of stores: two words per register, the trap, 128 no-ops.\<close>

lemma emit_words:
  assumes emit: "emitCodeForInitialRegisterValues s a = Inr s1"
  obtains ws a' where "code_of reg_order (gpr s) = Inr ws" and "length ws = 62"
    and "put_words (ws @ 0x73 # replicate 128 0x13) (s, a) = Inr (s1, a')"
proof -
  from emit obtain c a' where c: "emit_regs reg_order (s, a) = Inr c"
    and tail: "put_words (0x73 # replicate 128 0x13) c = Inr (s1, a')"
    by (auto simp: emitCodeForInitialRegisterValues_def bind_r_eq_Inr_iff simp del: put_words.simps)
  from emit_regs_code [OF c] obtain ws where ws: "code_of reg_order (gpr s) = Inr ws"
    and p: "put_words ws (s, a) = Inr c" by blast
  have "length ws = 2 * length is" if "code_of is g = Inr ws" for "is" g ws
    using that
  proof (induction "is" arbitrary: ws)
    case (Cons i "is")
    then show ?case using reg_code_outcome [of "g i" i] by (auto simp: bind_r_eq_Inr_iff)
  qed simp
  from this [OF ws] have "length ws = 62" by simp
  moreover from p tail have "put_words (ws @ 0x73 # replicate 128 0x13) (s, a) = Inr (s1, a')"
    by (auto simp: put_words_append simp del: put_words.simps)
  ultimately show thesis using ws that by blast
qed

text \<open>
  C19. What the register code does. After emission at \<open>a\<close>, a machine with that memory, any
  register file and \<open>pc = a\<close> executes 63 instructions and then has every register other
  than register 0 at the value the checkpoint holds, register 0 untouched, \<open>brk\<close> set and the
  memory and the host unchanged, provided no host request is pending.
\<close>

theorem register_code_restores:
  assumes emit: "emitCodeForInitialRegisterValues s a = Inr s1" and room: "unat a + 764 \<le> 2 ^ 32"
    and quiet: "tohost_word g s1 = Inr 0" and start: "mem s0 = mem s1" "pc s0 = a"
  shows "\<exists>s'. run h g 63 (w, s0) = Inr (w, s') \<and> (\<forall>r. gpr s' r = (if r = 0 then gpr s0 0 else gpr s r)) \<and>
    mem s' = mem s1 \<and> brk s' = 1"
proof -
  obtain ws a' where ws: "code_of reg_order (gpr s) = Inr ws" and len: "length ws = 62"
    and all: "put_words (ws @ 0x73 # replicate 128 0x13) (s, a) = Inr (s1, a')"
    using emit_words [OF emit] by blast
  let ?code = "ws @ 0x73 # replicate 128 0x13"
  have at: "code_at (mem s1) (unat a) ?code"
    by (rule put_words_code_at [OF all]) (use room len in simp)
  then have at1: "code_at (mem s0) (unat (pc s0)) ws"
    and last: "mem_r32 (mem s1) (unat a + 248) = Inr 0x73"
    using start len by (simp_all add: code_at_append code_at_Cons)
  have q0: "tohost_word g s0 = Inr 0" using quiet tohost_word_mem [OF start(1)] by simp
  have "\<exists>s2. run h g (2 * length reg_order) (w, s0) = Inr (w, s2) \<and>
    gpr s2 = (\<lambda>r. if r \<in> set reg_order then gpr s r else gpr s0 r) \<and> mem s2 = mem s0 \<and>
    pc s2 = pc s0 + of_nat (8 * length reg_order) \<and> length ws = 2 * length reg_order"
    using room start in_reg_order by (intro regs_run [OF ws _ at1 q0]) simp_all
  then obtain s2 where s2: "run h g 62 (w, s0) = Inr (w, s2)"
    "gpr s2 = (\<lambda>r. if r \<noteq> 0 then gpr s r else gpr s0 r)" "mem s2 = mem s1" "pc s2 = a + 248"
    using start by (auto simp: in_reg_order)
  have "unat (pc s2) = unat a + 248"
    unfolding s2(4) using room by (subst unat_add_lem [THEN iffD1]) simp_all
  then have "mem_r32 (mem s2) (unat (pc s2)) = Inr 0x73" using last s2(3) by simp
  moreover have "tohost_word g s2 = Inr 0" using quiet tohost_word_mem [OF s2(3)] by simp
  ultimately have "execRiscv h g w s2 =
      Inr (w, s2\<lparr>brk := 1, last_pc := pc s2, icnt := icnt s2 + 1\<rparr>)"
    by (simp add: execRiscv_quiet exec_insn_ecall)
  moreover have "run h g (62 + 1) (w, s0) = bind_r (run h g 62 (w, s0)) (run h g 1)"
    by (rule run_append)
  ultimately show ?thesis using s2 by simp
qed

lemma put_words_elsewhere:
  assumes "put_words ws (s, a) = Inr (s', a')" and "unat a + 4 * length ws \<le> 2 ^ 32"
    and "i < unat a \<or> unat a + 4 * length ws \<le> i"
  shows "mem s' i = mem s i"
  using assms
proof (induction ws arbitrary: s a)
  case (Cons w ws)
  from Cons.prems(1) have m: "in_mem (unat a) 4"
    and p: "put_words ws (s\<lparr>mem := write_bytes (mem s) (unat a) (le_bytes 4 w)\<rparr>, a + 4) = Inr (s', a')"
    by (auto simp: st_w32_def bind_r_assoc bind_r_eq_Inr_iff store_eq_Inr_iff)
  show ?case
  proof (cases ws)
    case Nil
    with p Cons.prems(3) show ?thesis by (auto simp: write_bytes_out)
  next
    case (Cons w' ws')
    with Cons.prems(2) have "unat (a + 4) = unat a + 4" by (simp add: unat_plus_4)
    with Cons.IH [OF p] Cons.prems(2,3) show ?thesis by (auto simp: write_bytes_out)
  qed
qed simp

text \<open>An example: the registers of a checkpoint, rebuilt by code at 0x1000.\<close>

definition checkpoint_demo :: state_t where
  "checkpoint_demo = set_gpr (set_gpr initState 5 0xdeadbeef) 7 42"

lemma checkpoint_demo_splittable: "r \<noteq> 0 \<Longrightarrow> \<not> unsplittable (gpr checkpoint_demo r)"
  by (simp add: checkpoint_demo_def initState_def unsplittable_def)

theorem register_code_outcome_witness:
  "(\<exists>s'. emitCodeForInitialRegisterValues checkpoint_demo 0x1000 = Inr s') \<and>
   emitCodeForInitialRegisterValues (set_gpr initState 5 0x7fffffff) 0x1000 = Inl Assert_failed"
proof -
  have "unsplittable (gpr (set_gpr initState 5 0x7fffffff) 5)" by (simp add: unsplittable_def)
  then have bad: "\<exists>r. r \<noteq> 0 \<and> unsplittable (gpr (set_gpr initState 5 0x7fffffff) r)"
    by (intro exI [of _ 5]) simp
  have good: "\<not> (\<exists>r. r \<noteq> 0 \<and> unsplittable (gpr checkpoint_demo r))"
    using checkpoint_demo_splittable by blast
  show ?thesis
    using register_code_outcome [of "0x1000" "set_gpr initState 5 0x7fffffff", unfolded if_P [OF bad]]
      register_code_outcome [of "0x1000" checkpoint_demo, unfolded if_not_P [OF good]] by simp
qed

theorem register_code_restores_witness:
  "\<exists>s1 s'. emitCodeForInitialRegisterValues checkpoint_demo 0x1000 = Inr s1 \<and>
    run echo_host example_globals 63 ([], s1\<lparr>pc := 0x1000, gpr := \<lambda>_. 0\<rparr>) = Inr ([], s') \<and>
    gpr s' 5 = 0xdeadbeef \<and> gpr s' 7 = 42 \<and> gpr s' 0 = 0"
proof -
  obtain s0 where "emit_regs reg_order (checkpoint_demo, 0x1000) = Inr (s0, 0x1000 + 8 * of_nat (length reg_order))"
    using emit_regs_outcome [of "0x1000" reg_order checkpoint_demo] checkpoint_demo_splittable in_reg_order
    by auto
  moreover have "\<exists>s'. put_words (0x73 # replicate 128 0x13) (s0, 0x10f8) =
      Inr (s', 0x10f8 + 4 * of_nat (length (0x73 # replicate 128 (0x13 :: u32)))) \<and> gpr s' = gpr s0"
    by (rule put_words_total) simp
  ultimately obtain s1 where e: "emitCodeForInitialRegisterValues checkpoint_demo 0x1000 = Inr s1"
    by (auto simp: emitCodeForInitialRegisterValues_def simp del: put_words.simps)
  obtain ws a' where l: "length ws = 62"
    and p: "put_words (ws @ 0x73 # replicate 128 0x13) (checkpoint_demo, 0x1000) = Inr (s1, a')"
    using emit_words [OF e] by blast
  have "mem s1 i = 0" if "0x8000 \<le> i" for i
    using put_words_elsewhere [OF p, of i] that l
    by (simp add: checkpoint_demo_def initState_def mmap4G_def set_gpr_def)
  then have "read_bytes (mem s1) 0x8000 8 = replicate 8 0"
    by (intro nth_equalityI) (simp_all add: read_bytes_nth)
  then have "mem_r64 (mem s1) 0x8000 = Inr 0"
    by (simp add: load_def in_mem_val)
  then have q: "tohost_word example_globals s1 = Inr 0"
    by (simp add: tohost_word_def example_globals_sel)
  show ?thesis
    using register_code_restores [OF e _ q, of "s1\<lparr>pc := 0x1000, gpr := \<lambda>_. 0\<rparr>" echo_host "[]"] e
    by (auto simp: checkpoint_demo_def initState_def)
qed

end
