(* ===== verification/Load_Elf.thy ===== *)
theory Load_Elf
  imports Exec
begin

text \<open>
  \<open>loadelf.cc\<close>: loading an ELF32 little-endian RISC-V executable into the guest's memory,
  recording its symbols, and placing the boot ROM at 0x1000. The structures are those of
  \<open>elf.h\<close> (\<open>osx_elf.h\<close> in the repository).

  The file is mapped, so it is the list of its bytes, followed by zeros up to the end of its
  last page; a read beyond that is the failure \<open>Bad_access\<close>. A structure is read as a whole.
\<close>

unbundle bit_operations_syntax

section \<open>The mapped file\<close>

definition map_len :: "u8 list \<Rightarrow> nat" where
  "map_len bs = (length bs + 4095) div 4096 * 4096"

definition file_byte :: "u8 list \<Rightarrow> nat \<Rightarrow> u8" where
  "file_byte bs i = (if i < length bs then bs ! i else 0)"

definition file_bytes :: "u8 list \<Rightarrow> nat \<Rightarrow> nat \<Rightarrow> failure + u8 list" where
  "file_bytes bs off n =
    (if off + n \<le> map_len bs then Inr (map (file_byte bs) [off..<off + n]) else Inl (Bad_access off))"

definition file_word :: "nat \<Rightarrow> u8 list \<Rightarrow> nat \<Rightarrow> failure + 'a::len word" where
  "file_word n bs off = bind_r (file_bytes bs off n) (\<lambda>b. Inr (le_word b))"

section \<open>The structures of elf.h\<close>

record Elf32_Ehdr =
  e_ident :: "u8 list"
  e_type :: u16
  e_machine :: u16
  e_version :: u32
  e_entry :: u32
  e_phoff :: u32
  e_shoff :: u32
  e_flags :: u32
  e_ehsize :: u16
  e_phentsize :: u16
  e_phnum :: u16
  e_shentsize :: u16
  e_shnum :: u16
  e_shstrndx :: u16

record Elf32_Phdr =
  p_type :: u32
  p_offset :: u32
  p_vaddr :: u32
  p_paddr :: u32
  p_filesz :: u32
  p_memsz :: u32
  p_flags :: u32
  p_align :: u32

record Elf32_Shdr =
  sh_name :: u32
  sh_type :: u32
  sh_flags :: u32
  sh_addr :: u32
  sh_offset :: u32
  sh_size :: u32
  sh_link :: u32
  sh_info :: u32
  sh_addralign :: u32
  sh_entsize :: u32

record Elf32_Sym =
  st_name :: u32
  st_value :: u32
  st_size :: u32
  st_info :: u8
  st_other :: u8
  st_shndx :: u16

abbreviation w8 :: "u8 list \<Rightarrow> nat \<Rightarrow> u8" where "w8 b i \<equiv> le_word (take 1 (drop i b))"
abbreviation w16 :: "u8 list \<Rightarrow> nat \<Rightarrow> u16" where "w16 b i \<equiv> le_word (take 2 (drop i b))"
abbreviation w32 :: "u8 list \<Rightarrow> nat \<Rightarrow> u32" where "w32 b i \<equiv> le_word (take 4 (drop i b))"

definition read_ehdr :: "u8 list \<Rightarrow> failure + Elf32_Ehdr" where
  "read_ehdr bs = bind_r (file_bytes bs 0 52) (\<lambda>b. Inr
     \<lparr>e_ident = take 16 b, e_type = w16 b 16, e_machine = w16 b 18, e_version = w32 b 20,
      e_entry = w32 b 24, e_phoff = w32 b 28, e_shoff = w32 b 32, e_flags = w32 b 36,
      e_ehsize = w16 b 40, e_phentsize = w16 b 42, e_phnum = w16 b 44, e_shentsize = w16 b 46,
      e_shnum = w16 b 48, e_shstrndx = w16 b 50\<rparr>)"

definition read_phdr :: "u8 list \<Rightarrow> nat \<Rightarrow> failure + Elf32_Phdr" where
  "read_phdr bs off = bind_r (file_bytes bs off 32) (\<lambda>b. Inr
     \<lparr>p_type = w32 b 0, p_offset = w32 b 4, p_vaddr = w32 b 8, p_paddr = w32 b 12,
      p_filesz = w32 b 16, p_memsz = w32 b 20, p_flags = w32 b 24, p_align = w32 b 28\<rparr>)"

definition read_shdr :: "u8 list \<Rightarrow> nat \<Rightarrow> failure + Elf32_Shdr" where
  "read_shdr bs off = bind_r (file_bytes bs off 40) (\<lambda>b. Inr
     \<lparr>sh_name = w32 b 0, sh_type = w32 b 4, sh_flags = w32 b 8, sh_addr = w32 b 12,
      sh_offset = w32 b 16, sh_size = w32 b 20, sh_link = w32 b 24, sh_info = w32 b 28,
      sh_addralign = w32 b 32, sh_entsize = w32 b 36\<rparr>)"

definition read_sym :: "u8 list \<Rightarrow> nat \<Rightarrow> failure + Elf32_Sym" where
  "read_sym bs off = bind_r (file_bytes bs off 16) (\<lambda>b. Inr
     \<lparr>st_name = w32 b 0, st_value = w32 b 4, st_size = w32 b 8, st_info = w8 b 12,
      st_other = w8 b 13, st_shndx = w16 b 14\<rparr>)"

section \<open>Checks of the header\<close>

definition EI_CLASS :: nat where "EI_CLASS = 4"
definition EI_DATA :: nat where "EI_DATA = 5"
definition ELFCLASS32 :: u8 where "ELFCLASS32 = 1"
definition ELFDATA2LSB :: u8 where "ELFDATA2LSB = 1"
definition ELFDATA2MSB :: u8 where "ELFDATA2MSB = 2"
definition SHT_PROGBITS :: u32 where "SHT_PROGBITS = 1"
definition SHT_NOBITS :: u32 where "SHT_NOBITS = 8"

definition magicArr :: "u8 list" where
  "magicArr = [0x7f, 0x45, 0x4c, 0x46]"

definition checkElf :: "Elf32_Ehdr \<Rightarrow> bool" where
  "checkElf eh = (take 4 (e_ident eh) = magicArr)"

definition check32Bit :: "Elf32_Ehdr \<Rightarrow> bool" where
  "check32Bit eh = (e_ident eh ! EI_CLASS = ELFCLASS32)"

definition checkBigEndian :: "Elf32_Ehdr \<Rightarrow> bool" where
  "checkBigEndian eh = (e_ident eh ! EI_DATA = ELFDATA2MSB)"

definition checkLittleEndian :: "Elf32_Ehdr \<Rightarrow> bool" where
  "checkLittleEndian eh = (e_ident eh ! EI_DATA = ELFDATA2LSB)"

text \<open>The checks in the order of the code: three exits and an assertion.\<close>

definition check_header :: "Elf32_Ehdr \<Rightarrow> failure + unit" where
  "check_header eh =
    (if \<not> checkElf eh then Inl (Exit_called (- 1))
     else if \<not> check32Bit eh then Inl (Exit_called (- 1))
     else bind_r (assert_r (checkLittleEndian eh)) (\<lambda>_.
       if e_machine eh \<noteq> 243 then Inl (Exit_called (- 1)) else Inr ()))"

section \<open>Segments\<close>

text \<open>
  Sizes and the file offset are \<open>int32_t\<close> variables: a size of \<open>2 ^ 31\<close> or more is negative
  and becomes a huge \<open>size_t\<close>, and such an offset points before the file.
\<close>

definition size_of_int :: "u32 \<Rightarrow> nat" where
  "size_of_int x = unat (scast x :: u64)"

definition memset_zero :: "mem \<Rightarrow> nat \<Rightarrow> nat \<Rightarrow> failure + mem" where
  "memset_zero m a n =
    (if in_mem a n then Inr (\<lambda>i. if a \<le> i \<and> i < a + n then 0 else m i) else Inl (Bad_access a))"

definition load_segment :: "u8 list \<Rightarrow> mem \<Rightarrow> Elf32_Phdr \<Rightarrow> failure + mem" where
  "load_segment bs m ph =
    (if p_type ph = SHT_PROGBITS \<and> p_memsz ph \<noteq> 0 then
       bind_r (memset_zero m (unat (p_vaddr ph)) (size_of_int (p_memsz ph))) (\<lambda>m1.
       if p_filesz ph = 0 then Inr m1
       else if sint (p_offset ph) < 0 then Inl (Bad_access (unat (p_offset ph)))
       else bind_r (file_bytes bs (unat (p_offset ph)) (size_of_int (p_filesz ph)))
              (copy_in m1 (unat (p_vaddr ph))))
     else Inr m)"

fun load_segments :: "u8 list \<Rightarrow> nat \<Rightarrow> nat \<Rightarrow> mem \<Rightarrow> failure + mem" where
  "load_segments bs 0 off m = Inr m"
| "load_segments bs (Suc n) off m =
     bind_r (read_phdr bs off) (\<lambda>ph.
     bind_r (load_segment bs m ph) (load_segments bs n (off + 32)))"

section \<open>Sections and symbols\<close>

text \<open>\<open>strcmp\<close> of a string in the file with a literal: it stops at the first difference.\<close>

fun file_strcmp :: "u8 list \<Rightarrow> nat \<Rightarrow> string \<Rightarrow> failure + bool" where
  "file_strcmp bs off [] = bind_r (file_word 1 bs off) (\<lambda>b :: u8. Inr (b = 0))"
| "file_strcmp bs off (c # cs) = bind_r (file_word 1 bs off) (\<lambda>b :: u8.
     if b = of_nat (of_char c) then file_strcmp bs (off + 1) cs else Inr False)"

text \<open>The string constructed from a C string: the bytes up to the first zero.\<close>

fun until_zero :: "u8 list \<Rightarrow> string option" where
  "until_zero [] = None"
| "until_zero (b # bs) =
     (if b = 0 then Some [] else map_option (Cons (char_of (unat b))) (until_zero bs))"

definition file_string :: "u8 list \<Rightarrow> nat \<Rightarrow> failure + string" where
  "file_string bs off = (case until_zero (map (file_byte bs) [off..<map_len bs]) of
     None \<Rightarrow> Inl (Bad_access off) | Some s \<Rightarrow> Inr s)"

text \<open>The scan for the string and symbol tables; the last section of each name wins.\<close>

fun scan_sections ::
    "u8 list \<Rightarrow> nat \<Rightarrow> nat \<Rightarrow> nat \<Rightarrow> nat \<Rightarrow> nat \<times> nat \<Rightarrow> failure + nat \<times> nat" where
  "scan_sections bs shstrtab shoff 0 i idx = Inr idx"
| "scan_sections bs shstrtab shoff (Suc n) i (strtabidx, symtabidx) =
     bind_r (read_shdr bs (shoff + 40 * i)) (\<lambda>sh.
       if sh_type sh AND SHT_NOBITS \<noteq> 0
       then scan_sections bs shstrtab shoff n (i + 1) (strtabidx, symtabidx)
       else
         bind_r (file_strcmp bs (shstrtab + unat (sh_name sh)) ''.strtab'') (\<lambda>is_str.
         bind_r (file_strcmp bs (shstrtab + unat (sh_name sh)) ''.symtab'') (\<lambda>is_sym.
         scan_sections bs shstrtab shoff n (i + 1)
           (if is_str then i else strtabidx, if is_sym then i else symtabidx))))"

fun load_symbols ::
    "u8 list \<Rightarrow> nat \<Rightarrow> nat \<Rightarrow> nat \<Rightarrow> (string \<rightharpoonup> u32) \<Rightarrow> failure + (string \<rightharpoonup> u32)" where
  "load_symbols bs strtab symoff 0 tab = Inr tab"
| "load_symbols bs strtab symoff (Suc n) tab =
     bind_r (read_sym bs symoff) (\<lambda>sym.
     bind_r (file_string bs (strtab + unat (st_name sym))) (\<lambda>name.
     load_symbols bs strtab (symoff + 16) n (tab(name \<mapsto> st_value sym))))"

definition read_symtab ::
    "u8 list \<Rightarrow> nat \<Rightarrow> nat \<times> nat \<Rightarrow> (string \<rightharpoonup> u32) \<Rightarrow> failure + (string \<rightharpoonup> u32)" where
  "read_symtab bs shoff idx tab =
    (let (strtabidx, symtabidx) = idx in
     if strtabidx \<noteq> 0 \<and> symtabidx \<noteq> 0 then
       bind_r (read_shdr bs (shoff + 40 * strtabidx)) (\<lambda>str.
       bind_r (read_shdr bs (shoff + 40 * symtabidx)) (\<lambda>sym.
       load_symbols bs (unat (sh_offset str)) (unat (sh_offset sym)) (unat (sh_size sym) div 16) tab))
     else Inr tab)"

definition set_mailboxes :: "globals \<Rightarrow> globals" where
  "set_mailboxes g =
    (let g1 = (case symtab g ''tohost'' of Some a \<Rightarrow> g\<lparr>tohost_addr := a\<rparr> | None \<Rightarrow> g) in
     (case symtab g ''fromhost'' of Some a \<Rightarrow> g1\<lparr>fromhost_addr := a\<rparr> | None \<Rightarrow> g1))"

section \<open>The boot ROM\<close>

definition boot_rom :: "u32 \<Rightarrow> u32 list" where
  "boot_rom entry = [0x00000297, 0x02028593, 0xf1402573, 0x0182a283, 0x00028067, entry, entry]"

fun write_rom :: "mem \<Rightarrow> nat \<Rightarrow> u32 list \<Rightarrow> failure + mem" where
  "write_rom m a [] = Inr m"
| "write_rom m a (w # ws) = bind_r (mem_w32 m a w) (\<lambda>m1. write_rom m1 (a + 4) ws)"

section \<open>load_elf\<close>

definition load_elf :: "u8 list option \<Rightarrow> globals \<times> state_t \<Rightarrow> failure + globals \<times> state_t" where
  "load_elf file gs = (case file of
     None \<Rightarrow> Inl (Exit_called (- 1))
   | Some bs \<Rightarrow>
      (let (g, s) = gs in
       bind_r (read_ehdr bs) (\<lambda>eh.
       bind_r (check_header eh) (\<lambda>_.
       let shoff = unat (e_shoff eh) in
       bind_r (read_shdr bs (shoff + 40 * unat (e_shstrndx eh))) (\<lambda>strsec.
       bind_r (load_segments bs (unat (e_phnum eh)) (unat (e_phoff eh)) (mem s)) (\<lambda>m1.
       bind_r (scan_sections bs (unat (sh_offset strsec)) shoff (unat (e_shnum eh)) 0 (0, 0)) (\<lambda>idx.
       bind_r (read_symtab bs shoff idx (symtab g)) (\<lambda>tab.
       bind_r (write_rom m1 0x1000 (boot_rom (e_entry eh))) (\<lambda>m2.
       Inr (set_mailboxes (g\<lparr>symtab := tab\<rparr>), s\<lparr>mem := m2, pc := 0x1000\<rparr>))))))))))"

section \<open>Segments in memory\<close>

lemma file_bytes_length: "file_bytes bs off n = Inr b \<Longrightarrow> length b = n"
  by (auto simp: file_bytes_def split: if_splits)

lemma size_of_int_small:
  assumes "unat x < 2 ^ 31"
  shows "size_of_int x = unat x"
proof -
  have "bit x 31 \<longleftrightarrow> bit (unat x) 31" by (simp add: bit_simps)
  also have "\<not> \<dots>" using assms by (simp add: bit_iff_odd_drop_bit drop_bit_eq_div)
  finally have top: "\<not> bit x 31" .
  have "(scast x :: u64) = ucast x"
  proof (rule bit_word_eqI)
    fix n assume "n < LENGTH(64)"
    moreover have "n < 31 \<or> n = 31 \<or> 32 \<le> n" by linarith
    ultimately show "bit (scast x :: u64) n = bit (ucast x :: u64) n"
      using top by (auto simp: bit_simps bit_beyond min_def)
  qed
  moreover have "unat x < 2 ^ 64" using assms by simp
  ultimately show ?thesis by (simp add: size_of_int_def unsigned_ucast_eq take_bit_nat_eq_self)
qed

text \<open>
  A loaded segment. When loading a \<open>PT_LOAD\<close> entry succeeds and its file size is not
  larger than its memory size, the bytes of its memory range are the file's bytes followed by
  zeros, and no other byte of the guest's memory changes.
\<close>

theorem segment_contents:
  assumes "load_segment bs m ph = Inr m'" and "p_type ph = SHT_PROGBITS" and "unat (p_memsz ph) < 2 ^ 31"
    and "unat (p_filesz ph) \<le> unat (p_memsz ph)"
  shows "m' i = (if unat (p_vaddr ph) \<le> i \<and> i < unat (p_vaddr ph) + unat (p_memsz ph)
    then if i < unat (p_vaddr ph) + unat (p_filesz ph)
         then file_byte bs (unat (p_offset ph) + (i - unat (p_vaddr ph))) else 0
    else m i)"
proof -
  have sz: "size_of_int (p_memsz ph) = unat (p_memsz ph)" "size_of_int (p_filesz ph) = unat (p_filesz ph)"
    and le: "unat (p_filesz ph) \<le> unat (p_memsz ph)"
    using assms(3,4) by (auto intro!: size_of_int_small)
  show ?thesis
  proof (cases "p_filesz ph = 0")
    case True
    with assms(1,2) sz show ?thesis
      by (auto simp: load_segment_def memset_zero_def split: if_splits)
  next
    case False
    with assms(1,2) sz le show ?thesis
      by (auto simp: load_segment_def memset_zero_def file_bytes_def copy_in_def write_bytes_def
          split: if_splits)
  qed
qed

lemma segment_demo:
  "load_segment [1, 2, 3, 4] mmap4G
     \<lparr>p_type = 1, p_offset = 1, p_vaddr = 0x100, p_paddr = 0, p_filesz = 2, p_memsz = 8,
      p_flags = 5, p_align = 4\<rparr> =
   Inr (write_bytes (\<lambda>i. if 0x100 \<le> i \<and> i < 0x108 then 0 else mmap4G i) 0x100 [2, 3])"
  by (simp add: load_segment_def SHT_PROGBITS_def memset_zero_def size_of_int_small file_bytes_def
      map_len_def copy_in_def in_mem_val file_byte_def upt_conv_Cons)

theorem segment_contents_witness:
  "\<exists>m'. load_segment [1, 2, 3, 4] mmap4G
     \<lparr>p_type = 1, p_offset = 1, p_vaddr = 0x100, p_paddr = 0, p_filesz = 2, p_memsz = 8,
      p_flags = 5, p_align = 4\<rparr> = Inr m' \<and> m' 0x101 = 3 \<and> m' 0x102 = 0"
  using segment_contents [OF segment_demo, of "0x101"] segment_contents [OF segment_demo, of "0x102"]
    segment_demo by (simp add: SHT_PROGBITS_def file_byte_def)


section \<open>Booting\<close>

lemma boot_rom_encodes:
  "0x00000297 = encode (Auipc 5 0)" "0x02028593 = encode (AluImm ADDI 11 5 32)"
  "0x0182a283 = encode (Load LW 5 5 24)" "0x00028067 = encode (Jalr 0 5 0)"
  by (simp_all add: enc_u_def enc_i_def raw_of_utype_def raw_of_itype_def place_def)

lemma write_rom_words:
  assumes "write_rom m a ws = Inr m'"
  shows "ram.st_all 4 m a ws = Inr m'"
  using assms by (induction m a ws rule: write_rom.induct) (auto simp: bind_r_eq_Inr_iff)

lemma load_elf_boot:
  assumes "load_elf (Some bs) (g, s) = Inr (g', s')" and "read_ehdr bs = Inr eh"
  shows "pc s' = 0x1000 \<and> gpr s' = gpr s \<and>
    (\<forall>j < 7. mem_r32 (mem s') (0x1000 + 4 * j) = Inr (boot_rom (e_entry eh) ! j))"
proof -
  from assms obtain m1 where m: "write_rom m1 0x1000 (boot_rom (e_entry eh)) = Inr (mem s')"
    and s': "pc s' = 0x1000" "gpr s' = gpr s"
    by (auto simp: load_elf_def bind_r_eq_Inr_iff Let_def)
  have "mem_r32 (mem s') (0x1000 + 4 * j) = Inr (boot_rom (e_entry eh) ! j)" if "j < 7" for j
    by (rule ram.st_all_nth [OF write_rom_words [OF m]]) (use that in \<open>simp_all add: boot_rom_def\<close>)
  with s' show ?thesis by simp
qed

lemma exec_boot:
  "exec_insn 0x00000297 s = Inr (next_pc (set_gpr s 5 (pc s)))"
  "exec_insn 0x02028593 s = Inr (next_pc (set_gpr s 11 (gpr s 5 + 32)))"
  "exec_insn 0xf1402573 s = Inr (next_pc s)"
  "exec_insn 0x0182a283 s =
     bind_r (mem_r32 (mem s) (unat (gpr s 5 + 24))) (\<lambda>w. Inr (next_pc (set_gpr s 5 w)))"
  "exec_insn 0x00028067 s = Inr (s\<lparr>pc := gpr s 5 AND NOT 1\<rparr>)"
proof -
  show "exec_insn 0xf1402573 s = Inr (next_pc s)"
    by (simp add: exec_insn_def opcode_of_def exec_system_def)
  show "exec_insn 0x00000297 s = Inr (next_pc (set_gpr s 5 (pc s)))"
    unfolding boot_rom_encodes exec_auipc by (simp add: wr_def)
  show "exec_insn 0x02028593 s = Inr (next_pc (set_gpr s 11 (gpr s 5 + 32)))"
    unfolding boot_rom_encodes exec_alui by (simp add: wr_def)
  show "exec_insn 0x0182a283 s =
     bind_r (mem_r32 (mem s) (unat (gpr s 5 + 24))) (\<lambda>w. Inr (next_pc (set_gpr s 5 w)))"
    unfolding boot_rom_encodes exec_load by (simp add: wr_def eff_addr_def)
  show "exec_insn 0x00028067 s = Inr (s\<lparr>pc := gpr s 5 AND NOT 1\<rparr>)"
    by (simp add: exec_insn_def opcode_of_def exec_jalr_def jalr_of_def field_def sext_or_def)
qed

text \<open>
  C26. The boot ROM. After a load, with no host request pending, five instructions lead from
  0x1000 to the entry point of the file (its lowest bit cleared), having changed only
  register 5, which holds the entry point, and register 11, and no memory.
\<close>

theorem boot_reaches_entry:
  assumes load: "load_elf (Some bs) (g, s) = Inr (g', s')" and eh: "read_ehdr bs = Inr eh"
    and quiet: "tohost_word g' s' = Inr 0"
  shows "\<exists>s5. run h g' 5 (w, s') = Inr (w, s5) \<and> pc s5 = e_entry eh AND NOT 1 \<and>
    gpr s5 = (gpr s)(11 := 0x1020, 5 := e_entry eh) \<and> mem s5 = mem s'"
proof -
  note b = load_elf_boot [OF load eh]
  have rom: "mem_r32 (mem s') (0x1000 + 4 * j) = Inr (boot_rom (e_entry eh) ! j)" if "j < 7" for j
    using b that by blast
  have w: "mem_r32 (mem s') 0x1000 = Inr 0x00000297" "mem_r32 (mem s') 0x1004 = Inr 0x02028593"
    "mem_r32 (mem s') 0x1008 = Inr 0xf1402573" "mem_r32 (mem s') 0x100c = Inr 0x0182a283"
    "mem_r32 (mem s') 0x1010 = Inr 0x00028067" "mem_r32 (mem s') 0x1018 = Inr (e_entry eh)"
    using rom [of 0] rom [of 1] rom [of 2] rom [of 3] rom [of 4] rom [of 6]
    by (simp_all add: boot_rom_def)
  have q: "tohost_word g' t = Inr 0" if "mem t = mem s'" for t
    using quiet that by (simp add: tohost_word_def)
  have five: "(5 :: nat) = Suc (Suc (Suc (Suc (Suc 0))))" by simp
  show ?thesis
    unfolding five using b by (simp add: execRiscv_def w q exec_boot)
qed

text \<open>A smallest accepted file: a header with entry point 0x80000000 and nothing else.\<close>

definition demo_elf :: "u8 list" where
  "demo_elf = [0x7f, 0x45, 0x4c, 0x46, 1, 1, 1, 0, 0, 0, 0, 0, 0, 0, 0, 0,
     2, 0, 243, 0, 1, 0, 0, 0, 0, 0, 0, 0x80, 0, 0, 0, 0, 0, 0, 0, 0, 0, 0, 0, 0,
     52, 0, 32, 0, 0, 0, 40, 0, 0, 0, 0, 0]"

lemma demo_elf_header:
  "read_ehdr demo_elf = Inr
     \<lparr>e_ident = [0x7f, 0x45, 0x4c, 0x46, 1, 1, 1, 0, 0, 0, 0, 0, 0, 0, 0, 0],
      e_type = 2, e_machine = 243, e_version = 1, e_entry = 0x80000000, e_phoff = 0, e_shoff = 0,
      e_flags = 0, e_ehsize = 52, e_phentsize = 32, e_phnum = 0, e_shentsize = 40, e_shnum = 0,
      e_shstrndx = 0\<rparr>"
  by code_simp

lemma demo_elf_section: "\<exists>sh. read_shdr demo_elf 0 = Inr sh"
  by (simp add: read_shdr_def file_bytes_def demo_elf_def map_len_def)

lemma demo_elf_loads:
  "\<exists>m'. load_elf (Some demo_elf) (example_globals, initState) =
      Inr (example_globals, initState\<lparr>mem := m', pc := 0x1000\<rparr>) \<and> mem_r64 m' 0x8000 = Inr 0"
proof -
  obtain sh where "read_shdr demo_elf 0 = Inr sh" using demo_elf_section ..
  moreover have "example_globals\<lparr>symtab := \<lambda>_. None\<rparr> = example_globals"
    by (simp add: example_globals_def)
  ultimately show ?thesis
    by (simp add: load_elf_def demo_elf_header check_header_def checkElf_def magicArr_def check32Bit_def
        EI_CLASS_def ELFCLASS32_def checkLittleEndian_def EI_DATA_def ELFDATA2LSB_def read_symtab_def
        boot_rom_def store_in in_mem_val set_mailboxes_def example_globals_sel initState_def mmap4G_def
        load_write_disjoint load_zeros)
qed

theorem boot_reaches_entry_witness:
  "\<exists>s' s5. load_elf (Some demo_elf) (example_globals, initState) = Inr (example_globals, s') \<and>
    run echo_host example_globals 5 ([], s') = Inr ([], s5) \<and> pc s5 = 0x80000000"
proof -
  obtain m' where l: "load_elf (Some demo_elf) (example_globals, initState) =
      Inr (example_globals, initState\<lparr>mem := m', pc := 0x1000\<rparr>)" and m': "mem_r64 m' 0x8000 = Inr 0"
    using demo_elf_loads by blast
  have "tohost_word example_globals (initState\<lparr>mem := m', pc := 0x1000\<rparr>) = Inr 0"
    using m' by (simp add: tohost_word_def example_globals_sel)
  from boot_reaches_entry [OF l demo_elf_header this, of echo_host "[]"] l show ?thesis by auto
qed


section \<open>Symbols\<close>

text \<open>The names and values of a symbol table, in file order.\<close>

fun symbols :: "u8 list \<Rightarrow> nat \<Rightarrow> nat \<Rightarrow> nat \<Rightarrow> failure + (string \<times> u32) list" where
  "symbols bs strtab symoff 0 = Inr []"
| "symbols bs strtab symoff (Suc n) =
     bind_r (read_sym bs symoff) (\<lambda>sym.
     bind_r (file_string bs (strtab + unat (st_name sym))) (\<lambda>name.
     bind_r (symbols bs strtab (symoff + 16) n) (\<lambda>rest. Inr ((name, st_value sym) # rest))))"

text \<open>
  The symbol map. Reading a symbol table adds exactly the table's symbols to the map,
  the last entry of a name winning over earlier ones and over what the map held before.
\<close>

theorem load_symbols_map:
  "load_symbols bs strtab symoff n tab =
     bind_r (symbols bs strtab symoff n) (\<lambda>syms. Inr (tab ++ map_of (rev syms)))"
proof (induction n arbitrary: symoff tab)
  case 0
  then show ?case by simp
next
  case (Suc n)
  have "tab(k \<mapsto> v) ++ map_of (rev syms) = tab ++ map_of (rev ((k, v) # syms))" for k v syms
    by (simp add: map_add_assoc [symmetric])
  then show ?case
    by (simp only: load_symbols.simps symbols.simps Suc.IH bind_r_assoc bind_r_Inr)
qed

end
