(* ===== verification/Startup.thy ===== *)
theory Startup
  imports Cosimulation Save_State Load_Elf
begin

text \<open>
  What \<open>top.cc: main\<close> does before its loop: the argument vector (\<open>buildArgcArgv\<close>), the reset
  sequence (\<open>top.hh: reset_core\<close>), and the two ways to start, from an ELF file or from a
  checkpoint. A checkpoint starts by running the register code on the core, with its own loop
  serving the core's reads, and by comparing what the core retired with the registers of the
  checkpoint. Waiting loops whose end depends on the core return an option, \<open>None\<close> when they
  do not end.
\<close>

unbundle bit_operations_syntax

section \<open>Arguments\<close>

definition MARGS :: nat where
  "MARGS = 20"

definition space :: char where
  "space = CHR 0x20"

text \<open>All tokens \<open>strtok\<close> returns for the delimiter " ".\<close>

function strtok_all :: "string \<Rightarrow> string list" where
  "strtok_all s =
    (let t = dropWhile (\<lambda>c. c = space) s in
     if t = [] then []
     else takeWhile (\<lambda>c. c \<noteq> space) t # strtok_all (dropWhile (\<lambda>c. c \<noteq> space) t))"
  by pat_completeness auto
termination
proof (relation "measure length")
  fix s t :: string
  assume t: "t = dropWhile (\<lambda>c. c = space) s" and ne: "t \<noteq> []"
  then have "hd t \<noteq> space" using hd_dropWhile [of "\<lambda>c. c = space" s] by simp
  with ne have "length (dropWhile (\<lambda>c. c \<noteq> space) t) < length t"
    by (cases t) (auto simp: less_Suc_eq_le intro: length_dropWhile_le)
  also have "length t \<le> length s" using t by (simp add: length_dropWhile_le)
  finally show "(dropWhile (\<lambda>c. c \<noteq> space) t, s) \<in> measure length" by simp
qed simp

declare strtok_all.simps [simp del]

text \<open>The C string in a buffer ends at its first zero byte.\<close>

definition c_string :: "string \<Rightarrow> string" where
  "c_string s = takeWhile (\<lambda>c. c \<noteq> CHR 0x00) s"

definition buildArgcArgv :: "string \<Rightarrow> string option \<Rightarrow> nat \<times> string list" where
  "buildArgcArgv filename sysArgs =
    (let toks = (case sysArgs of None \<Rightarrow> [] | Some a \<Rightarrow> strtok_all (c_string a));
         args = c_string filename # take MARGS toks
     in (length args, args))"

section \<open>Reset\<close>

definition pulse :: "'r rtl \<Rightarrow> core_in \<Rightarrow> 'r \<Rightarrow> 'r" where
  "pulse v i r = eval v (i\<lparr>clk := False\<rparr>) (eval v (i\<lparr>clk := True\<rparr>) r)"

text \<open>The loop counts every pulse twice.\<close>

function reset_loop :: "'r rtl \<Rightarrow> u64 \<Rightarrow> core_in \<Rightarrow> 'r \<Rightarrow> u64 \<times> core_in \<times> 'r" where
  "reset_loop v c i r =
    (if c < 4 \<and> \<not> gotFinish v r then
       let i1 = i\<lparr>rsp_valid := False, monitor_ack := False, reset := True, extern_irq := False\<rparr> in
       reset_loop v (c + 1 + 1) i1 (pulse v i1 r)
     else (c, i, r))"
  by pat_completeness auto
termination
proof (relation "measure (\<lambda>(v, c, i, r). 4 - unat c)")
  fix v :: "'r rtl" and c :: u64 and i i1 r
  assume "c < 4 \<and> \<not> gotFinish v r"
  then have c: "unat c < 4" by (simp add: word_less_nat_alt)
  then have "unat (c + 2) = unat c + 2" by (subst unat_add_lem [THEN iffD1]) simp_all
  with c show "((v, c + 1 + 1, i1, pulse v i1 r), v, c, i, r) \<in> measure (\<lambda>(v, c, i, r). 4 - unat c)"
    by (simp add: add.assoc)
qed simp

declare reset_loop.simps [simp del]

partial_function (option) wait_ready :: "'r rtl \<Rightarrow> core_in \<Rightarrow> u64 \<Rightarrow> 'r \<Rightarrow> (u64 \<times> 'r) option" where
  "wait_ready v i c r =
    (if ready_for_resume (outs v r) then Some (c, r)
     else wait_ready v i (c + 1) (pulse v i r))"

definition reset_core :: "'r rtl \<Rightarrow> u64 \<Rightarrow> u32 \<Rightarrow> core_in \<Rightarrow> 'r \<Rightarrow> (u64 \<times> core_in \<times> 'r) option" where
  "reset_core v c init_pc i r =
    (let (c1, i1, r1) = reset_loop v c i r;
         i2 = i1\<lparr>reset := False\<rparr>;
         r2 = pulse v i2 r1;
         i3 = i2\<lparr>resume_pc := init_pc\<rparr>
     in case wait_ready v i3 c1 r2 of
          None \<Rightarrow> None
        | Some (c2, r3) \<Rightarrow>
            let r4 = pulse v (i3\<lparr>resume := True\<rparr>) r3; r5 = pulse v (i3\<lparr>resume := False\<rparr>) r4
            in Some (c2 + 1 + 1, i3\<lparr>resume := False\<rparr>, r5))"

section \<open>Registers from a checkpoint\<close>

record ckpt =
  ck_s :: state_t
  ck_in :: core_in
  ck_last_retire :: u64
  ck_last_pc :: u64
  ck_text :: string

text \<open>The core's reads are served from the memory of \<open>s\<close>; its writes are dropped.\<close>

definition serve_read :: "core_out \<Rightarrow> state_t \<Rightarrow> core_in \<Rightarrow> failure + core_in" where
  "serve_read c s i =
    (if mem_req_valid (req c)
     then bind_r (load_line 16 (mem s) (mem_req_addr (req c))) (\<lambda>ws.
       Inr (i\<lparr>rsp_load_data := ws, rsp_valid := True\<rparr>))
     else Inr (i\<lparr>rsp_valid := False\<rparr>))"

text \<open>The falling edge comes first here.\<close>

definition falling_rising :: "'r rtl \<Rightarrow> core_in \<Rightarrow> 'r \<Rightarrow> 'r" where
  "falling_rising v i r = eval v (i\<lparr>clk := True\<rparr>) (eval v (i\<lparr>clk := False\<rparr>) r)"

definition retire_registers :: "core_out \<Rightarrow> state_t \<Rightarrow> state_t" where
  "retire_registers c s =
    (let s1 = (if retire_reg_valid c then set_gpr s (retire_reg_ptr c) (retire_reg_data c) else s)
     in if retire_reg_two_valid c then set_gpr s1 (retire_reg_two_ptr c) (retire_reg_two_data c) else s1)"

text \<open>
  The trace, a line for each port: \<open>None\<close> when it is off, otherwise how texts are made and the
  cycle, which stands still here as the counts of instructions and requests do.
\<close>

definition trace_line :: "(printer \<times> u64) option \<Rightarrow> bool \<Rightarrow> string \<Rightarrow> u32 \<Rightarrow> state_t \<Rightarrow> failure + string" where
  "trace_line tr valid name p s = (case tr of
     Some (q, n) \<Rightarrow>
       if valid then bind_r (st_r32 s p) (\<lambda>insn. Inr (progress_text q name n 0 0 0 p insn)) else Inr ''''
   | None \<Rightarrow> Inr '''')"

definition ckpt_step :: "(printer \<times> u64) option \<Rightarrow> 'r rtl \<Rightarrow> 'r \<times> ckpt \<Rightarrow> failure + bool \<times> 'r \<times> ckpt" where
  "ckpt_step tr v x =
    (let (r, k) = x; should_break = got_break (outs v r) in
     bind_r (serve_read (outs v r) (ck_s k) (ck_in k)) (\<lambda>i.
     let r1 = falling_rising v i r; c = outs v r1; k1 = k\<lparr>ck_in := i\<rparr> in
     if should_break then Inr (True, r1, k1)
     else
       bind_r (trace_line tr (retire_valid c) ''port a'' (retire_pc c) (ck_s k1)) (\<lambda>ta.
       bind_r (trace_line tr (retire_two_valid c) ''port b'' (retire_two_pc c) (ck_s k1)) (\<lambda>tb.
       let k2 = k1\<lparr>ck_text := ck_text k1 @ ta @ tb, ck_s := retire_registers c (ck_s k1)\<rparr>;
           k3 = (if retire_valid c then k2\<lparr>ck_last_retire := 0, ck_last_pc := ucast (retire_pc c)\<rparr> else k2)
       in Inr (False, r1, k3\<lparr>ck_last_retire := ck_last_retire k3 + 1\<rparr>)))))"

partial_function (option) ckpt_loop ::
    "(printer \<times> u64) option \<Rightarrow> 'r rtl \<Rightarrow> 'r \<Rightarrow> ckpt \<Rightarrow> (failure + 'r \<times> ckpt) option" where
  "ckpt_loop tr v r k = (case ckpt_step tr v (r, k) of
     Inl e \<Rightarrow> Some (Inl e)
   | Inr p \<Rightarrow> if fst p then Some (Inr (snd p)) else ckpt_loop tr v (fst (snd p)) (snd (snd p)))"

text \<open>The additional cycles.\<close>

fun ckpt_idle :: "'r rtl \<Rightarrow> nat \<Rightarrow> 'r \<times> ckpt \<Rightarrow> failure + 'r \<times> ckpt" where
  "ckpt_idle v 0 x = Inr x"
| "ckpt_idle v (Suc n) (r, k) =
     bind_r (serve_read (outs v r) (ck_s k) (ck_in k)) (\<lambda>i.
     ckpt_idle v n (falling_rising v i r, k\<lparr>ck_in := i\<rparr>))"

fun check_registers :: "nat \<Rightarrow> (u5 \<Rightarrow> u32) \<Rightarrow> (u5 \<Rightarrow> u32) \<Rightarrow> failure + unit" where
  "check_registers 0 g g' = Inr ()"
| "check_registers (Suc n) g g' =
     bind_r (assert_r (g (of_nat (32 - Suc n)) = g' (of_nat (32 - Suc n)))) (\<lambda>_. check_registers n g g')"

section \<open>The two ways to start\<close>

definition bind_o :: "(failure + 'a) option \<Rightarrow> ('a \<Rightarrow> (failure + 'b) option) \<Rightarrow> (failure + 'b) option" where
  "bind_o x f = (case x of None \<Rightarrow> None | Some (Inl e) \<Rightarrow> Some (Inl e) | Some (Inr a) \<Rightarrow> f a)"

definition start_elf :: "u8 list option \<Rightarrow> globals \<Rightarrow> failure + globals \<times> state_t \<times> state_t" where
  "start_elf file g =
     bind_r (load_elf file (g, initState)) (\<lambda>(g1, s).
     bind_r (load_elf file (g1, initState)) (\<lambda>(g2, ss). Inr (g2, s, ss)))"

text \<open>The register code runs on the core; then both states are loaded from the checkpoint.\<close>

definition run_register_code ::
    "printer option \<Rightarrow> 'r rtl \<Rightarrow> core_in \<Rightarrow> state_t \<Rightarrow> 'r \<Rightarrow> (failure + u64 \<times> 'r \<times> ckpt) option" where
  "run_register_code tr v i s r =
     (case reset_core v 0 (pc s) i r of
        None \<Rightarrow> None
      | Some (c, i1, r1) \<Rightarrow>
          bind_o (ckpt_loop (map_option (\<lambda>q. (q, c)) tr) v r1
              \<lparr>ck_s = s, ck_in = i1, ck_last_retire = 0, ck_last_pc = 0, ck_text = ''''\<rparr>) (\<lambda>x.
          bind_o (Some (ckpt_idle v 128 x)) (\<lambda>(r2, k).
          bind_o (Some (check_registers 31 (gpr (ck_s k)) (gpr s))) (\<lambda>_. Some (Inr (c, r2, k))))))"

definition start_checkpoint ::
    "printer option \<Rightarrow> 'r rtl \<Rightarrow> core_in \<Rightarrow> u8 list option \<Rightarrow> 'r \<Rightarrow>
     (failure + u64 \<times> 'r \<times> ckpt \<times> state_t) option" where
  "start_checkpoint tr v i file r =
     bind_o (Some (loadState initState file)) (\<lambda>s.
     bind_o (Some (emitCodeForInitialRegisterValues s (pc s))) (\<lambda>s1.
     bind_o (run_register_code tr v i s1 r) (\<lambda>(c, r1, k).
     bind_o (Some (loadState (ck_s k) file)) (\<lambda>s2.
     bind_o (Some (loadState initState file)) (\<lambda>ss. Some (Inr (c, r1, k\<lparr>ck_s := s2\<rparr>, ss)))))))"

text \<open>The final reset, and the state the main loop starts from.\<close>

definition enter_loop ::
    "'r rtl \<Rightarrow> 'w \<Rightarrow> bool \<Rightarrow> u64 \<Rightarrow> 'r \<Rightarrow> ckpt \<Rightarrow> state_t \<Rightarrow> ('r \<times> core_in \<times> 'w harness) option" where
  "enter_loop v w trace c r k ss =
     (case reset_core v c (pc (ck_s k)) (ck_in k) r of
        None \<Rightarrow> None
      | Some (c1, i1, r1) \<Rightarrow> Some (r1, i1, (harness_init w (ck_s k) ss c1 trace)
          \<lparr>last_retire := ck_last_retire k, last_retired_pc := ck_last_pc k, console := ck_text k\<rparr>))"

section \<open>The argument vector\<close>

fun spaced :: "string list \<Rightarrow> string" where
  "spaced [] = ''''"
| "spaced (t # ts) = t @ space # spaced ts"

lemma strtok_all_spaced:
  "\<forall>t \<in> set ts. t \<noteq> [] \<and> space \<notin> set t \<Longrightarrow> strtok_all (spaced ts) = ts"
proof (induction ts)
  case Nil
  then show ?case by (subst strtok_all.simps) simp
next
  case (Cons t ts)
  then have "t \<noteq> []" and ns: "space \<notin> set t" by simp_all
  then have d: "dropWhile (\<lambda>c. c = space) (spaced (t # ts)) = spaced (t # ts)"
    by (cases t) auto
  have "takeWhile (\<lambda>c. c \<noteq> space) (t @ space # spaced ts) = t"
    and "dropWhile (\<lambda>c. c \<noteq> space) (t @ space # spaced ts) = space # spaced ts"
    using ns by (induction t) auto
  moreover have "strtok_all (space # spaced ts) = strtok_all (spaced ts)"
    by (subst (1 2) strtok_all.simps) simp
  ultimately show ?case
    using Cons d \<open>t \<noteq> []\<close> by (subst strtok_all.simps) (simp add: Let_def)
qed

lemma c_string_id: "CHR 0x00 \<notin> set s \<Longrightarrow> c_string s = s"
  unfolding c_string_def by (induction s) auto

lemma spaced_chars: "CHR 0x00 \<notin> set (spaced ts) \<longleftrightarrow> (\<forall>t \<in> set ts. CHR 0x00 \<notin> set t)"
  by (induction ts) (auto simp: space_def)

text \<open>
  The argument vector. Arguments that are non-empty and free of spaces and zero bytes,
  written one after the other with spaces, come back as the vector after the file name,
  cut to the first twenty; the count is the length of the vector.
\<close>

theorem argv_roundtrip:
  assumes "\<forall>t \<in> set ts. t \<noteq> [] \<and> space \<notin> set t \<and> CHR 0x00 \<notin> set t" and "CHR 0x00 \<notin> set f"
  shows "buildArgcArgv f (Some (spaced ts)) = (1 + min 20 (length ts), f # take 20 ts)"
  using assms strtok_all_spaced [of ts]
  by (simp add: buildArgcArgv_def Let_def c_string_id spaced_chars MARGS_def)

theorem argv_roundtrip_witness:
  "buildArgcArgv ''dhrystone'' (Some (''100 -v '')) = (3, [''dhrystone'', ''100'', ''-v''])"
  using argv_roundtrip [of "[''100'', ''-v'']" "''dhrystone''"] by (simp add: space_def)

section \<open>Reset and resume\<close>

text \<open>
  Reset pulses. The first reset, from cycle 0, holds the reset input for exactly two
  clock pulses and leaves the cycle counter at 4; a later one, from cycle 4 or more on, gives
  the core no reset at all.
\<close>

theorem reset_only_once:
  assumes "\<forall>r. \<not> gotFinish v r"
  shows "reset_loop v c i r =
    (let i1 = i\<lparr>rsp_valid := False, monitor_ack := False, reset := True, extern_irq := False\<rparr> in
     if c < 2 then (c + 4, i1, pulse v i1 (pulse v i1 r))
     else if c < 4 then (c + 2, i1, pulse v i1 r)
     else (c, i, r))"
proof -
  let ?i = "i\<lparr>rsp_valid := False, monitor_ack := False, reset := True, extern_irq := False\<rparr>"
  have ge: "reset_loop v d j q = (d, j, q)" if "\<not> d < 4" for d :: u64 and j q
    using that by (subst reset_loop.simps) simp
  have lt: "reset_loop v d j q = reset_loop v (d + 2) ?i (pulse v ?i q)" if "d < 4" "j = i \<or> j = ?i"
    for d :: u64 and j q
    using that assms by (subst reset_loop.simps) (auto simp: Let_def add.assoc)
  have u: "unat (d + 2) = unat d + 2" if "unat d < 4" for d :: u64
    using that by (subst unat_add_lem [THEN iffD1]) simp_all
  consider "c < 2" | "\<not> c < 2" "c < 4" | "\<not> c < 4" by blast
  then show ?thesis
  proof cases
    case 1
    then have c: "unat c < 2" by (simp add: word_less_nat_alt)
    then have "unat (c + 2) = unat c + 2" "unat (c + 2 + 2) = unat c + 4" using u [of c] u [of "c + 2"] by simp_all
    with c have "c < 4" "c + 2 < 4" "\<not> c + 2 + 2 < 4" by (simp_all add: word_less_nat_alt)
    with 1 show ?thesis by (simp add: lt ge Let_def add.assoc)
  next
    case 2
    then have "unat c < 4" by (simp add: word_less_nat_alt)
    then have "\<not> c + 2 < 4" using u [of c] 2 by (simp add: word_less_nat_alt)
    with 2 show ?thesis by (simp add: lt ge Let_def)
  next
    case 3
    then have "\<not> c < 2" by (simp add: word_less_nat_alt)
    with 3 show ?thesis by (simp add: ge)
  qed
qed

theorem reset_only_once_witness:
  "reset_loop dead_core 0 i () = (4, i\<lparr>rsp_valid := False, monitor_ack := False, reset := True, extern_irq := False\<rparr>, ()) \<and>
   reset_loop dead_core 7 i () = (7, i, ())"
  using reset_only_once [of dead_core 0 i "()"] reset_only_once [of dead_core 7 i "()"]
  by (simp add: dead_core_def pulse_def Let_def word_less_nat_alt)

lemma wait_ready_Some:
  assumes ret: "wait_ready v i c r = Some x"
  shows "\<exists>n. x = (c + of_nat n, (pulse v i ^^ n) r) \<and> ready_for_resume (outs v ((pulse v i ^^ n) r)) \<and>
    (\<forall>m < n. \<not> ready_for_resume (outs v ((pulse v i ^^ m) r)))"
proof (rule wait_ready.raw_induct [where P = "\<lambda>v i c r x. \<exists>n. x = (c + of_nat n, (pulse v i ^^ n) r) \<and>
    ready_for_resume (outs v ((pulse v i ^^ n) r)) \<and>
    (\<forall>m < n. \<not> ready_for_resume (outs v ((pulse v i ^^ m) r)))", OF _ ret])
  fix f and v :: "'a rtl" and i and c :: u64 and r x
  assume IH: "\<And>v i c r x. f v i c r = Some x \<Longrightarrow> \<exists>n. x = (c + of_nat n, (pulse v i ^^ n) r) \<and>
      ready_for_resume (outs v ((pulse v i ^^ n) r)) \<and>
      (\<forall>m < n. \<not> ready_for_resume (outs v ((pulse v i ^^ m) r)))"
    and eq: "(if ready_for_resume (outs v r) then Some (c, r) else f v i (c + 1) (pulse v i r)) = Some x"
  show "\<exists>n. x = (c + of_nat n, (pulse v i ^^ n) r) \<and> ready_for_resume (outs v ((pulse v i ^^ n) r)) \<and>
      (\<forall>m < n. \<not> ready_for_resume (outs v ((pulse v i ^^ m) r)))"
  proof (cases "ready_for_resume (outs v r)")
    case True
    with eq show ?thesis by (intro exI [of _ 0]) simp
  next
    case False
    with eq IH obtain n where n: "x = (c + 1 + of_nat n, (pulse v i ^^ n) (pulse v i r))"
      "ready_for_resume (outs v ((pulse v i ^^ n) (pulse v i r)))"
      "\<forall>m < n. \<not> ready_for_resume (outs v ((pulse v i ^^ m) (pulse v i r)))"
      by (auto dest!: IH)
    have "\<not> ready_for_resume (outs v ((pulse v i ^^ m) r))" if "m < Suc n" for m
      using that n(3) False by (cases m) (auto simp: funpow_Suc_right simp del: funpow.simps)
    with n show ?thesis
      by (intro exI [of _ "Suc n"]) (auto simp: funpow_Suc_right simp del: funpow.simps)
  qed
qed

lemma wait_ready_returns:
  "ready_for_resume (outs v ((pulse v i ^^ n) r)) \<Longrightarrow> \<exists>x. wait_ready v i c r = Some x"
proof (induction n arbitrary: c r)
  case 0
  then show ?case by (subst wait_ready.simps) simp
next
  case (Suc n)
  then have "ready_for_resume (outs v ((pulse v i ^^ n) (pulse v i r)))"
    by (simp add: funpow_Suc_right del: funpow.simps)
  from Suc.IH [OF this] show ?case by (subst wait_ready.simps) simp
qed

text \<open>
  Waiting for the core. The wait before resuming ends exactly when the core becomes ready
  after some number of clock pulses; it then has applied the least such number of pulses and
  counted as many cycles.
\<close>

theorem wait_ready_spec:
  "(wait_ready v i c r = None) = (\<nexists>n. ready_for_resume (outs v ((pulse v i ^^ n) r))) \<and>
   (wait_ready v i c r = Some x) = (\<exists>n. x = (c + of_nat n, (pulse v i ^^ n) r) \<and>
     n = (LEAST n. ready_for_resume (outs v ((pulse v i ^^ n) r))) \<and>
     ready_for_resume (outs v ((pulse v i ^^ n) r)))"
proof -
  let ?R = "\<lambda>n. ready_for_resume (outs v ((pulse v i ^^ n) r))"
  have least: "n = (LEAST n. ?R n)" if "?R n" "\<forall>m < n. \<not> ?R m" for n
    using that by (metis (mono_tags, lifting) LeastI Least_le le_neq_implies_less)
  show ?thesis
  proof (cases "\<exists>n. ?R n")
    case False
    then show ?thesis using wait_ready_Some [of v i c r] by (cases "wait_ready v i c r") auto
  next
    case True
    then obtain n where "?R n" by (elim exE)
    then have "\<exists>y. wait_ready v i c r = Some y" by (rule wait_ready_returns)
    then obtain y where y: "wait_ready v i c r = Some y" by (elim exE)
    from wait_ready_Some [OF this] least obtain n where
      "y = (c + of_nat n, (pulse v i ^^ n) r)" "?R n" "n = (LEAST n. ?R n)" by blast
    with y True show ?thesis by auto
  qed
qed

section \<open>The states after start-up\<close>

lemma load_elf_state:
  assumes "load_elf file (g, s) = Inr (g1, s1)" and "load_elf file (g', s) = Inr (g2, s2)"
  shows "s1 = s2"
  using assms by (auto simp: load_elf_def Let_def bind_r_eq_Inr_iff split: option.splits)

text \<open>
  Starting from an ELF file puts the core's memory and the simulator into the same state.
\<close>

theorem elf_start_agrees:
  "ok_r (\<lambda>(g', s, ss). s = ss) (start_elf file g)"
  by (auto simp: start_elf_def bind_r_eq_Inr_iff intro!: ok_rI dest: load_elf_state)

lemma retire_registers_mem [simp]: "mem (retire_registers c s) = mem s"
  by (simp add: retire_registers_def)

lemma ckpt_step_mem: "ckpt_step tr v (r, k) = Inr (b, r', k') \<Longrightarrow> mem (ck_s k') = mem (ck_s k)"
  by (auto simp: ckpt_step_def Let_def bind_r_eq_Inr_iff split: if_splits)

lemma ckpt_loop_mem:
  assumes ret: "ckpt_loop tr v r k = Some y"
  shows "ok_r (\<lambda>(r', k'). mem (ck_s k') = mem (ck_s k)) y"
proof (rule ckpt_loop.raw_induct [where P = "\<lambda>tr v r k y. ok_r (\<lambda>(r', k'). mem (ck_s k') = mem (ck_s k)) y", OF _ ret])
  fix f and tr :: "(printer \<times> u64) option" and v :: "'a rtl" and r k y
  assume IH: "\<And>tr v r k y. f tr v r k = Some y \<Longrightarrow> ok_r (\<lambda>(r', k'). mem (ck_s k') = mem (ck_s k)) y"
    and eq: "(case ckpt_step tr v (r, k) of Inl e \<Rightarrow> Some (Inl e)
      | Inr p \<Rightarrow> if fst p then Some (Inr (snd p)) else f tr v (fst (snd p)) (snd (snd p))) = Some y"
  show "ok_r (\<lambda>(r', k'). mem (ck_s k') = mem (ck_s k)) y"
  proof (cases "ckpt_step tr v (r, k)")
    case (Inl e)
    with eq show ?thesis by auto
  next
    case (Inr p)
    obtain b r' k' where p: "p = (b, r', k')" by (cases p)
    have "mem (ck_s k') = mem (ck_s k)" using Inr by (simp add: p ckpt_step_mem)
    with eq Inr p IH [of tr v r' k' y] show ?thesis by (auto split: if_splits)
  qed
qed

lemma ckpt_idle_state: "ok_r (\<lambda>(r', k'). ck_s k' = ck_s k) (ckpt_idle v n (r, k))"
proof (induction n arbitrary: r k)
  case 0
  then show ?case by simp
next
  case (Suc n)
  show ?case
  proof (simp, rule ok_rI)
    fix i
    show "ok_r (\<lambda>(r', k'). ck_s k' = ck_s k) (ckpt_idle v n (falling_rising v i r, k\<lparr>ck_in := i\<rparr>))"
      using Suc.IH [of "k\<lparr>ck_in := i\<rparr>"] by simp
  qed
qed

lemma check_registers_all:
  "check_registers n g g' = Inr u \<Longrightarrow> n \<le> 32 \<Longrightarrow> 32 - n \<le> j \<Longrightarrow> j < 32 \<Longrightarrow> g (of_nat j) = g' (of_nat j)"
proof (induction n)
  case (Suc n)
  show ?case
  proof (cases "j = 32 - Suc n")
    case True
    with Suc.prems(1) show ?thesis by (auto simp: bind_r_eq_Inr_iff)
  next
    case False
    with Suc show ?thesis by (auto simp: bind_r_eq_Inr_iff)
  qed
qed simp

lemma check_registers_31:
  assumes "check_registers 31 g g' = Inr u" and "q \<noteq> (0 :: u5)"
  shows "g q = g' q"
proof -
  have "0 < unat q" using assms(2) by (simp add: unat_gt_0)
  moreover have "unat q < 32" using unsigned_less [of q, where ?'a = nat] by simp
  ultimately show ?thesis using check_registers_all [OF assms(1), of "unat q"] by simp
qed

lemma bind_o_Inr:
  assumes "bind_o x f = Some (Inr b)"
  obtains a where "x = Some (Inr a)" and "f a = Some (Inr b)"
  using assms by (auto simp: bind_o_def split: option.splits sum.splits)

lemma register_code_result:
  assumes "run_register_code tr v i s r = Some (Inr (c, r1, k))"
  shows "(\<forall>q. q \<noteq> 0 \<longrightarrow> gpr (ck_s k) q = gpr s q) \<and> mem (ck_s k) = mem s"
proof -
  obtain c0 i1 r0 where rc: "reset_core v 0 (pc s) i r = Some (c0, i1, r0)"
    using assms by (auto simp: run_register_code_def split: option.splits)
  let ?k0 = "\<lparr>ck_s = s, ck_in = i1, ck_last_retire = 0, ck_last_pc = 0, ck_text = ''''\<rparr>"
  from assms rc obtain x y u where l: "ckpt_loop (map_option (\<lambda>q. (q, c0)) tr) v r0 ?k0 = Some (Inr x)"
    and id: "ckpt_idle v 128 x = Inr y" and ch: "check_registers 31 (gpr (ck_s (snd y))) (gpr s) = Inr u"
    and y: "snd y = k"
    by (auto simp: run_register_code_def elim!: bind_o_Inr)
  have "mem (ck_s (snd x)) = mem s" using ckpt_loop_mem [OF l] by (auto simp: split_beta)
  moreover have "ck_s (snd y) = ck_s (snd x)"
    using ckpt_idle_state [of "snd x" v 128 "fst x"] id by (auto simp: split_beta)
  ultimately show ?thesis using check_registers_31 [OF ch] y by auto
qed


lemma emit_elsewhere:
  assumes "emitCodeForInitialRegisterValues s a = Inr s1" and "unat a + 764 \<le> 2 ^ 32"
    and "j < unat a \<or> unat a + 764 \<le> j"
  shows "mem s1 j = mem s j"
proof -
  obtain ws a' where "length ws = 62"
    and p: "put_words (ws @ 0x73 # replicate 128 0x13) (s, a) = Inr (s1, a')"
    using emit_words [OF assms(1)] by blast
  with put_words_elsewhere [OF p, of j] assms(2,3) show ?thesis by simp
qed

text \<open>
  C20. Starting from a checkpoint. When the start succeeds, both states have the checkpoint's
  program counter, registers and instruction count, the simulator's memory is the
  checkpoint's, and the memory the core runs on differs from it at most in bytes of the
  register code that lie on pages the checkpoint holds as zero: the second load does not
  clear them.
\<close>

theorem checkpoint_start:
  assumes dump: "dumpState opened wb s0 = Inr bs" "\<forall>k n. wb k n = int n"
    and start: "start_checkpoint tr v i (Some bs) r = Some (Inr (c, r1, k, ss))"
    and room: "unat (pc s0) + 764 \<le> 2 ^ 32"
  shows "(pc (ck_s k), gpr (ck_s k), icnt (ck_s k)) = (pc s0, gpr s0, icnt s0) \<and>
    (pc ss, gpr ss, icnt ss) = (pc s0, gpr s0, icnt s0) \<and>
    (\<forall>j < mem_size. mem ss j = mem s0 j \<and> (mem (ck_s k) j \<noteq> mem ss j \<longrightarrow>
      \<not> page_nz (mem s0) (j div 4096) \<and> unat (pc s0) \<le> j \<and> j < unat (pc s0) + 764))"
proof -
  let ?D = "set (nz_pages (mem s0))"
  obtain m where l: "loadState initState (Some bs) =
      Inr (initState\<lparr>pc := pc s0, gpr := gpr s0, icnt := icnt s0, mem := m\<rparr>)"
    and m: "\<And>j. m j = (if j div 4096 \<in> ?D then mem s0 j else mem initState j)"
    using load_dump [OF dump, of initState] by blast
  let ?s = "initState\<lparr>pc := pc s0, gpr := gpr s0, icnt := icnt s0, mem := m\<rparr>"
  from start l obtain s1 c0 r0 k0 s2 where e: "emitCodeForInitialRegisterValues ?s (pc s0) = Inr s1"
    and run: "run_register_code tr v i s1 r = Some (Inr (c0, r0, k0))"
    and l2: "loadState (ck_s k0) (Some bs) = Inr s2" and k: "k = k0\<lparr>ck_s := s2\<rparr>" and ss: "ss = ?s"
    by (auto simp: start_checkpoint_def elim!: bind_o_Inr)
  have mem0: "mem (ck_s k0) = mem s1" using register_code_result [OF run] by simp
  obtain m2 where s2: "s2 = (ck_s k0)\<lparr>pc := pc s0, gpr := gpr s0, icnt := icnt s0, mem := m2\<rparr>"
    and m2: "\<And>j. m2 j = (if j div 4096 \<in> ?D then mem s0 j else mem s1 j)"
    using load_dump [OF dump, of "ck_s k0"] l2 mem0 by auto
  have zero: "mem s0 j = 0" if "j < mem_size" "j div 4096 \<notin> ?D" for j
  proof -
    have "\<not> page_nz (mem s0) (j div 4096)" and "j div 4096 * 4096 + j mod 4096 = j"
      using that by (auto simp: nz_pages_def n_pages_def mem_size_val)
    then show ?thesis using page_nz_iff [of "mem s0" "j div 4096"] by (metis mod_less_divisor zero_less_numeral)
  qed
  have "mem ss j = mem s0 j" if "j < mem_size" for j
    using that zero [OF that] by (simp add: ss m initState_def mmap4G_def)
  moreover have "\<not> page_nz (mem s0) (j div 4096) \<and> unat (pc s0) \<le> j \<and> j < unat (pc s0) + 764"
    if "j < mem_size" "m2 j \<noteq> m j" for j
  proof -
    from that(2) have "j div 4096 \<notin> ?D" and "mem s1 j \<noteq> mem ?s j" using m m2 by (auto split: if_splits)
    moreover from this(2) have "\<not> (j < unat (pc s0) \<or> unat (pc s0) + 764 \<le> j)"
      using emit_elsewhere [OF e room, of j] by blast
    ultimately show ?thesis
      using that(1) by (auto simp: nz_pages_def n_pages_def mem_size_val)
  qed
  ultimately show ?thesis by (simp add: k s2 ss)
qed

section \<open>Example: a core that stops at once\<close>

definition broken_core :: "unit rtl" where
  "broken_core = \<lparr>eval = (\<lambda>i r. r), outs = (\<lambda>r. idle_out\<lparr>got_break := True\<rparr>), gotFinish = (\<lambda>r. False)\<rparr>"

lemma broken_core_idle: "\<exists>k'. ckpt_idle broken_core n ((), k) = Inr ((), k') \<and> ck_s k' = ck_s k"
proof (induction n arbitrary: k)
  case (Suc n)
  have "ckpt_idle broken_core (Suc n) ((), k) =
      ckpt_idle broken_core n ((), k\<lparr>ck_in := (ck_in k)\<lparr>rsp_valid := False\<rparr>\<rparr>)"
    by (simp add: serve_read_def broken_core_def idle_out_def no_req_def falling_rising_def)
  with Suc.IH [of "k\<lparr>ck_in := (ck_in k)\<lparr>rsp_valid := False\<rparr>\<rparr>"] show ?case by auto
qed simp

lemma check_registers_same: "check_registers n g g = Inr ()"
  by (induction n) simp_all

lemma broken_core_run: "\<exists>c k. run_register_code None broken_core i s () = Some (Inr (c, (), k)) \<and> ck_s k = s"
proof -
  have "wait_ready broken_core j c () = Some (c, ())" for j c
    by (subst wait_ready.simps) (simp add: broken_core_def idle_out_def)
  then obtain c i1 where r: "reset_core broken_core 0 (pc s) i () = Some (c, i1, ())"
    using reset_only_once [of broken_core 0 i "()"]
    by (simp add: reset_core_def broken_core_def pulse_def Let_def word_less_nat_alt)
  let ?k0 = "\<lparr>ck_s = s, ck_in = i1, ck_last_retire = 0, ck_last_pc = 0, ck_text = ''''\<rparr>"
  have "ckpt_loop None broken_core () ?k0 = Some (Inr ((), ?k0\<lparr>ck_in := i1\<lparr>rsp_valid := False\<rparr>\<rparr>))"
    by (subst ckpt_loop.simps)
      (simp add: ckpt_step_def serve_read_def broken_core_def idle_out_def no_req_def falling_rising_def Let_def)
  moreover obtain k' where "ckpt_idle broken_core 128 ((), ?k0\<lparr>ck_in := i1\<lparr>rsp_valid := False\<rparr>\<rparr>) = Inr ((), k')"
    and "ck_s k' = s" using broken_core_idle [of 128 "?k0\<lparr>ck_in := i1\<lparr>rsp_valid := False\<rparr>\<rparr>"] by auto
  ultimately show ?thesis using r by (simp add: run_register_code_def bind_o_def check_registers_same)
qed

definition demo_in :: core_in where
  "demo_in = \<lparr>clk = False, reset = False, extern_irq = False, resume = False, resume_pc = 0,
     rsp_valid = False, rsp_load_data = replicate 16 0, monitor_ack = False\<rparr>"


theorem checkpoint_start_witness:
  "\<exists>bs c k ss. dumpState True (\<lambda>k n. int n) addi_demo = Inr bs \<and>
    start_checkpoint None broken_core demo_in (Some bs) () = Some (Inr (c, (), k, ss)) \<and>
    pc (ck_s k) = 0 \<and> (\<forall>j < mem_size. mem ss j = mem addi_demo j)"
proof -
  have wb: "\<forall>k n. (\<lambda>k n. int n) (k :: nat) n = int n" by simp
  obtain bs where bs: "dumpState True (\<lambda>k n. int n) addi_demo = Inr bs"
    using dump_total [OF wb] by blast
  note l = load_dump [OF bs wb]
  obtain s where s: "loadState initState (Some bs) = Inr s" and g: "pc s = 0" "gpr s = (\<lambda>_. 0)"
    using l [of initState] by (auto simp: addi_demo_fields)
  have u: "\<not> (\<exists>r. r \<noteq> 0 \<and> unsplittable (gpr s r))" by (simp add: g unsplittable_def)
  obtain s1 where e: "emitCodeForInitialRegisterValues s 0 = Inr s1"
    using register_code_emission [of 0 s, unfolded if_not_P [OF u]] by auto
  obtain c k0 where run: "run_register_code None broken_core demo_in s1 () = Some (Inr (c, (), k0))"
    using broken_core_run [of demo_in s1] by blast
  obtain s2 where "loadState (ck_s k0) (Some bs) = Inr s2" using l [of "ck_s k0"] by blast
  then have st: "start_checkpoint None broken_core demo_in (Some bs) () = Some (Inr (c, (), k0\<lparr>ck_s := s2\<rparr>, s))"
    using s e run g by (simp add: start_checkpoint_def bind_o_def)
  from checkpoint_start [OF bs wb st] show ?thesis
    using bs st by (intro exI [of _ bs] exI [of _ c] exI [of _ "k0\<lparr>ck_s := s2\<rparr>"] exI [of _ s])
      (simp add: addi_demo_fields)
qed

end
