(* ===== verification/Pipeline_Record.thy ===== *)
theory Pipeline_Record
  imports Text_Format
begin

text \<open>
  \<open>pipeline_record.hh\<close>: one record per retired instruction, the list of records a logger
  collects and a reader gets back, and the text of a record. \<open>serialize\<close> passes the fields
  of a record to an archive one by one, in the same order when writing and when reading. What
  the serialization library makes of a list of such sequences is a parameter: a function to the
  contents of a file, of any type, and one back.
\<close>

record pipeline_record =
  uuid :: u64
  disasm :: string
  rec_pc :: u64
  fetch_cycle :: u64
  alloc_cycle :: u64
  complete_cycle :: u64
  retire_cycle :: u64
  faulted :: bool

text \<open>The constructors, with all members and with none.\<close>

definition new_record ::
    "u64 \<Rightarrow> string \<Rightarrow> u64 \<Rightarrow> u64 \<Rightarrow> u64 \<Rightarrow> u64 \<Rightarrow> u64 \<Rightarrow> bool \<Rightarrow> pipeline_record" where
  "new_record u d p f a c r flt = \<lparr>uuid = u, disasm = d, rec_pc = p, fetch_cycle = f,
     alloc_cycle = a, complete_cycle = c, retire_cycle = r, faulted = flt\<rparr>"

lemma new_record_sel [simp]:
  "uuid (new_record u d p f a c r flt) = u" "disasm (new_record u d p f a c r flt) = d"
  "rec_pc (new_record u d p f a c r flt) = p" "fetch_cycle (new_record u d p f a c r flt) = f"
  "alloc_cycle (new_record u d p f a c r flt) = a" "complete_cycle (new_record u d p f a c r flt) = c"
  "retire_cycle (new_record u d p f a c r flt) = r" "faulted (new_record u d p f a c r flt) = flt"
  by (simp_all add: new_record_def)

definition empty_record :: pipeline_record where
  "empty_record = \<lparr>uuid = - 1, disasm = '''', rec_pc = 0, fetch_cycle = 0, alloc_cycle = 0,
     complete_cycle = 0, retire_cycle = 0, faulted = False\<rparr>"

definition bool_text :: "bool \<Rightarrow> string" where
  "bool_text b = (if b then ''1'' else ''0'')"

text \<open>\<open>operator<<\<close>.\<close>

definition record_text :: "pipeline_record \<Rightarrow> string" where
  "record_text r = disasm r @ '','' @ toStringHex (rec_pc r) @ '','' @ toString (fetch_cycle r) @
     '','' @ toString (alloc_cycle r) @ '','' @ toString (complete_cycle r) @ '','' @
     toString (retire_cycle r) @ '','' @ bool_text (faulted r)"

type_synonym pipeline_data = "pipeline_record list"

definition append_record ::
    "pipeline_data \<Rightarrow> u64 \<Rightarrow> string \<Rightarrow> u64 \<Rightarrow> u64 \<Rightarrow> u64 \<Rightarrow> u64 \<Rightarrow> u64 \<Rightarrow> bool \<Rightarrow> pipeline_data" where
  "append_record rs u d p f a c r flt = rs @ [new_record u d p f a c r flt]"

section \<open>Serialization\<close>

text \<open>What \<open>ar & x\<close> moves.\<close>

datatype item = U64 u64 | Str string | Flag bool

definition save_record :: "pipeline_record \<Rightarrow> item list" where
  "save_record r = [U64 (uuid r), Str (disasm r), U64 (rec_pc r), U64 (fetch_cycle r), U64 (alloc_cycle r),
     U64 (complete_cycle r), U64 (retire_cycle r), Flag (faulted r)]"

text \<open>Reading fills a record in place; an item of another kind is an archive error.\<close>

type_synonym loading = "(pipeline_record \<times> item list) option"

definition get_u64 :: "(u64 \<Rightarrow> pipeline_record \<Rightarrow> pipeline_record) \<Rightarrow> loading \<Rightarrow> loading" where
  "get_u64 f x = (case x of Some (r, U64 w # ar) \<Rightarrow> Some (f w r, ar) | _ \<Rightarrow> None)"

definition get_str :: "(string \<Rightarrow> pipeline_record \<Rightarrow> pipeline_record) \<Rightarrow> loading \<Rightarrow> loading" where
  "get_str f x = (case x of Some (r, Str w # ar) \<Rightarrow> Some (f w r, ar) | _ \<Rightarrow> None)"

definition get_flag :: "(bool \<Rightarrow> pipeline_record \<Rightarrow> pipeline_record) \<Rightarrow> loading \<Rightarrow> loading" where
  "get_flag f x = (case x of Some (r, Flag w # ar) \<Rightarrow> Some (f w r, ar) | _ \<Rightarrow> None)"

definition load_record :: "item list \<Rightarrow> loading" where
  "load_record ar =
     get_flag (\<lambda>w r. r\<lparr>faulted := w\<rparr>)
     (get_u64 (\<lambda>w r. r\<lparr>retire_cycle := w\<rparr>)
     (get_u64 (\<lambda>w r. r\<lparr>complete_cycle := w\<rparr>)
     (get_u64 (\<lambda>w r. r\<lparr>alloc_cycle := w\<rparr>)
     (get_u64 (\<lambda>w r. r\<lparr>fetch_cycle := w\<rparr>)
     (get_u64 (\<lambda>w r. r\<lparr>rec_pc := w\<rparr>)
     (get_str (\<lambda>w r. r\<lparr>disasm := w\<rparr>)
     (get_u64 (\<lambda>w r. r\<lparr>uuid := w\<rparr>) (Some (empty_record, ar)))))))))"

text \<open>The destructor of the logger writes the archive, the reader reads it and says so.\<close>

definition close_logger :: "(item list list \<Rightarrow> 'f) \<Rightarrow> pipeline_data \<Rightarrow> 'f" where
  "close_logger archive rs = archive (map save_record rs)"

definition read_log :: "('f \<Rightarrow> item list list option) \<Rightarrow> 'f \<Rightarrow> (pipeline_data \<times> string) option" where
  "read_log unarchive f =
    (case unarchive f of
       None \<Rightarrow> None
     | Some items \<Rightarrow>
         map_option (\<lambda>xs. (map fst xs, ''read '' @ dec (length xs) @ '' records'' @ [CHR 0x0A]))
           (those (map load_record items)))"

lemma load_save_record: "load_record (save_record r @ ar) = Some (r, ar)"
  by (simp add: load_record_def save_record_def get_u64_def get_str_def get_flag_def empty_record_def)

lemma read_close_logger:
  assumes "\<And>xs. unarchive (archive xs) = Some xs"
  shows "read_log unarchive (close_logger archive rs) =
    Some (rs, ''read '' @ dec (length rs) @ '' records'' @ [CHR 0x0A])"
proof -
  have "those (map load_record (map save_record rs)) = Some (map (\<lambda>r. (r, [])) rs)"
    using load_save_record [of _ "[]"] by (induction rs) simp_all
  then show ?thesis using assms by (simp add: read_log_def close_logger_def comp_def)
qed

end
