(* ===== verification/Retirement.thy ===== *)
theory Retirement
  imports Exec Pipeline_Record Disassemble Histogram
begin

text \<open>
  \<open>top.cc: record_retirement\<close>, which the Verilog core calls for every instruction it
  retires: order check, latency histograms, the copy of the register file the effective
  addresses of the pipeline log are computed from, and the log itself. With it the decimal
  histogram files of \<open>top.hh: dump_histo\<close>. The static variables are one record.
\<close>

unbundle bit_operations_syntax

section \<open>State\<close>

record retire_log =
  lrc :: u64
  last_retire_cycle :: u64
  last_retire_pc :: u64
  record_insns_retired :: u64
  pl_regs :: "u5 \<Rightarrow> u32"
  mispred_lat_map :: "int histo"
  retire_map :: "u64 histo"
  pl :: "pipeline_data option"
  pipestart :: u64
  pipeend :: u64

definition retire_init :: "pipeline_data option \<Rightarrow> u64 \<Rightarrow> u64 \<Rightarrow> retire_log" where
  "retire_init log first past = \<lparr>lrc = - 1, last_retire_cycle = 0, last_retire_pc = 0,
     record_insns_retired = 0, pl_regs = (\<lambda>_. 0), mispred_lat_map = [], retire_map = [],
     pl = log, pipestart = first, pipeend = past\<rparr>"

text \<open>The arguments of one call.\<close>

record retirement =
  rt_pc :: u64
  rt_fetch :: u64
  rt_alloc :: u64
  rt_complete :: u64
  rt_retire :: u64
  rt_reg_val :: u32
  rt_reg_ptr :: u32
  rt_reg_data :: u32
  rt_faulted :: u32
  rt_mispredict :: u32

section \<open>The call\<close>

definition logged_load_ea :: "(u5 \<Rightarrow> u32) \<Rightarrow> u32 \<Rightarrow> u32" where
  "logged_load_ea regs insn =
    (let l = load_of insn in sext_or insn 0xfffff000 (ucast (l_imm11_0 l)) + regs (l_rs1 l))"

definition logged_store_ea :: "(u5 \<Rightarrow> u32) \<Rightarrow> u32 \<Rightarrow> u32" where
  "logged_store_ea regs insn =
    (let v = store_of insn in
     sext_or insn 0xfffff000 (ucast (s_imm4_0 v) OR push_bit 5 (ucast (s_imm11_5 v))) + regs (s_rs1 v))"

definition retire_disasm :: "capstone \<Rightarrow> (u5 \<Rightarrow> u32) \<Rightarrow> u32 \<Rightarrow> u64 \<Rightarrow> string" where
  "retire_disasm cs regs insn p =
    (let d = getAsmString cs insn (ucast p) in
     if insn AND 127 = 0x3 then d @ '' EA :  '' @ toStringHex (logged_load_ea regs insn)
     else if insn AND 127 = 0x23 then d @ '' EA :  '' @ toStringHex (logged_store_ea regs insn)
     else d)"

text \<open>Clock values are \<open>long long\<close>: the order check compares them signed.\<close>

definition record_retirement ::
    "capstone \<Rightarrow> state_t \<Rightarrow> retirement \<Rightarrow> retire_log \<Rightarrow> failure + retire_log" where
  "record_retirement cs s a t =
    bind_r (get_insn (ucast (rt_pc a)) s) (\<lambda>insn.
    let delta = rt_retire a - last_retire_cycle t;
        t1 = (if rt_reg_val a \<noteq> 0
              then t\<lparr>pl_regs := (pl_regs t)(ucast (rt_reg_ptr a AND 31) := rt_reg_data a)\<rparr> else t)
    in
    if rt_retire a <s lrc t1 then Inl (Exit_called (- 1))
    else
      let t2 = t1\<lparr>lrc := rt_retire a\<rparr>;
          t3 = (if rt_mispredict a \<noteq> 0
                then t2\<lparr>mispred_lat_map :=
                  bump (sint (ucast (rt_complete a - rt_alloc a) :: u32)) (mispred_lat_map t2)\<rparr>
                else t2);
          t4 = t3\<lparr>retire_map := bump delta (retire_map t3), last_retire_cycle := rt_retire a,
                 last_retire_pc := rt_pc a\<rparr>;
          n = record_insns_retired t4;
          t5 = (case pl t4 of
                 Some rs \<Rightarrow>
                   if pipestart t4 \<le> n \<and> n < pipeend t4
                   then t4\<lparr>pl := Some (append_record rs n (retire_disasm cs (pl_regs t4) insn (rt_pc a))
                          (rt_pc a) (rt_fetch a) (rt_alloc a) (rt_complete a) (rt_retire a)
                          (rt_faulted a \<noteq> 0))\<rparr>
                   else t4
               | None \<Rightarrow> t4)
      in Inr (t5\<lparr>record_insns_retired := n + 1\<rparr>))"

text \<open>A sequence of retirements from one memory.\<close>

fun retire_all :: "capstone \<Rightarrow> state_t \<Rightarrow> retirement list \<Rightarrow> retire_log \<Rightarrow> failure + retire_log" where
  "retire_all cs s [] t = Inr t"
| "retire_all cs s (a # as) t = bind_r (record_retirement cs s a t) (retire_all cs s as)"

section \<open>dump_histo\<close>

text \<open>One line per counter: the address, what is there, and the count.\<close>

fun histo_lines :: "capstone \<Rightarrow> mem \<Rightarrow> ('c::len word \<times> u64) list \<Rightarrow> failure + string" where
  "histo_lines cs m [] = Inr ''''"
| "histo_lines cs m ((c, a) # ps) =
     bind_r (mem_r32 m (unat a)) (\<lambda>insn.
     bind_r (histo_lines cs m ps) (\<lambda>rest.
     Inr (toStringHex a @ '':'' @ getAsmString cs insn (ucast a) @ '','' @ toString c @ [CHR 0x0A] @ rest)))"

definition dump_histo_32 :: "capstone \<Rightarrow> state_t \<Rightarrow> u32 histo \<Rightarrow> failure + string" where
  "dump_histo_32 cs s h = histo_lines cs (mem s) (dump_order_32 h)"

definition dump_histo_64 :: "capstone \<Rightarrow> state_t \<Rightarrow> u64 histo \<Rightarrow> failure + string" where
  "dump_histo_64 cs s h = histo_lines cs (mem s) (dump_order_64 h)"

section \<open>Effects of one call\<close>

lemma record_retirement_ok:
  assumes "record_retirement cs s a t = Inr t'"
  shows "\<not> rt_retire a <s lrc t" and "lrc t' = rt_retire a"
    and "last_retire_cycle t' = rt_retire a"
    and "record_insns_retired t' = record_insns_retired t + 1"
    and "retire_map t' = bump (rt_retire a - last_retire_cycle t) (retire_map t)"
    and "pipestart t' = pipestart t" and "pipeend t' = pipeend t"
    and "pl_regs t' = (if rt_reg_val a \<noteq> 0
      then (pl_regs t)(ucast (rt_reg_ptr a AND 31) := rt_reg_data a) else pl_regs t)"
    and "\<exists>insn. get_insn (ucast (rt_pc a)) s = Inr insn \<and>
      pl t' = map_option (\<lambda>rs.
        if pipestart t \<le> record_insns_retired t \<and> record_insns_retired t < pipeend t
        then append_record rs (record_insns_retired t) (retire_disasm cs (pl_regs t') insn (rt_pc a))
          (rt_pc a) (rt_fetch a) (rt_alloc a) (rt_complete a) (rt_retire a) (rt_faulted a \<noteq> 0)
        else rs) (pl t)"
  using assms
  by (auto simp: record_retirement_def Let_def bind_r_eq_Inr_iff split: if_splits option.splits)

section \<open>Which retirements the log holds\<close>

text \<open>A record's numbers, and those of a call.\<close>

definition numbers :: "pipeline_record \<Rightarrow> u64 \<times> u64 \<times> u64 \<times> u64 \<times> u64 \<times> u64 \<times> bool" where
  "numbers r = (uuid r, rec_pc r, fetch_cycle r, alloc_cycle r, complete_cycle r, retire_cycle r,
     faulted r)"

definition call_numbers :: "u64 \<times> retirement \<Rightarrow> u64 \<times> u64 \<times> u64 \<times> u64 \<times> u64 \<times> u64 \<times> bool" where
  "call_numbers p = (case p of (n, a) \<Rightarrow>
     (n, rt_pc a, rt_fetch a, rt_alloc a, rt_complete a, rt_retire a, rt_faulted a \<noteq> 0))"

definition in_window :: "retire_log \<Rightarrow> u64 \<Rightarrow> bool" where
  "in_window t n \<longleftrightarrow> pipestart t \<le> n \<and> n < pipeend t"

text \<open>The calls with their sequence numbers, from \<open>n\<close> on.\<close>

fun numbered :: "u64 \<Rightarrow> 'a list \<Rightarrow> (u64 \<times> 'a) list" where
  "numbered n [] = []"
| "numbered n (a # as) = (n, a) # numbered (n + 1) as"

lemma numbered_zip: "numbered n as = zip (map (\<lambda>i. n + of_nat i) [0..<length as]) as"
proof (induction as arbitrary: n)
  case Nil
  then show ?case by simp
next
  case (Cons a as)
  have "map (\<lambda>i. n + 1 + of_nat i) [0..<length as] = map (\<lambda>i. n + of_nat i) [Suc 0..<Suc (length as)]"
    unfolding map_Suc_upt [symmetric] map_map by (simp add: comp_def add.assoc)
  moreover have "[0..<Suc (length as)] = 0 # [Suc 0..<Suc (length as)]" by (rule upt_conv_Cons) simp
  ultimately show ?case using Cons.IH [of "n + 1"] by (simp del: upt_Suc)
qed

lemma retire_all_ok:
  "ok_r (\<lambda>t'. record_insns_retired t' = record_insns_retired t + of_nat (length as) \<and>
     pipestart t' = pipestart t \<and> pipeend t' = pipeend t \<and>
     (pl t = None \<longrightarrow> pl t' = None) \<and>
     (\<forall>rs. pl t = Some rs \<longrightarrow> (\<exists>rs'. pl t' = Some (rs @ rs') \<and>
        map numbers rs' =
          map call_numbers (filter (\<lambda>p. in_window t (fst p)) (numbered (record_insns_retired t) as)))))
   (retire_all cs s as t)"
proof (induction as arbitrary: t)
  case Nil
  then show ?case by simp
next
  case (Cons a as)
  show ?case
  proof (cases "record_retirement cs s a t")
    case (Inl e)
    then show ?thesis by simp
  next
    case (Inr t1)
    note ok = record_retirement_ok [OF Inr]
    have w: "in_window t1 = in_window t" using ok by (simp add: in_window_def fun_eq_iff)
    from ok(9) obtain d where d: "pl t1 = map_option (\<lambda>rs. if in_window t (record_insns_retired t)
        then append_record rs (record_insns_retired t) d (rt_pc a) (rt_fetch a) (rt_alloc a)
          (rt_complete a) (rt_retire a) (rt_faulted a \<noteq> 0) else rs) (pl t)"
      unfolding in_window_def by blast
    show ?thesis
      using Cons.IH [of t1] ok(4,6,7) d
      by (auto simp: Inr w append_record_def numbers_def call_numbers_def elim!: ok_r_mono)
  qed
qed

text \<open>
  C37. The pipeline log, from the core to the reader. A run of retirements with a logger
  attached gives the retirements consecutive numbers from 0; if the archive library reads back
  what it wrote, the reader gets exactly those with numbers from \<open>pipestart\<close> to before
  \<open>pipeend\<close>, in order, each with its own program counter and clock values.
\<close>

theorem retire_log_read_back:
  assumes "\<And>xs. unarchive (archive xs) = Some xs"
  shows "ok_r (\<lambda>t'. \<exists>rs. pl t' = Some rs \<and>
      (\<exists>said. read_log unarchive (close_logger archive rs) = Some (rs, said)) \<and>
      map numbers rs = map call_numbers
        (filter (\<lambda>p. lo \<le> fst p \<and> fst p < hi) (zip (map of_nat [0..<length as]) as)))
    (retire_all cs s as (retire_init (Some []) lo hi))"
  using retire_all_ok [of "retire_init (Some []) lo hi" as cs s] read_close_logger [of unarchive archive] assms
  by (auto simp: retire_init_def numbered_zip in_window_def elim!: ok_r_mono)

section \<open>When a run of retirements ends the program\<close>

lemma record_retirement_defined:
  "(\<exists>t'. record_retirement cs s a t = Inr t') \<longleftrightarrow>
     in_mem (unat (ucast (rt_pc a) :: u32)) 4 \<and> sint (lrc t) \<le> sint (rt_retire a)"
proof -
  have "in_mem (unat (ucast (rt_pc a) :: u32)) 4 \<longleftrightarrow> (\<exists>i. get_insn (ucast (rt_pc a)) s = Inr i)"
    by (auto simp: get_insn_def load_def)
  then show ?thesis
    by (auto simp: record_retirement_def Let_def bind_r_eq_Inr_iff word_sless_alt)
qed

text \<open>
  Retirement order. A run of retirements goes through exactly when every instruction
  lies inside the memory and the retirement clocks, read as signed numbers, never go back
  and start at -1 or later; otherwise the run fails.
\<close>

theorem retirement_order:
  "(\<exists>t'. retire_all cs s as (retire_init log lo hi) = Inr t') \<longleftrightarrow>
     list_all (\<lambda>a. in_mem (unat (ucast (rt_pc a) :: u32)) 4) as \<and>
     sorted (- 1 # map (\<lambda>a. sint (rt_retire a)) as)"
proof -
  have "(\<exists>t'. retire_all cs s as t = Inr t') \<longleftrightarrow>
     list_all (\<lambda>a. in_mem (unat (ucast (rt_pc a) :: u32)) 4) as \<and>
     sorted (sint (lrc t) # map (\<lambda>a. sint (rt_retire a)) as)" for t
  proof (induction as arbitrary: t)
    case Nil
    then show ?case by simp
  next
    case (Cons a as)
    show ?case
    proof (cases "\<exists>t1. record_retirement cs s a t = Inr t1")
      case True
      then obtain t1 where t1: "record_retirement cs s a t = Inr t1" by blast
      with record_retirement_defined [of cs s a t] record_retirement_ok(2) [OF t1]
      show ?thesis
        using Cons.IH [of t1] by (auto intro: order_trans [of _ "sint (rt_retire a)"])
    next
      case False
      then show ?thesis
        using record_retirement_defined [of cs s a t] by (auto simp: bind_r_eq_Inr_iff)
    qed
  qed
  from this [of "retire_init log lo hi"] show ?thesis by (simp add: retire_init_def)
qed

section \<open>Effective addresses\<close>

lemma logged_load_ea_encode: "logged_load_ea regs (encode (Load l rd rs1 imm)) = scast imm + regs rs1"
  by (cases l) (simp_all add: logged_load_ea_def Let_def word_fields sext_or_enc_i)

lemma store_ea_encode: "logged_store_ea regs (encode (Store t rs2 rs1 imm)) = scast imm + regs rs1"
  by (cases t) (simp_all add: logged_store_ea_def Let_def word_fields sext_or_store)

lemma opcode_mem:
  "encode (Load l rd rs1 imm) AND 127 = 0x3" "encode (Store t rs2 rs1 imm) AND 127 = 0x23"
  by (simp_all add: opcode_of_def [symmetric] word_fields)

text \<open>
  Effective addresses in the log. The text of a logged load or store ends with the
  address of the access computed from the register copy after the call has recorded the
  instruction's own result: for a store that is the base register's value plus the sign
  extended offset, and so for a load unless it overwrites its base register, when the
  loaded value takes the base's place and the address is not the one accessed.
\<close>

theorem logged_effective_address:
  assumes "get_insn (ucast (rt_pc a)) s = Inr (encode i)" and "pl t = Some rs"
    and "in_window t (record_insns_retired t)" and "record_retirement cs s a t = Inr t'"
    and "i = Load l rd rs1 imm \<and> (rt_reg_val a \<noteq> 0 \<longrightarrow> rt_reg_ptr a AND 31 = ucast rd) \<or>
      i = Store st rs2 rs1 imm \<and> rt_reg_val a = 0"
  shows "map_option (\<lambda>rs. disasm (last rs)) (pl t') =
    Some (getAsmString cs (encode i) (ucast (rt_pc a)) @ '' EA :  '' @
      hex (eff_addr (if rt_reg_val a \<noteq> 0 \<and> rd = rs1 then rt_reg_data a else pl_regs t rs1) imm))"
proof -
  note ok = record_retirement_ok [OF assms(4)]
  have "ucast (ucast rd :: u32) = rd" by (rule bit_word_eqI) (simp add: bit_simps)
  then show ?thesis
    using ok(8,9) assms(1,2,3,5)
    by (auto simp: in_window_def append_record_def retire_disasm_def Let_def logged_load_ea_encode
        store_ea_encode opcode_mem toStringHex_def eff_addr_word simp del: encode.simps)
qed

text \<open>A machine with \<open>lw x1, 4(x1)\<close> at address 0, and its retirement with result 100.\<close>

definition lw_demo :: state_t where
  "lw_demo = initState\<lparr>mem := write_bytes mmap4G 0 (le_bytes 4 (encode (Load LW 1 1 4)))\<rparr>"

definition lw_retired :: retirement where
  "lw_retired = \<lparr>rt_pc = 0, rt_fetch = 1, rt_alloc = 2, rt_complete = 3, rt_retire = 4,
     rt_reg_val = 1, rt_reg_ptr = 1, rt_reg_data = 100, rt_faulted = 0, rt_mispredict = 0\<rparr>"

theorem retire_log_read_back_witness:
  "\<exists>t' rs. retire_all (\<lambda>i a. []) lw_demo [lw_retired] (retire_init (Some []) 0 10) = Inr t' \<and> pl t' = Some rs \<and>
    (\<exists>said. read_log Some (close_logger id rs) = Some (rs, said)) \<and>
    map numbers rs = [(0, 0, 1, 2, 3, 4, False)]"
proof -
  have "in_mem (unat (ucast (rt_pc lw_retired) :: u32)) 4" by (simp add: lw_retired_def in_mem_val)
  with record_retirement_defined [of "\<lambda>i a. []" lw_demo lw_retired "retire_init (Some []) 0 10"] obtain t' where
    "retire_all (\<lambda>i a. []) lw_demo [lw_retired] (retire_init (Some []) 0 10) = Inr t'"
    by (auto simp: retire_init_def lw_retired_def)
  with retire_log_read_back [of Some id 0 10 "[lw_retired]" "\<lambda>i a. []" lw_demo] show ?thesis
    by (simp add: call_numbers_def del: retire_all.simps) (simp add: lw_retired_def del: retire_all.simps)
qed

text \<open>The base register is 0, the access at 4; the logged address is 104 (hexadecimal 68).\<close>

theorem logged_effective_address_witness:
  "\<exists>t'. record_retirement (\<lambda>i a. []) lw_demo lw_retired (retire_init (Some []) 0 10) = Inr t' \<and>
     map_option (\<lambda>rs. disasm (last rs)) (pl t') = Some ''huh? EA :  68''"
proof -
  let ?t = "retire_init (Some []) 0 10"
  have i: "get_insn (ucast (rt_pc lw_retired)) lw_demo = Inr (encode (Load LW 1 1 4))"
    by (simp add: get_insn_def lw_demo_def lw_retired_def load_write_same in_mem_val del: encode.simps)
  then have "in_mem (unat (ucast (rt_pc lw_retired) :: u32)) 4"
    by (auto simp: get_insn_def load_eq_Inr_iff)
  with record_retirement_defined [of "\<lambda>i a. []" lw_demo lw_retired ?t] obtain t' where
    t': "record_retirement (\<lambda>i a. []) lw_demo lw_retired ?t = Inr t'"
    by (auto simp: retire_init_def lw_retired_def)
  have "hex (eff_addr 100 4) = ''68''"
    by (simp add: eff_addr_def hex_def num_string.simps digit_def)
  with logged_effective_address [OF i _ _ t', of "[]" LW 1 1 4] t' show ?thesis
    by (simp add: retire_init_def in_window_def lw_retired_def getAsmString_def del: encode.simps)
qed

end
