(* ===== verification/Run_Log.thy ===== *)
theory Run_Log
  imports Harness Retirement
begin

text \<open>
  The end of \<open>top.cc: main\<close>: the statistics written to the log file when the run was not
  incorrect, with the three histogram files, and the summary on the console. Each paragraph of
  the code is one definition, in its order, the line with the seconds the run took included.
  Ratios are expressions of \<open>Run_Text\<close>.
\<close>

section \<open>Lines\<close>

definition count_line :: "u64 \<Rightarrow> string \<Rightarrow> string" where
  "count_line n what = toString n @ what @ newline"

definition value_line :: "string \<Rightarrow> u64 \<Rightarrow> string" where
  "value_line name n = name @ '' = '' @ toString n @ newline"

definition ratio_line :: "printer \<Rightarrow> string \<Rightarrow> fexpr \<Rightarrow> string" where
  "ratio_line q name e = name @ '' = '' @ plain_text q e @ newline"

section \<open>The paragraphs\<close>

text \<open>The hit and access counters of the caches, which are outputs of the core.\<close>

record cache_out =
  l1d_cache_hits :: u64
  l1d_cache_accesses :: u64
  l1i_cache_hits :: u64
  l1i_cache_accesses :: u64
  l2_cache_hits :: u64
  l2_cache_accesses :: u64

definition summary_text :: "printer \<Rightarrow> 'w harness \<Rightarrow> string" where
  "summary_text q H =
     ''n_mispredicts = '' @ toString (n_mispredicts H) @ '', cycles = '' @ toString (cyc H) @
     '', insns = '' @ toString (insns_retired H) @ '', n_checks = '' @ toString (n_checks H) @ newline @
     plain_text q (Over (Conv (insns_retired H)) (Conv (cyc H))) @ '' insn per cycle'' @ newline"

text \<open>The mean number of instructions in flight; empty counters are passed over.\<close>

definition inflight_sums :: "u64 list \<Rightarrow> fexpr \<times> fexpr" where
  "inflight_sums a = foldl (\<lambda>(acc, n) i. if a ! i = 0 then (acc, n)
     else (Plus acc (Conv (of_nat i * a ! i)), Plus n (Conv (a ! i)))) (Lit 0, Lit 0) [0..<32]"

definition avg_inflight :: "u64 list \<Rightarrow> fexpr" where
  "avg_inflight a = (let (acc, n) = inflight_sums a in Over acc n)"

text \<open>Two slots a cycle: retired, wasted, or not supplied by the front end.\<close>

definition total_slots :: "'w harness \<Rightarrow> u64" where
  "total_slots H = 2 * cyc H"

definition bad_spec_slots :: "'w harness \<Rightarrow> u64" where
  "bad_spec_slots H = insns_allocated H - insns_retired H + 2 * cycles_in_faulted H"

definition slots_rr :: "'w harness \<Rightarrow> fexpr" where
  "slots_rr H = Over (Conv (insns_retired H)) (Conv (total_slots H))"

definition slots_bs :: "'w harness \<Rightarrow> fexpr" where
  "slots_bs H = Over (Conv (bad_spec_slots H)) (Conv (total_slots H))"

definition slots_fe :: "'w harness \<Rightarrow> fexpr" where
  "slots_fe H = Over (Conv (fetch_stalls H)) (Conv (total_slots H))"

definition slots_bb :: "'w harness \<Rightarrow> fexpr" where
  "slots_bb H = Minus (Lit 1) (Plus (Plus (slots_rr H) (slots_bs H)) (slots_fe H))"

definition slots_text :: "printer \<Rightarrow> 'w harness \<Rightarrow> string" where
  "slots_text q H =
     count_line (insns_retired H) '' insns retired'' @ count_line (insns_allocated H) '' insns allocated'' @
     count_line (cycles_in_faulted H * 2) '' slots in faulted'' @
     count_line (fetch_stalls H) '' fetch stalls'' @
     ratio_line q ''top-down bb'' (slots_bb H) @ ratio_line q ''top-down rr'' (slots_rr H) @
     ratio_line q ''top-down bs'' (slots_bs H) @ ratio_line q ''top-down fe'' (slots_fe H) @
     ''avg insns in ROB = '' @ plain_text q (avg_inflight (inflight H)) @
     '', max inflight = '' @ toString (max_inflight H) @ newline"

definition percent :: "u64 \<Rightarrow> u64 \<Rightarrow> fexpr" where
  "percent hits accesses = Times (Lit 100) (Over (Conv hits) (Conv accesses))"

definition caches_text :: "printer \<Rightarrow> cache_out \<Rightarrow> string" where
  "caches_text q o1 =
     value_line ''l1d cache hits'' (l1d_cache_hits o1) @ value_line ''l1d cache accesses'' (l1d_cache_accesses o1) @
     ratio_line q ''l1d hit rate'' (percent (l1d_cache_hits o1) (l1d_cache_accesses o1)) @
     value_line ''l1i cache hits'' (l1i_cache_hits o1) @ value_line ''l1i cache accesses'' (l1i_cache_accesses o1) @
     ratio_line q ''l1i hit rate'' (percent (l1i_cache_hits o1) (l1i_cache_accesses o1)) @
     value_line ''l2 cache hits'' (l2_cache_hits o1) @ value_line ''l2 cache accesses'' (l2_cache_accesses o1)"

text \<open>Nothing in the program counts \<open>l1d_misses\<close> and \<open>l1d_insns\<close>: they stay 0.\<close>

definition counters_text :: "printer \<Rightarrow> 'w harness \<Rightarrow> string" where
  "counters_text q H =
     ratio_line q ''branch mispredict rate'' (Times (Over (Conv (n_mispredicts H)) (Conv (n_branches H))) (Lit 100)) @
     ratio_line q ''mispredicts per kiloinsn''
       (Times (Over (Conv (n_mispredicts H)) (Conv (insns_retired H))) (Lit 1000)) @
     count_line (n_flush_cycles H) '' cycles spent flushing caches'' @
     count_line (n_loads (port H)) '' cache line loads'' @ count_line (n_stores (port H)) '' cache line stores'' @
     count_line 0 '' l1d misses'' @ count_line 0 '' insns access the l1d''"

definition weighted :: "u64 list \<Rightarrow> u64" where
  "weighted a = foldl (\<lambda>t i. t + a ! i * of_nat i) 0 [0..<length a]"

definition front_text :: "printer \<Rightarrow> 'w harness \<Rightarrow> perf \<Rightarrow> string" where
  "front_text q H p =
     ratio_line q ''avg fetch'' (Over (Conv (weighted (n_fetch p))) (Conv (foldl (+) 0 (n_fetch p)))) @
     value_line ''resteer bubble'' (n_resteer_bubble p) @ value_line ''front-end queues full'' (n_fq_full p) @
     value_line ''fetch_slots'' (fetch_slots p) @ value_line ''total_slots'' (cyc H * 2) @
     value_line ''retire_slots'' (insns_retired H)"

definition exec_text :: "perf \<Rightarrow> string" where
  "exec_text p =
     concat (map (\<lambda>i. value_line (''alloc['' @ dec i @ '']'') (n_alloc p ! i)) [0..<3]) @
     count_line (weighted (n_alloc p)) '' total allocated uops'' @
     count_line (n_int_exec p ! 0) '' cycles where int exec queue is not empty'' @
     count_line (n_int_exec p ! 1) '' cycles where int exec queue dispatches'' @
     count_line (n_int2_exec p ! 0) '' cycles where int2 exec queue is not empty'' @
     count_line (n_int2_exec p ! 1) '' cycles where int2 exec queue dispatches'' @
     count_line (n_mem_exec p ! 0) '' cycles where mem exec queue is not empty'' @
     count_line (n_mem_exec p ! 1) '' cycles where mem exec queue dispatches'' @
     count_line (n_mem_exec p ! 2) '' cycles where mem exec queue is blocked by a store'' @
     count_line (q_full p ! 0) '' cycles with int queue full'' @
     count_line (q_full p ! 1) '' cycles with mem queue full'' @
     count_line (dq_empty p) '' cycles with an empty decode queue'' @
     count_line (uq_full p) '' cycles with a  full uop queue'' @
     count_line (n_active p) '' cycles where the machine is in active state'' @
     count_line (rob_full p) '' cycles where the rob is full''"

section \<open>Distributions\<close>

text \<open>The first value at which the accumulated count reaches the bound.\<close>

fun first_reaching :: "u64 \<Rightarrow> u64 \<Rightarrow> 'k histo \<Rightarrow> 'k option" where
  "first_reaching half x [] = None"
| "first_reaching half x ((k, n) # h) =
    (let x' = x + n in if half \<le> x' then Some k else first_reaching half x' h)"

definition median_line :: "int histo \<Rightarrow> string \<Rightarrow> string" where
  "median_line h what = (case first_reaching (total h div 2) 0 h of
     Some k \<Rightarrow> int_text k @ what @ newline | None \<Rightarrow> '''')"

definition restart_text :: "printer \<Rightarrow> int histo \<Rightarrow> string" where
  "restart_text q h =
     median_line h '' median flush cycles'' @
     (if total h \<noteq> 0 then
        plain_text q (histo_sum h) @ '' cycles spent in pipeline flush'' @ newline @
        count_line (total h) '' times pipeline was flushed'' @
        plain_text q (Over (histo_sum h) (Conv (total h))) @ '' cycles to flush on avg'' @ newline @
        int_text (fst (hd h)) @ '' min cycles to flush'' @ newline @
        int_text (fst (last h)) @ '' max cycles to flush'' @ newline
      else '''')"

definition ds_restart_text :: "printer \<Rightarrow> int histo \<Rightarrow> string" where
  "ds_restart_text q h =
     median_line h '' median delay slot flush cycles'' @
     (if total h \<noteq> 0 then
        plain_text q (histo_sum h) @ '' cycles spent waiting for delay slot in flush'' @ newline @
        plain_text q (Over (histo_sum h) (Conv (total h))) @ '' cycles waiting on delay slot on avg'' @ newline @
        int_text (fst (hd h)) @ '' min cycles for delay slot'' @ newline @
        int_text (fst (last h)) @ '' max cycles for delay slot'' @ newline
      else '''')"

definition times_lines :: "string \<Rightarrow> int histo \<Rightarrow> string" where
  "times_lines what h = concat (map (\<lambda>(k, n). int_text k @ what @ toString n @ '' times'' @ newline) h)"

definition distributions_text :: "printer \<Rightarrow> perf \<Rightarrow> string" where
  "distributions_text q p =
     restart_text q (restart_distribution p) @ ds_restart_text q (restart_ds_distribution p) @
     times_lines '' faults inflight, '' (fault_distribution p) @
     times_lines '' branches inflight, '' (branch_distribution p) @
     times_lines '' cycles before restart, '' (fault_to_restart_distribution p)"

section \<open>Latencies and the cache port\<close>

text \<open>
  Means and medians; each call stores its median where the one before has. Nothing counts in
  \<open>mem_lat_map\<close> and \<open>non_mem_lat_map\<close>: they stay empty.
\<close>

definition mean_median_lines :: "printer \<Rightarrow> string \<Rightarrow> fexpr \<times> int \<Rightarrow> string" where
  "mean_median_lines q what x =
     ratio_line q (''avg '' @ what) (fst x) @ ''median '' @ what @ '' = '' @ int_text (snd x) @ newline"

definition latency_text :: "printer \<Rightarrow> perf \<Rightarrow> retire_log \<Rightarrow> string" where
  "latency_text q p t =
    (let a = histo_mean_median (int_sched_rdy_map p) 0;
         b = histo_mean_median [] 0;
         c = histo_mean_median [] (snd b);
         d = histo_mean_median (mispred_lat_map t) (snd c)
     in mean_median_lines q ''int rdy insn'' a @ mean_median_lines q ''mem alloc to complete'' b @
        mean_median_lines q ''non-mem alloc to complete'' c @
        mean_median_lines q ''mispred branch alloc to complete'' d)"

definition l1d_stall_str :: "string list" where
  "l1d_stall_str = [''no stall'', ''got miss'', ''full memory queue'', ''not possible'', ''load retry'',
     ''store to same set'', ''cm block stall'', ''inflight rob ptr'']"

definition l1d_text :: "printer \<Rightarrow> perf \<Rightarrow> string" where
  "l1d_text q p =
     value_line ''l1d_reqs'' (l1d_reqs p) @ value_line ''l1d_acks'' (l1d_acks p) @
     value_line ''l1d_stores'' (l1d_stores p) @
     ratio_line q ''l1d tput'' (Over (Conv (l1d_acks p)) (Conv (l1d_reqs p))) @
     concat (map (\<lambda>i. if l1d_stall_reasons p ! i \<noteq> 0
       then toString (l1d_stall_reasons p ! i) @ '' '' @ l1d_stall_str ! i @ newline else '''') [1..<8])"

section \<open>The whole end\<close>

record log_files =
  log_text :: string
  branch_text :: string
  pushout_text :: string
  busy_text :: string
  summary :: string

definition total_cycle :: "u64 histo \<Rightarrow> u64" where
  "total_cycle h = foldl (\<lambda>t p. t + fst p * snd p) 0 h"

definition retire_summary :: "printer \<Rightarrow> u64 histo \<Rightarrow> string" where
  "retire_summary q h =
     value_line ''total_retire'' (total h) @ ''total_cycle  = '' @ toString (total_cycle h) @ newline @
     ''total ipc    = '' @ plain_text q (Over (Conv (total h)) (Conv (total_cycle h))) @ newline"

definition run_log ::
    "printer \<Rightarrow> cache_out \<Rightarrow> 'w harness \<Rightarrow> perf \<Rightarrow> retire_log \<Rightarrow> failure + log_files" where
  "run_log q o1 H p t =
    (if \<not> incorrect H then
       bind_r (dump_histo_32 (asm q) (st_s H) (mispredicts H)) (\<lambda>branch.
       bind_r (dump_histo_64 (asm q) (st_s H) (pushout_histo H)) (\<lambda>pushout.
       bind_r (dump_histo_32 (asm q) (st_s H) (busy_loads p)) (\<lambda>busy.
       Inr \<lparr>log_text = summary_text q H @ slots_text q H @ caches_text q o1 @ counters_text q H @
              front_text q H p @ exec_text p @ distributions_text q p @
              count_line (total (pushout_histo H)) '' cycles of pushout'' @
              latency_text q p t @ l1d_text q p,
            branch_text = branch, pushout_text = pushout, busy_text = busy,
            summary = retire_summary q (retire_map t)\<rparr>)))
     else Inr \<lparr>log_text = '''', branch_text = '''', pushout_text = '''', busy_text = '''',
       summary = value_line ''instructions retired'' (insns_retired H)\<rparr>)"

text \<open>
  \<open>helper.cc: timestamp\<close> reads the clock of the machine: the seconds and microseconds of
  \<open>gettimeofday\<close>. The last line of the program is made of two readings, before and after the
  loop; it is printed whether or not the run was incorrect.
\<close>

definition timestamp :: "u64 \<times> u64 \<Rightarrow> fexpr" where
  "timestamp t = Plus (Conv (fst t)) (Times Micro (Conv (snd t)))"

definition elapsed :: "(u64 \<times> u64) \<times> (u64 \<times> u64) \<Rightarrow> fexpr" where
  "elapsed ts = Minus (timestamp (snd ts)) (timestamp (fst ts))"

definition took_text :: "printer \<Rightarrow> (u64 \<times> u64) \<times> (u64 \<times> u64) \<Rightarrow> u64 \<Rightarrow> string" where
  "took_text q ts retired = ''simulation took '' @ plain_text q (elapsed ts) @ '' seconds, '' @
     plain_text q (Over (Conv retired) (elapsed ts)) @ '' insns per second'' @ newline"

lemma exact_elapsed:
  "exact (elapsed ts) = (of_int (int (10 ^ 6 * unat (fst (snd ts)) + unat (snd (snd ts))) -
     int (10 ^ 6 * unat (fst (fst ts)) + unat (snd (fst ts))))) / 10 ^ 6"
  by (simp add: elapsed_def timestamp_def field_simps)

section \<open>What the restart lines report\<close>

lemma total_Cons: "total (p # h) = snd p + total h"
proof -
  have "foldl (\<lambda>c p. c + snd p) a h = a + foldl (\<lambda>c p. c + snd p) 0 h" for a :: u64
  proof (induction h arbitrary: a)
    case (Cons x h)
    from Cons.IH [of "a + snd x"] Cons.IH [of "snd x"] show ?case by (simp add: add.assoc)
  qed simp
  from this [of "snd p"] show ?thesis by (simp add: total_def)
qed

lemma total_bump_by: "total (bump_by k d h) = total h + d"
  by (induction k d h rule: bump_by.induct) (simp_all add: total_Cons total_def [of "[]"] algebra_simps)

lemma total_fold_bump: "total (fold (\<lambda>k. bump k) ks h) = total h + of_nat (length ks)"
  by (induction ks arbitrary: h) (simp_all add: total_bump_by algebra_simps)

lemma keys_fold_bump: "fst ` set (fold (\<lambda>k. bump k) ks h) = set ks \<union> fst ` set h"
proof (induction ks arbitrary: h)
  case (Cons k ks)
  have "fst ` set (bump k h) = insert k (fst ` set h)" using bump_by_keys [of k 1 h] by simp
  with Cons show ?case by auto
qed simp

lemma ordered_min_max:
  assumes "ordered h" and "h \<noteq> []"
  shows "fst (hd h) = Min (fst ` set h) \<and> fst (last h) = Max (fst ` set h)"
proof
  show "fst (hd h) = Min (fst ` set h)"
    using assms ordered_ends [OF assms(1)] by (intro Min_eqI [symmetric]) auto
  show "fst (last h) = Max (fst ` set h)"
    using assms ordered_ends [OF assms(1)] by (intro Max_eqI [symmetric]) auto
qed

text \<open>The arguments of the \<open>record_restart\<close> calls.\<close>

fun restart_args :: "perf_call list \<Rightarrow> int list" where
  "restart_args [] = []"
| "restart_args (c # cs) = (case c of Restart n \<Rightarrow> sint n # restart_args cs | _ \<Rightarrow> restart_args cs)"

lemma do_calls_restarts:
  "ok_r (\<lambda>p'. restart_distribution p' = fold (\<lambda>k. bump k) (restart_args cs) (restart_distribution p)) (do_calls cs p)"
proof (induction cs arbitrary: p)
  case Nil
  then show ?case by simp
next
  case (Cons c cs)
  have one: "ok_r (\<lambda>p1. restart_distribution p1 =
      (case c of Restart n \<Rightarrow> bump (sint n) (restart_distribution p) | _ \<Rightarrow> restart_distribution p)) (do_call c p)"
    by (cases c) (auto simp: perf_defs Let_def)
  show ?case
  proof (cases "do_call c p")
    case (Inr p1)
    with one have "restart_distribution p1 =
      (case c of Restart n \<Rightarrow> bump (sint n) (restart_distribution p) | _ \<Rightarrow> restart_distribution p)" by simp
    with Cons.IH [of p1] Inr show ?thesis by (cases c) (simp_all del: do_call.simps)
  qed simp
qed

text \<open>
  The restart statistics. After any calls of the core with at least one restart (and fewer
  than 2 ^ 64), the log says how often the pipeline was flushed, with the shortest and the
  longest flush, and these are the number and the extremes of the arguments the core called
  \<open>record_restart\<close> with.
\<close>

theorem restart_report:
  assumes "do_calls cs perf_init = Inr p" and "restart_args cs \<noteq> []" and "length (restart_args cs) < 2 ^ 64"
  shows "\<exists>before between. restart_text q (restart_distribution p) = before @
      dec (length (restart_args cs)) @ '' times pipeline was flushed'' @ newline @ between @
      int_text (Min (set (restart_args cs))) @ '' min cycles to flush'' @ newline @
      int_text (Max (set (restart_args cs))) @ '' max cycles to flush'' @ newline"
proof -
  let ?ks = "restart_args cs" and ?h = "restart_distribution p"
  have h: "?h = fold (\<lambda>k. bump k) ?ks []"
    using do_calls_restarts [of cs perf_init] assms(1) by (simp add: perf_init_def)
  have keys: "fst ` set ?h = set ?ks" by (simp add: h keys_fold_bump)
  with assms(2) have "?h \<noteq> []" by auto
  moreover have "ordered ?h"
    using do_calls_wf [OF perf_init_wf, of cs] assms(1) by (simp add: perf_wf_def)
  ultimately have ends: "fst (hd ?h) = Min (set ?ks)" "fst (last ?h) = Max (set ?ks)"
    using ordered_min_max [of ?h] keys by simp_all
  have t: "unat (total ?h) = length ?ks"
    using assms(3) by (simp add: h total_fold_bump total_def [of "[]"] unat_of_nat_small)
  then have "total ?h \<noteq> 0" using assms(2) by auto
  with t ends show ?thesis
    by (intro exI [of _ "median_line ?h '' median flush cycles'' @
        plain_text q (histo_sum ?h) @ '' cycles spent in pipeline flush'' @ newline"]
        exI [of _ "plain_text q (Over (histo_sum ?h) (Conv (total ?h))) @ '' cycles to flush on avg'' @ newline"])
      (simp add: restart_text_def count_line_def toString_def)
qed

theorem restart_report_witness:
  "\<exists>p. do_calls [Restart 9, Tick, Restart 4] perf_init = Inr p \<and>
    (\<forall>q. \<exists>before between. restart_text q (restart_distribution p) = before @
      ''2 times pipeline was flushed'' @ newline @ between @
      ''4 min cycles to flush'' @ newline @ ''9 max cycles to flush'' @ newline)"
proof -
  have "restart_args [Restart 9, Tick, Restart 4] = [9, 4]" by simp
  moreover obtain p where p: "do_calls [Restart 9, Tick, Restart 4] perf_init = Inr p" by simp
  moreover have "dec (Suc (Suc 0)) = ''2''" "int_text 4 = ''4''" "int_text 9 = ''9''" by code_simp+
  ultimately show ?thesis
    using restart_report [OF p] by (auto simp del: do_calls.simps)
qed

end
