(* ===== verification/Observed_Run.thy ===== *)
theory Observed_Run
  imports Cosimulation Run_Log
begin

text \<open>
  The main loop with the functions the core calls back into: within each evaluation the core
  reports to the counters (theory \<open>Perf_Counters\<close>) and to the retirement log (\<open>Retirement\<close>),
  whose static variables stand beside the loop's. What they count never flows back: a run
  with them is the run without them, unless one of them ends the process.
\<close>

section \<open>The core with its calls\<close>

text \<open>
  The calls made within one evaluation, in order. A \<open>Tick\<close>, which is the loop's, is not among
  the functions the core can call; as one of its calls it does nothing.
\<close>

datatype dpi_call = Counts perf_call | Retires retirement

record 'r dpi_core =
  hw :: "'r rtl"
  calls :: "core_in \<Rightarrow> 'r \<Rightarrow> dpi_call list"
  caches :: "'r \<Rightarrow> cache_out"

record stats =
  perf_of :: perf
  log_of :: retire_log

fun do_dpi :: "capstone \<Rightarrow> state_t \<Rightarrow> dpi_call \<Rightarrow> stats \<Rightarrow> failure + stats" where
  "do_dpi cs s (Counts Tick) x = Inr x"
| "do_dpi cs s (Counts p) x = bind_r (do_call p (perf_of x)) (\<lambda>p. Inr (x\<lparr>perf_of := p\<rparr>))"
| "do_dpi cs s (Retires a) x = bind_r (record_retirement cs s a (log_of x)) (\<lambda>t. Inr (x\<lparr>log_of := t\<rparr>))"

fun do_dpis :: "capstone \<Rightarrow> state_t \<Rightarrow> dpi_call list \<Rightarrow> stats \<Rightarrow> failure + stats" where
  "do_dpis cs s [] x = Inr x"
| "do_dpis cs s (c # rest) x = bind_r (do_dpi cs s c x) (do_dpis cs s rest)"

definition tick :: "stats \<Rightarrow> stats" where
  "tick x = x\<lparr>perf_of := (perf_of x)\<lparr>cycle := cycle (perf_of x) + 1\<rparr>\<rparr>"

section \<open>The loop\<close>

text \<open>\<open>main_loop\<close> with the calls made at each edge; the state they see is the core's.\<close>

function observed_loop ::
    "'r dpi_core \<Rightarrow> 'w host \<Rightarrow> globals \<Rightarrow> config \<Rightarrow> u32 \<Rightarrow> 'r \<Rightarrow> 'w harness \<Rightarrow> stats \<Rightarrow>
     failure + 'r \<times> stop option \<times> 'w harness \<times> stats" where
  "observed_loop d h g k start r H x =
    (if \<not> gotFinish (hw d) r \<and> cyc H < max_cycle k \<and> insns_retired H < max_icnt k then
       let r1 = eval (hw d) (inputs True start H) r in
       case do_dpis (asm (prt k)) (st_s H) (calls d (inputs True start H) r) x of
         Inl e \<Rightarrow> Inl e
       | Inr x1 \<Rightarrow>
         (case loop_body h g k (outs (hw d) r1) H of
            Inl e \<Rightarrow> Inl e
          | Inr (Stop why H1) \<Rightarrow> Inr (r1, Some why, H1, x1)
          | Inr (Go H1) \<Rightarrow>
            (case do_dpis (asm (prt k)) (st_s H1) (calls d (inputs False start H1) r1) x1 of
               Inl e \<Rightarrow> Inl e
             | Inr x2 \<Rightarrow> observed_loop d h g k start (eval (hw d) (inputs False start H1) r1)
                 (loop_tail H1) (tick x2)))
     else Inr (r, None, H, x))"
  by pat_completeness auto
termination
  by (relation "measure (\<lambda>(d, h, g, k, start, r, H, x). unat (max_cycle k) - unat (cyc H))")
    (auto dest: loop_decreases)

declare observed_loop.simps [simp del]

text \<open>How a call can end the process.\<close>

definition call_failure :: "failure \<Rightarrow> bool" where
  "call_failure e \<longleftrightarrow> e = Exit_called (- 1) \<or> (\<exists>a. e = Bad_access a)"

lemma do_call_failure: "err_r call_failure (do_call c p)"
  by (cases c) (auto simp: record_l1d_def Let_def call_failure_def)

lemma do_dpi_failure: "err_r call_failure (do_dpi cs s c x)"
proof (cases c)
  case (Counts p)
  then show ?thesis using do_call_failure [of p "perf_of x"]
    by (cases p) (simp_all add: err_r_bind del: do_call.simps)
next
  case (Retires a)
  have "err_r call_failure (record_retirement cs s a t)" for t
    by (auto simp: record_retirement_def get_insn_def Let_def err_r_bind call_failure_def)
  with Retires show ?thesis by (simp add: err_r_bind)
qed

lemma do_dpis_failure: "do_dpis cs s l x = Inl e \<Longrightarrow> call_failure e"
proof (induction l arbitrary: x)
  case (Cons c l)
  then show ?case using do_dpi_failure [of cs s c x] by (auto simp: bind_r_eq_Inl_iff)
qed simp

text \<open>One iteration, beside the loop without the calls.\<close>

lemma observed_iteration:
  fixes d :: "'r dpi_core" and h :: "'w host" and start r H
  defines "r1 \<equiv> eval (hw d) (inputs True start H) r"
  obtains (ends) "observed_loop d h g k start r H x = Inr (r, None, H, x)"
      and "main_loop (hw d) h g k start r H = Inr (r, None, H)"
  | (call) e where "observed_loop d h g k start r H x = Inl e" and "call_failure e"
  | (body) e where "observed_loop d h g k start r H x = Inl e" and "main_loop (hw d) h g k start r H = Inl e"
  | (stops) x1 why H1 where "do_dpis (asm (prt k)) (st_s H) (calls d (inputs True start H) r) x = Inr x1"
      and "loop_body h g k (outs (hw d) r1) H = Inr (Stop why H1)"
      and "observed_loop d h g k start r H x = Inr (r1, Some why, H1, x1)"
      and "main_loop (hw d) h g k start r H = Inr (r1, Some why, H1)"
  | (goes) x1 H1 x2 where "\<not> gotFinish (hw d) r \<and> cyc H < max_cycle k \<and> insns_retired H < max_icnt k"
      and "do_dpis (asm (prt k)) (st_s H) (calls d (inputs True start H) r) x = Inr x1"
      and "loop_body h g k (outs (hw d) r1) H = Inr (Go H1)"
      and "do_dpis (asm (prt k)) (st_s H1) (calls d (inputs False start H1) r1) x1 = Inr x2"
      and "observed_loop d h g k start r H x =
        observed_loop d h g k start (eval (hw d) (inputs False start H1) r1) (loop_tail H1) (tick x2)"
      and "main_loop (hw d) h g k start r H =
        main_loop (hw d) h g k start (eval (hw d) (inputs False start H1) r1) (loop_tail H1)"
proof -
  let ?c = "\<not> gotFinish (hw d) r \<and> cyc H < max_cycle k \<and> insns_retired H < max_icnt k"
  note o1 = observed_loop.simps [of d h g k start r H x, folded r1_def]
    and m = main_loop.simps [of "hw d" h g k start r H, folded r1_def]
  show thesis
  proof (cases ?c)
    case False
    with o1 m show thesis by (intro ends) auto
  next
    case True
    show thesis
    proof (cases "do_dpis (asm (prt k)) (st_s H) (calls d (inputs True start H) r) x")
      case (Inl e)
      with True o1 do_dpis_failure [OF Inl] show thesis by (intro call) auto
    next
      case x1: (Inr x1)
      show thesis
      proof (cases "loop_body h g k (outs (hw d) r1) H")
        case (Inl e)
        with True x1 o1 m show thesis by (intro body) auto
      next
        case b: (Inr out)
        show thesis
        proof (cases out)
          case (Stop why H1)
          with True x1 b o1 m show thesis by (intro stops) auto
        next
          case (Go H1)
          show thesis
          proof (cases "do_dpis (asm (prt k)) (st_s H1) (calls d (inputs False start H1) r1) x1")
            case (Inl e)
            with True x1 b Go o1 do_dpis_failure [OF Inl] show thesis by (intro call) auto
          next
            case (Inr x2)
            with True x1 b Go o1 m show thesis by (intro goes) auto
          qed
        qed
      qed
    qed
  qed
qed

section \<open>The calls only observe\<close>

lemma observed_is_main:
  "case observed_loop d h g k start r H x of
     Inr (r', why, H', x') \<Rightarrow> main_loop (hw d) h g k start r H = Inr (r', why, H')
   | Inl e \<Rightarrow> main_loop (hw d) h g k start r H = Inl e \<or> call_failure e"
proof (induction d h g k start r H x rule: observed_loop.induct)
  case (1 d h g k start r H x)
  show ?case
  proof (rule observed_iteration [of d h g k start r H x])
    fix x1 H1 x2
    let ?r1 = "eval (hw d) (inputs True start H) r"
    assume c: "\<not> gotFinish (hw d) r \<and> cyc H < max_cycle k \<and> insns_retired H < max_icnt k"
      "do_dpis (asm (prt k)) (st_s H) (calls d (inputs True start H) r) x = Inr x1"
      "loop_body h g k (outs (hw d) ?r1) H = Inr (Go H1)"
      "do_dpis (asm (prt k)) (st_s H1) (calls d (inputs False start H1) ?r1) x1 = Inr x2"
      and o1: "observed_loop d h g k start r H x =
        observed_loop d h g k start (eval (hw d) (inputs False start H1) ?r1) (loop_tail H1) (tick x2)"
      and m: "main_loop (hw d) h g k start r H =
        main_loop (hw d) h g k start (eval (hw d) (inputs False start H1) ?r1) (loop_tail H1)"
    show ?thesis unfolding o1 m by (rule "1.IH" [OF c(1) refl c(2,3) refl c(4)])
  qed simp_all
qed


section \<open>Invariants of the loop and the counters\<close>

lemma do_dpis_rule:
  assumes "\<And>x c. P x \<Longrightarrow> ok_r P (do_dpi cs s c x)"
  shows "P x \<Longrightarrow> ok_r P (do_dpis cs s l x)"
proof (induction l arbitrary: x)
  case (Cons c l)
  from assms [OF Cons.prems, of c] Cons.IH show ?case by (auto elim: ok_r_mono)
qed simp

lemma observed_loop_rule:
  assumes "P H x"
    and body: "\<And>c H x. P H x \<Longrightarrow> ok_r (case_outcome (\<lambda>H'. P H' x) (\<lambda>why H'. P H' x)) (loop_body h g k c H)"
    and dpi: "\<And>H x s c. P H x \<Longrightarrow> ok_r (P H) (do_dpi (asm (prt k)) s c x)"
    and tail: "\<And>H x. P H x \<Longrightarrow> P (loop_tail H) (tick x)"
  shows "ok_r (\<lambda>(r', why, H', x'). P H' x') (observed_loop d h g k start r H x)"
  using assms
proof (induction d h g k start r H x rule: observed_loop.induct)
  case (1 d h g k start r H x)
  let ?r1 = "eval (hw d) (inputs True start H) r"
  have dpis: "P H1 y'" if "do_dpis (asm (prt k)) s l y = Inr y'" "P H1 y" for H1 s l y y'
    using do_dpis_rule [of "P H1" "asm (prt k)" s y l, OF "1.prems"(3) that(2)] that(1) by simp
  show ?case
  proof (rule observed_iteration [of d h g k start r H x])
    fix x1 why H1
    assume c: "do_dpis (asm (prt k)) (st_s H) (calls d (inputs True start H) r) x = Inr x1"
      "loop_body h g k (outs (hw d) ?r1) H = Inr (Stop why H1)"
      and o1: "observed_loop d h g k start r H x = Inr (?r1, Some why, H1, x1)"
    from dpis [OF c(1) "1.prems"(1)] "1.prems"(2) [of H x1 "outs (hw d) ?r1"] c(2) o1 show ?thesis by simp
  next
    fix x1 H1 x2
    assume c: "\<not> gotFinish (hw d) r \<and> cyc H < max_cycle k \<and> insns_retired H < max_icnt k"
      "do_dpis (asm (prt k)) (st_s H) (calls d (inputs True start H) r) x = Inr x1"
      "loop_body h g k (outs (hw d) ?r1) H = Inr (Go H1)"
      "do_dpis (asm (prt k)) (st_s H1) (calls d (inputs False start H1) ?r1) x1 = Inr x2"
      and o1: "observed_loop d h g k start r H x =
        observed_loop d h g k start (eval (hw d) (inputs False start H1) ?r1) (loop_tail H1) (tick x2)"
    have "P H1 x1" using dpis [OF c(2) "1.prems"(1)] "1.prems"(2) [of H x1 "outs (hw d) ?r1"] c(3) by simp
    then have "P (loop_tail H1) (tick x2)" using dpis [OF c(4)] "1.prems"(4) by blast
    from "1.IH" [OF c(1) refl c(2,3) refl c(4) this "1.prems"(2-4)] show ?thesis by (simp add: o1)
  qed (use "1.prems"(1) in simp_all)
qed

text \<open>
  The types of the counters: the arrays have their sizes and the maps are ordered, in the loop
  and in what the calls count, the clock the calls read is the loop's, and the records of
  the pipeline log are numbered consecutively, as far as the numbers lie in its window.
\<close>

definition harness_wf :: "'w harness \<Rightarrow> bool" where
  "harness_wf H \<longleftrightarrow> length (inflight H) = 32 \<and> ordered (mispredicts H) \<and> ordered (pushout_histo H)"

definition log_wf :: "retire_log \<Rightarrow> bool" where
  "log_wf t \<longleftrightarrow> ordered (mispred_lat_map t) \<and> ordered (retire_map t) \<and>
     (\<forall>rs. pl t = Some rs \<longrightarrow> (\<exists>a b. a \<le> b \<and> record_insns_retired t = of_nat b \<and>
        map uuid rs = filter (in_window t) (map of_nat [a..<b])))"

definition stats_wf :: "u64 \<Rightarrow> stats \<Rightarrow> bool" where
  "stats_wf c x \<longleftrightarrow> perf_wf (perf_of x) \<and> cycle (perf_of x) = c \<and> log_wf (log_of x)"

text \<open>The loop's own counters.\<close>

lemma progress_wf: "harness_wf H \<Longrightarrow> progress k name p H = Inr H' \<Longrightarrow> harness_wf H'"
  by (erule progressE) (simp add: harness_wf_def)

lemma count_retired_wf:
  assumes "harness_wf H" and "count_retired k c H = Inr H'"
  shows "harness_wf H'"
proof -
  define H4 where "H4 = (let H1 = H\<lparr>insns_retired := insns_retired H + 1\<rparr>;
         H2 = (if last_retire H1 > 1
               then H1\<lparr>pushout_histo := bump_by (ucast (retire_pc c)) (last_retire H1) (pushout_histo H1)\<rparr> else H1);
         H3 = H2\<lparr>last_retire := 0, last_retired_pc := ucast (retire_pc c)\<rparr>
    in if insns_retired H3 \<ge> start_trace_at k then H3\<lparr>trace_retirement := True\<rparr> else H3)"
  have 4: "harness_wf H4" using assms(1) by (simp add: H4_def Let_def harness_wf_def hist.inv_inc)
  from assms(2) obtain H5 where 5: "progress k ''port a'' (retire_pc c) H4 = Inr H5"
    and 6: "if retire_two_valid c
      then progress k ''port b'' (retire_two_pc c) (H5\<lparr>insns_retired := insns_retired H5 + 1\<rparr>) = Inr H'
      else H' = H5"
    by (auto simp: count_retired_def H4_def Let_def bind_r_eq_Inr_iff split: if_splits)
  from progress_wf [OF 4 5] have "harness_wf H5" and "harness_wf (H5\<lparr>insns_retired := insns_retired H5 + 1\<rparr>)"
    by (simp_all add: harness_wf_def)
  with 6 show ?thesis by (auto intro: progress_wf split: if_splits)
qed

lemma harness_wf_plain [simp]:
  "harness_wf (retire_reg_one c H) \<longleftrightarrow> harness_wf H" "harness_wf H \<Longrightarrow> harness_wf (count_events c H)"
  "harness_wf H \<Longrightarrow> harness_wf (count_inflight c H)" "harness_wf (loop_tail H) \<longleftrightarrow> harness_wf H"
  by (auto simp: harness_wf_def retire_reg_one_def count_events_def count_inflight_def loop_tail_def
      hist.inv_inc Let_def)

lemma harness_wf_body:
  assumes "harness_wf H"
  shows "ok_r (case_outcome harness_wf (\<lambda>why. harness_wf)) (loop_body h g k c H)"
proof (rule loop_body_rule [where PA = harness_wf and PB = harness_wf and PC = harness_wf and PD = harness_wf])
  show "ok_r (case_outcome harness_wf (\<lambda>why. harness_wf)) (service_monitor h g c H)"
    using assms by (auto simp: service_monitor_def harness_wf_def intro!: ok_rI split: prod.splits)
  show "ok_r (case_outcome harness_wf (\<lambda>why. harness_wf)) (retire_one h g k c (count_events c (retire_reg_one c H')))"
    if "harness_wf H'" for H' :: "'a harness"
  proof (rule retire_one_rule)
    let ?R = "count_events c (retire_reg_one c H')"
    have w: "harness_wf ?R" using that by simp
    then show "harness_wf ?R" .
    fix H1 assume "count_retired k c ?R = Inr H1"
    with w have "harness_wf H1" by (rule count_retired_wf)
    then show "harness_wf H1" and
      "ok_r (case_outcome harness_wf (\<lambda>why. harness_wf)) (stop_with Unaligned (Inr (unaligned_text, '''')) H1)" and
      "ok_r (case_outcome harness_wf (\<lambda>why. harness_wf)) (check_one h g k c H1)"
      by (auto simp: harness_wf_def check_one_def Let_def intro!: ok_rI stop_with_rule split: prod.splits if_splits)
  qed
  show "ok_r (case_outcome harness_wf (\<lambda>why. harness_wf)) (retire_two h g k c H')"
    if "harness_wf H'" for H' :: "'a harness"
    using that by (auto simp: retire_two_def harness_wf_def Let_def bind_r_eq_Inr_iff intro!: ok_rI split: prod.splits if_splits)
  show "ok_r (case_outcome harness_wf (\<lambda>why. harness_wf)) (watchdog k c H')"
    if "harness_wf H'" for H' :: "'a harness"
    using that by (auto simp: watchdog_def harness_wf_def Let_def intro!: stop_with_rule)
  show "ok_r harness_wf (serve_memory k c (count_inflight c H'))"
    if "harness_wf H'" for H' :: "'a harness"
  proof -
    have "harness_wf (count_inflight c H')" using that by simp
    then show ?thesis by (auto simp: serve_memory_def harness_wf_def Let_def intro!: ok_rI split: prod.splits)
  qed
qed

text \<open>The calls.\<close>

lemma record_retirement_wf:
  assumes "log_wf t" and "record_retirement cs s a t = Inr t'"
  shows "log_wf t'"
proof -
  note ok = record_retirement_ok [OF assms(2)]
  have o1: "ordered (mispred_lat_map t')" and o2: "ordered (retire_map t')"
    using assms by (auto simp: log_wf_def record_retirement_def Let_def bind_r_eq_Inr_iff hist.inv_inc
        split: if_splits option.splits)
  have w: "in_window t' = in_window t" using ok(6,7) by (simp add: in_window_def fun_eq_iff)
  have "\<exists>a b. a \<le> b \<and> record_insns_retired t' = of_nat b \<and>
      map uuid rs' = filter (in_window t') (map of_nat [a..<b])"
    if p': "pl t' = Some rs'" for rs'
  proof -
    from ok(9) obtain insn where p: "pl t' = map_option (\<lambda>rs. if in_window t (record_insns_retired t)
        then append_record rs (record_insns_retired t) (retire_disasm cs (pl_regs t') insn (rt_pc a))
          (rt_pc a) (rt_fetch a) (rt_alloc a) (rt_complete a) (rt_retire a) (rt_faulted a \<noteq> 0)
        else rs) (pl t)"
      by (auto simp: in_window_def)
    with p' obtain rs where rs: "pl t = Some rs" by auto
    with assms(1) obtain n m where m: "record_insns_retired t = of_nat m"
      "map uuid rs = filter (in_window t) (map of_nat [n..<m])" "n \<le> m"
      by (auto simp: log_wf_def)
    have "map uuid rs' = filter (in_window t') (map of_nat [n..<Suc m])"
      using p p' rs m w by (auto simp: append_record_def split: if_splits)
    moreover have "record_insns_retired t' = of_nat (Suc m)" "n \<le> Suc m" using ok(4) m(1,3) by simp_all
    ultimately show ?thesis by blast
  qed
  with o1 o2 show ?thesis by (simp add: log_wf_def)
qed

lemma do_dpi_wf:
  assumes "stats_wf c x"
  shows "ok_r (stats_wf c) (do_dpi cs s call x)"
proof (cases call)
  case (Counts p)
  have "ok_r (\<lambda>p'. cycle p' = cycle (perf_of x)) (do_call p (perf_of x))" if "p \<noteq> Tick"
    using that by (cases p) (auto simp: perf_defs Let_def)
  moreover have "ok_r perf_wf (do_call p (perf_of x))" using assms by (simp add: stats_wf_def do_call_wf)
  ultimately show ?thesis using Counts assms
    by (cases p) (auto simp: stats_wf_def intro!: ok_rI simp: bind_r_eq_Inr_iff simp del: do_call.simps)
next
  case (Retires a)
  with assms show ?thesis
    by (auto simp: stats_wf_def intro!: ok_rI intro: record_retirement_wf simp: bind_r_eq_Inr_iff)
qed

lemma tick_wf: "stats_wf c x \<Longrightarrow> stats_wf (c + 1) (tick x)"
  by (simp add: stats_wf_def tick_def perf_wf_def)

lemma observed_wf:
  assumes "harness_wf H" and "stats_wf (cyc H) x"
  shows "ok_r (\<lambda>(r', why, H', x'). harness_wf H' \<and> stats_wf (cyc H') x') (observed_loop d h g k start r H x)"
proof (rule observed_loop_rule [where P = "\<lambda>H x. harness_wf H \<and> stats_wf (cyc H) x"])
  fix c and H :: "'a harness" and x
  assume w: "harness_wf H \<and> stats_wf (cyc H) x"
  then have "ok_r (case_outcome harness_wf (\<lambda>why. harness_wf)) (loop_body h g k c H)"
    by (simp add: harness_wf_body)
  with loop_body_cyc [of H h g k c] w
  show "ok_r (case_outcome (\<lambda>H'. harness_wf H' \<and> stats_wf (cyc H') x) (\<lambda>why H'. harness_wf H' \<and> stats_wf (cyc H') x))
      (loop_body h g k c H)"
    by (cases "loop_body h g k c H") (auto split: outcome.splits)
next
  fix H :: "'a harness" and x s c
  assume w: "harness_wf H \<and> stats_wf (cyc H) x"
  then have "ok_r (stats_wf (cyc H)) (do_dpi (asm (prt k)) s c x)" by (simp add: do_dpi_wf)
  with w show "ok_r (\<lambda>x. harness_wf H \<and> stats_wf (cyc H) x) (do_dpi (asm (prt k)) s c x)"
    by (auto elim: ok_r_mono)
qed (use assms in \<open>auto simp: tick_wf\<close>)

end
