(* ===== verification/Program.thy ===== *)
theory Program
  imports Startup Observed_Run
begin

text \<open>
  \<open>top.cc: main\<close> as a whole: the argument vector, the disassembler, one of the two ways to
  start, the main loop with the calls of the core, the files and the summary. The options,
  which the library \<open>boost::program_options\<close> parses, are a record with their defaults; the
  framebuffer window is left out. A run that fails, by an assertion, an exit or an access
  outside the memory, ends with that failure; one whose core never becomes ready or never
  finishes the register code does not end (\<open>None\<close>).
\<close>

section \<open>The options\<close>

text \<open>\<open>binary_file\<close> is what the file named \<open>rv32_binary\<close> holds, if it can be read.\<close>

record options =
  use_checkpoint :: bool
  rv32_binary :: string
  binary_file :: "u8 list option"
  sys_args :: string
  trace_option :: bool
  log_name :: string
  pushout_name :: string
  branch_name :: string
  pipelog :: string
  pipe_window :: "u64 \<times> u64"
  conf :: config

definition default_options :: "printer \<Rightarrow> u8 list option \<Rightarrow> options" where
  "default_options q file = \<lparr>use_checkpoint = False, rv32_binary = ''dhrystone3'', binary_file = file,
     sys_args = '''', trace_option = False, log_name = ''log.txt'', pushout_name = ''pushout.txt'',
     branch_name = ''branch_info.txt'', pipelog = '''', pipe_window = (0, - 1),
     conf = \<lparr>enable_checker = True, max_cycle = 2 ^ 34, max_icnt = 2 ^ 50, mem_lat = 4,
       heartbeat = 2 ^ 24, start_trace_at = - 1, prt = q\<rparr>\<rparr>"

section \<open>Start\<close>

definition ckpt_none :: "state_t \<Rightarrow> core_in \<Rightarrow> ckpt" where
  "ckpt_none s i = \<lparr>ck_s = s, ck_in = i, ck_last_retire = 0, ck_last_pc = 0, ck_text = ''''\<rparr>"

text \<open>The states, the core and the clock before the last reset.\<close>

definition start_run ::
    "'r rtl \<Rightarrow> globals \<Rightarrow> options \<Rightarrow> core_in \<Rightarrow> 'r \<Rightarrow>
     (failure + globals \<times> u64 \<times> 'r \<times> ckpt \<times> state_t) option" where
  "start_run v g opt i r =
    (if use_checkpoint opt then
       bind_o (start_checkpoint (if trace_option opt then Some (prt (conf opt)) else None) v i (binary_file opt) r)
         (\<lambda>(c, r1, k, ss). Some (Inr (g, c, r1, k, ss)))
     else
       bind_o (Some (start_elf (binary_file opt) g)) (\<lambda>(g1, s, ss). Some (Inr (g1, 0, r, ckpt_none s i, ss))))"

text \<open>
  What has been counted before the loop is entered (the core is also evaluated while it is
  reset), with the clock and the pipeline logger as they are then.
\<close>

definition enter_stats :: "options \<Rightarrow> u64 \<Rightarrow> stats \<Rightarrow> stats" where
  "enter_stats opt c x = \<lparr>perf_of = (perf_of x)\<lparr>cycle := c\<rparr>,
     log_of = (log_of x)\<lparr>pl := if pipelog opt \<noteq> '''' then Some [] else None,
       pipestart := fst (pipe_window opt), pipeend := snd (pipe_window opt)\<rparr>\<rparr>"

section \<open>End\<close>

text \<open>
  The argument vector of the guest, the files written, in the order they are opened, the
  pipeline log when it is closed, and the console.
\<close>

record 'f results =
  guest_args :: "nat \<times> string list"
  out_files :: "(string \<times> string) list"
  pipe_file :: "(string \<times> 'f) option"
  printed :: string

definition finish_run ::
    "(item list list \<Rightarrow> 'f) \<Rightarrow> cache_out \<Rightarrow> options \<Rightarrow> (u64 \<times> u64) \<times> (u64 \<times> u64) \<Rightarrow>
     'w harness \<Rightarrow> stats \<Rightarrow> failure + 'f results" where
  "finish_run archive o1 opt ts H x =
    bind_r (run_log (prt (conf opt)) o1 H (perf_of x) (log_of x)) (\<lambda>f.
    Inr \<lparr>guest_args = buildArgcArgv (rv32_binary opt) (Some (sys_args opt)),
         out_files = (if incorrect H then [] else
           [(log_name opt, log_text f), (branch_name opt, branch_text f),
            (pushout_name opt, pushout_text f), (''busy_loads.txt'', busy_text f)]),
         pipe_file = map_option (\<lambda>rs. (pipelog opt, close_logger archive rs)) (pl (log_of x)),
         printed = console H @ summary f @ took_text (prt (conf opt)) ts (insns_retired H)\<rparr>)"

definition run_main ::
    "'r dpi_core \<Rightarrow> 'w host \<Rightarrow> (item list list \<Rightarrow> 'f) \<Rightarrow> globals \<Rightarrow> options \<Rightarrow> cs_err \<Rightarrow>
     (u64 \<times> u64) \<times> (u64 \<times> u64) \<Rightarrow> 'w \<Rightarrow> core_in \<Rightarrow> 'r \<Rightarrow> stats \<Rightarrow> (failure + stop option \<times> 'w harness \<times> stats \<times> 'f results) option" where
  "run_main d h archive g opt cs_open ts w i r x =
     bind_o (Some (fst (initCapstone cs_open))) (\<lambda>_.
     bind_o (start_run (hw d) g opt i r) (\<lambda>(g1, c, r1, k, ss).
     case enter_loop (hw d) w (trace_option opt) c r1 k ss of
       None \<Rightarrow> None
     | Some (r2, i2, H) \<Rightarrow>
         bind_o (Some (observed_loop d h g1 (conf opt) (resume_pc i2) r2 H (enter_stats opt (cyc H) x)))
           (\<lambda>(r3, why, H', x').
         bind_o (Some (finish_run archive (caches d r3) opt ts H' x')) (\<lambda>res.
         Some (Inr (why, H', x', res))))))"

section \<open>What a run reports\<close>

text \<open>The state the simulator starts from: what it loads.\<close>

definition simulator_start :: "globals \<Rightarrow> options \<Rightarrow> failure + state_t" where
  "simulator_start g opt = (if use_checkpoint opt then loadState initState (binary_file opt)
     else bind_r (start_elf (binary_file opt) g) (\<lambda>(g1, s, ss). Inr ss))"

lemma simulator_start_elf:
  assumes "simulator_start g opt = Inr ss" and "\<not> use_checkpoint opt"
  shows "icnt ss = 0"
proof -
  have "icnt s1 = icnt s" if "load_elf bytes (g, s) = Inr (g1, s1)" for bytes g s g1 s1
    using that by (auto simp: load_elf_def Let_def bind_r_eq_Inr_iff split: option.splits)
  then show ?thesis
    using assms by (auto simp: simulator_start_def start_elf_def bind_r_eq_Inr_iff initState_def)
qed

lemma run_main_loop:
  assumes "run_main d h archive g opt cs_open ts w i r x = Some (Inr (why, H', x', res))"
  obtains ss g1 start r2 H r3 where "simulator_start g opt = Inr ss"
    and "observed_loop d h g1 (conf opt) start r2 H (enter_stats opt (cyc H) x) = Inr (r3, why, H', x')"
    and "st_ss H = ss" and "n_checks H = 0" and "\<not> incorrect H" and "harness_wf H"
    and "finish_run archive (caches d r3) opt ts H' x' = Inr res"
proof -
  from assms obtain c r1 ck ss g1 r2 i2 H r3 where st: "start_run (hw d) g opt i r = Some (Inr (g1, c, r1, ck, ss))"
    and en: "enter_loop (hw d) w (trace_option opt) c r1 ck ss = Some (r2, i2, H)"
    and run: "observed_loop d h g1 (conf opt) (resume_pc i2) r2 H (enter_stats opt (cyc H) x) = Inr (r3, why, H', x')"
    and fin: "finish_run archive (caches d r3) opt ts H' x' = Inr res"
    by (auto simp: run_main_def elim!: bind_o_Inr split: option.splits prod.splits)
  have "simulator_start g opt = Inr ss"
    using st by (auto simp: start_run_def start_checkpoint_def simulator_start_def elim!: bind_o_Inr split: if_splits)
  moreover have "st_ss H = ss" "n_checks H = 0" "\<not> incorrect H" "harness_wf H"
    using en by (auto simp: enter_loop_def harness_init_def harness_wf_def ordered_def split: option.splits)
  ultimately show thesis using run fin by (intro that)
qed

text \<open>
  C7. A whole run, from an ELF file or a checkpoint, whatever the core reports. When the program
  ends, the simulator has executed one instruction for each check that was counted, and one
  more exactly when the run stopped at a divergence. In that case no statistics are written and
  the console ends with the number of retired instructions and the seconds it took; in every other case they are, and
  the number of checks on their first line is the number of instructions the simulator has
  executed since it was loaded.
\<close>

theorem run_reported:
  assumes "run_main d h archive g opt cs_open ts w i r x = Some (Inr (why, H', x', res))"
  shows "\<exists>ss. simulator_start g opt = Inr ss \<and>
    icnt (st_ss H') - icnt ss = n_checks H' + (if why = Some Diverged then 1 else 0) \<and>
    (if why = Some Diverged
     then out_files res = [] \<and>
       printed res = console H' @ ''instructions retired = '' @ toString (insns_retired H') @ newline @
         took_text (prt (conf opt)) ts (insns_retired H')
     else \<exists>rest more. out_files res = (log_name opt, ''n_mispredicts = '' @ toString (n_mispredicts H') @
         '', cycles = '' @ toString (cyc H') @ '', insns = '' @ toString (insns_retired H') @
         '', n_checks = '' @ toString (icnt (st_ss H') - icnt ss) @ newline @ rest) # more)"
proof -
  obtain ss g1 start r2 H r3 where ss: "simulator_start g opt = Inr ss"
    and run: "observed_loop d h g1 (conf opt) start r2 H (enter_stats opt (cyc H) x) = Inr (r3, why, H', x')"
    and H: "st_ss H = ss" "n_checks H = 0" "\<not> incorrect H"
    and fin: "finish_run archive (caches d r3) opt ts H' x' = Inr res"
    by (rule run_main_loop [OF assms])
  have m: "main_loop (hw d) h g1 (conf opt) start r2 H = Inr (r3, why, H')"
    using observed_is_main [of d h g1 "conf opt" start r2 H "enter_stats opt (cyc H) x"] run by simp
  have "icnt (st_ss H') - icnt (st_ss H) = n_checks H' - n_checks H + (if why = Some Diverged then 1 else 0)"
    using loop_in_step [of H "hw d" h g1 "conf opt" start r2] m by simp
  moreover have "incorrect H' \<longleftrightarrow> why = Some Diverged"
    using loop_marks [OF H(3), of "hw d" h g1 "conf opt" start r2] m by simp
  ultimately show ?thesis using ss H fin
    by (auto simp: finish_run_def run_log_def summary_text_def value_line_def bind_r_eq_Inr_iff)
qed

section \<open>An example\<close>

text \<open>A core that calls nothing: the clock is all that moves beside the loop.\<close>

definition silent :: "'r rtl \<Rightarrow> 'r dpi_core" where
  "silent v = \<lparr>hw = v, calls = (\<lambda>i r. []), caches = (\<lambda>r. \<lparr>l1d_cache_hits = 0, l1d_cache_accesses = 0,
     l1i_cache_hits = 0, l1i_cache_accesses = 0, l2_cache_hits = 0, l2_cache_accesses = 0\<rparr>)\<rparr>"

lemma silent_sel [simp]: "hw (silent v) = v" "calls (silent v) i r = []"
  by (simp_all add: silent_def)

lemma silent_loop:
  assumes "main_loop v h g k start r H = Inr (r', why, H')"
  shows "\<exists>n. observed_loop (silent v) h g k start r H x = Inr (r', why, H', (tick ^^ n) x)"
  using assms
proof (induction v h g k start r H arbitrary: x rule: main_loop.induct)
  case (1 v h g k start r H)
  let ?r1 = "eval v (inputs True start H) r"
  note m = "1.prems" [unfolded main_loop.simps [of v h g k start r H]]
    and o1 = observed_loop.simps [of "silent v" h g k start r H x]
  show ?case
  proof (cases "\<not> gotFinish v r \<and> cyc H < max_cycle k \<and> insns_retired H < max_icnt k")
    case False
    with m o1 show ?thesis by (auto intro!: exI [of _ 0])
  next
    case True
    with m obtain out where b: "loop_body h g k (outs v ?r1) H = Inr out" by (auto simp: Let_def split: sum.splits)
    show ?thesis
    proof (cases out)
      case (Stop w1 H1)
      with True b m o1 show ?thesis by (auto intro!: exI [of _ 0])
    next
      case (Go H1)
      with True b m have "main_loop v h g k start (eval v (inputs False start H1) ?r1) (loop_tail H1) = Inr (r', why, H')"
        by simp
      from "1.IH" [OF True refl b Go this, of "tick x"] obtain n where
        "observed_loop (silent v) h g k start (eval v (inputs False start H1) ?r1) (loop_tail H1) (tick x) =
          Inr (r', why, H', (tick ^^ n) (tick x))" by blast
      with True b Go o1 show ?thesis by (auto simp: funpow_swap1 intro!: exI [of _ "Suc n"])
    qed
  qed
qed

lemma ticks_sel [simp]: "busy_loads (perf_of ((tick ^^ n) x)) = busy_loads (perf_of x)"
    "log_of ((tick ^^ n) x) = log_of x"
  by (induction n) (simp_all add: tick_def)

lemma dead_core_histos:
  assumes "mispredicts H = []" and "pushout_histo H = []"
  shows "ok_r (\<lambda>(r', why, H'). mispredicts H' = [] \<and> pushout_histo H' = []) (main_loop dead_core h g k start r H)"
proof -
  let ?P = "\<lambda>H :: 'a harness. mispredicts H = [] \<and> pushout_histo H = []"
  have "ok_r (case_outcome (\<lambda>H'. ?P (loop_tail H')) (\<lambda>why. ?P)) (loop_body h g k idle_out H)" if "?P H" for H
  proof (rule loop_body_rule [where PA = ?P and PB = ?P and PC = ?P and PD = ?P])
    show "ok_r (\<lambda>H'. ?P (loop_tail H')) (serve_memory k idle_out (count_inflight idle_out H'))" if "?P H'" for H'
      using that by (auto simp: serve_memory_def count_inflight_def loop_tail_def Let_def intro!: ok_rI split: prod.splits)
  qed (use that in \<open>auto simp: service_monitor_def retire_one_def retire_two_def watchdog_def idle_out_def
      count_events_def retire_reg_one_def Let_def intro!: stop_with_rule\<close>)
  then show ?thesis
    using main_loop_core_rule [of "\<lambda>_. ?P" r H k dead_core start "\<lambda>why. ?P" h g] assms
    by (auto simp: dead_core_def elim!: ok_r_mono split: option.splits)
qed

lemma dead_core_enters:
  "\<exists>i2 H. enter_loop dead_core w False 0 () (ckpt_none s demo_in) ss = Some ((), i2, H) \<and>
    idle_port H \<and> cyc H = 6 \<and> last_retire H = 0 \<and> insns_retired H = 0 \<and> last_retired_pc H = 0 \<and>
    mispredicts H = [] \<and> pushout_histo H = []"
proof -
  have w: "wait_ready dead_core j c () = Some (c, ())" for j c
    by (subst wait_ready.simps) (simp add: dead_core_def idle_out_def)
  obtain i2 where "reset_core dead_core 0 (pc s) demo_in () = Some (6, i2, ())"
    using reset_only_once [of dead_core 0 demo_in "()"] w
    by (simp add: reset_core_def dead_core_def pulse_def Let_def word_less_nat_alt)
  then show ?thesis
    by (simp add: enter_loop_def ckpt_none_def harness_init_def idle_port_def mem_port_init_def)
qed

definition demo_options :: options where
  "demo_options = (default_options (prt demo_config) (Some demo_elf))\<lparr>conf := demo_config\<rparr>"

definition demo_times :: "(u64 \<times> u64) \<times> (u64 \<times> u64)" where
  "demo_times = ((1700000000, 0), (1700000002, 500000))"

definition stats_init :: stats where
  "stats_init = \<lparr>perf_of = perf_init, log_of = retire_init None 0 (- 1)\<rparr>"

lemma silent_demo_run:
  "\<exists>H' x' res. run_main (silent dead_core) echo_host id example_globals demo_options CS_ERR_OK demo_times [] demo_in ()
      stats_init = Some (Inr (Some No_retire, H', x', res))"
proof -
  let ?d = "silent dead_core"
  have opt: "conf demo_options = demo_config" "use_checkpoint demo_options = False" "trace_option demo_options = False"
    "binary_file demo_options = Some demo_elf" "log_name demo_options = ''log.txt''"
    by (simp_all add: demo_options_def default_options_def)
  obtain s where "load_elf (Some demo_elf) (example_globals, initState) = Inr (example_globals, s)"
    using demo_elf_loads by blast
  then have 1: "start_run dead_core example_globals demo_options demo_in () =
      Some (Inr (example_globals, 0, (), ckpt_none s demo_in, s))"
    by (simp add: start_run_def start_elf_def opt bind_o_def)
  obtain i2 and H :: "(u32 \<times> u8 list) list harness" where
    2: "enter_loop dead_core [] False 0 () (ckpt_none s demo_in) s = Some ((), i2, H)"
    and H: "idle_port H" "cyc H = 6" "last_retire H = 0" "insns_retired H = 0" "last_retired_pc H = 0"
      "mispredicts H = []" "pushout_histo H = []"
    using dead_core_enters [of "[]" s s] by blast
  obtain H' where
    m: "main_loop dead_core echo_host example_globals demo_config (resume_pc i2) () H = Inr ((), Some No_retire, H')"
    using watchdog_fires [of dead_core H demo_config echo_host example_globals "resume_pc i2" "()"] H
    by (auto simp: dead_core_def stuck_def idle_out_def no_req_def demo_config_def in_mem_val)
  from silent_loop [OF m, of "enter_stats demo_options 6 stats_init"] obtain n where
    3: "observed_loop ?d echo_host example_globals demo_config (resume_pc i2) () H (enter_stats demo_options 6 stats_init) =
      Inr ((), Some No_retire, H', (tick ^^ n) (enter_stats demo_options 6 stats_init))" ..
  have "mispredicts H' = []" "pushout_histo H' = []"
    using dead_core_histos [OF H(6,7), of echo_host example_globals demo_config "resume_pc i2" "()"] m by simp_all
  moreover have "busy_loads (perf_of ((tick ^^ n) (enter_stats demo_options 6 stats_init))) = []"
    by (simp add: enter_stats_def stats_init_def perf_init_def)
  moreover have "dump_histo_32 cs t [] = Inr ''''" "dump_histo_64 cs t [] = Inr ''''" for cs t
    by (simp_all add: dump_histo_32_def dump_histo_64_def dump_order_32_def dump_order_64_def)
  ultimately obtain res where
    4: "finish_run id (caches ?d ()) demo_options demo_times H' ((tick ^^ n) (enter_stats demo_options 6 stats_init)) = Inr res"
    by (cases "incorrect H'") (simp_all add: finish_run_def run_log_def)
  have run: "run_main ?d echo_host id example_globals demo_options CS_ERR_OK demo_times [] demo_in () stats_init =
      Some (Inr (Some No_retire, H', (tick ^^ n) (enter_stats demo_options 6 stats_init), res))"
    using 1 2 3 4 H(2) by (simp add: run_main_def initCapstone_def bind_o_def opt)
  then show ?thesis by blast
qed

theorem run_reported_witness:
  "\<exists>H' x' res rest more. run_main (silent dead_core) echo_host id example_globals demo_options CS_ERR_OK demo_times [] demo_in ()
      stats_init = Some (Inr (Some No_retire, H', x', res)) \<and> icnt (st_ss H') = n_checks H' \<and>
    out_files res = (''log.txt'', ''n_mispredicts = '' @ toString (n_mispredicts H') @
         '', cycles = '' @ toString (cyc H') @ '', insns = '' @ toString (insns_retired H') @
         '', n_checks = '' @ toString (icnt (st_ss H')) @ newline @ rest) # more"
proof -
  obtain H' x' res where run: "run_main (silent dead_core) echo_host id example_globals demo_options CS_ERR_OK demo_times []
      demo_in () stats_init = Some (Inr (Some No_retire, H', x', res))"
    using silent_demo_run by blast
  have "\<not> use_checkpoint demo_options" "log_name demo_options = ''log.txt''"
    by (simp_all add: demo_options_def default_options_def)
  with run_reported [OF run] run simulator_start_elf [of example_globals demo_options] show ?thesis by auto
qed

section \<open>The types of the counters\<close>



end
