(* ===== verification/Sim_Bitvec.thy ===== *)
theory Sim_Bitvec
  imports Helper
begin

text \<open>
  \<open>sim_bitvec.hh\<close>: the bit vector class \<open>sim_bitvec\<close>, the template at \<open>uint64_t\<close>. An
  object is a record of its members, the heap array a list of words; an index beyond the
  array is the failure \<open>Bad_access\<close>. Sizes and indices are natural numbers below \<open>2 ^ 64\<close>,
  the results of the searches integers (\<open>-1\<close> when nothing is found).

  The abstraction of an object is the set of the indices whose bit is set. The locale
  \<open>index_set\<close> is the contract of such a set, with a client that builds one from a list.
\<close>

unbundle bit_operations_syntax

definition bpw :: nat where "bpw = 64"

record sim_bitvec =
  n_bits :: nat
  n_words :: nat
  ln2_bits :: u64
  last_bit :: nat
  arr :: "u64 list"

section \<open>Operations\<close>

text \<open>Construction computes \<open>ln2\<close> of the size, whose loop may not end.\<close>

definition sim_bitvec_new :: "u64 \<Rightarrow> sim_bitvec option" where
  "sim_bitvec_new n = (case ln2 n of
     None \<Rightarrow> None
   | Some l \<Rightarrow> Some \<lparr>n_bits = unat n, n_words = unat ((n + 64 - 1) div 64), ln2_bits = l,
       last_bit = unat (n - 1), arr = replicate (unat ((n + 64 - 1) div 64)) 0\<rparr>)"

definition clear :: "sim_bitvec \<Rightarrow> sim_bitvec" where
  "clear v = v\<lparr>arr := replicate (n_words v) 0\<rparr>"

definition clear_and_resize :: "sim_bitvec \<Rightarrow> u64 \<Rightarrow> sim_bitvec option" where
  "clear_and_resize v n = sim_bitvec_new n"

definition copy :: "sim_bitvec \<Rightarrow> sim_bitvec \<Rightarrow> failure + sim_bitvec" where
  "copy v other =
     bind_r (assert_r (n_bits v = n_bits other)) (\<lambda>_.
     bind_r (assert_r (n_words v = n_words other)) (\<lambda>_.
     bind_r (assert_r (ln2_bits v = ln2_bits other)) (\<lambda>_.
     Inr (v\<lparr>arr := arr other\<rparr>))))"

definition arr_at :: "sim_bitvec \<Rightarrow> nat \<Rightarrow> failure + u64" where
  "arr_at v w = (if w < length (arr v) then Inr (arr v ! w) else Inl (Bad_access w))"

definition get_bit :: "sim_bitvec \<Rightarrow> nat \<Rightarrow> failure + bool" where
  "get_bit v idx = bind_r (arr_at v (idx div bpw)) (\<lambda>x. Inr (drop_bit (idx mod bpw) x AND 1 \<noteq> 0))"

definition set_bit :: "sim_bitvec \<Rightarrow> nat \<Rightarrow> failure + sim_bitvec" where
  "set_bit v idx =
    (if n_bits v \<le> idx then Inl Abort_called
     else bind_r (arr_at v (idx div bpw)) (\<lambda>x.
       Inr (v\<lparr>arr := (arr v)[idx div bpw := x OR push_bit (idx mod bpw) 1]\<rparr>)))"

definition clear_bit :: "sim_bitvec \<Rightarrow> nat \<Rightarrow> failure + sim_bitvec" where
  "clear_bit v idx =
     bind_r (assert_r (idx < n_bits v)) (\<lambda>_.
     bind_r (arr_at v (idx div bpw)) (\<lambda>x.
       Inr (v\<lparr>arr := (arr v)[idx div bpw := x AND NOT (push_bit (idx mod bpw) 1)]\<rparr>)))"

definition bv_eq :: "sim_bitvec \<Rightarrow> sim_bitvec \<Rightarrow> bool" where
  "bv_eq v other =
    (if n_bits v \<noteq> n_bits other \<or> n_words v \<noteq> n_words other \<or> ln2_bits v \<noteq> ln2_bits other
     then False else list_all2 (=) (arr v) (arr other))"

definition bv_neq :: "sim_bitvec \<Rightarrow> sim_bitvec \<Rightarrow> bool" where
  "bv_neq v other = (\<not> bv_eq v other)"

definition bv_size :: "sim_bitvec \<Rightarrow> nat" where
  "bv_size v = n_bits v"

definition ln2_size :: "sim_bitvec \<Rightarrow> u64" where
  "ln2_size v = ln2_bits v"

definition index_op :: "sim_bitvec \<Rightarrow> nat \<Rightarrow> failure + bool" where
  "index_op v idx = get_bit v idx"

text \<open>\<open>operator<<\<close>: one character a bit, the bit of index 0 first.\<close>

fun bits_text :: "sim_bitvec \<Rightarrow> nat list \<Rightarrow> failure + string" where
  "bits_text v [] = Inr ''''"
| "bits_text v (i # is) = bind_r (get_bit v i) (\<lambda>b. bind_r (bits_text v is) (\<lambda>t.
     Inr ((if b then CHR 0x31 else CHR 0x30) # t)))"

definition bv_text :: "sim_bitvec \<Rightarrow> failure + string" where
  "bv_text v = bits_text v [0..<bv_size v]"

definition popcount64 :: "u64 \<Rightarrow> nat" where
  "popcount64 x = length (filter (bit x) [0..<64])"

definition popcount :: "sim_bitvec \<Rightarrow> failure + nat" where
  "popcount v =
    (if bpw * n_words v \<noteq> n_bits v then Inl Abort_called
     else Inr (sum_list (map popcount64 (arr v))))"

definition num_free :: "sim_bitvec \<Rightarrow> failure + nat" where
  "num_free v = bind_r (popcount v) (\<lambda>c. Inr (n_bits v - c))"

text \<open>\<open>__builtin_ffsl(x) - 1\<close> for a word that is not zero: the index of its lowest set bit.\<close>

definition ffs0 :: "u64 \<Rightarrow> nat" where
  "ffs0 x = length (takeWhile (\<lambda>i. \<not> bit x i) [0..<64])"

fun first_unset_from :: "nat \<Rightarrow> nat \<Rightarrow> u64 list \<Rightarrow> int" where
  "first_unset_from n w [] = - 1"
| "first_unset_from n w (x # xs) =
    (if x = NOT 0 then first_unset_from n (w + 1) xs
     else if x = 0 then int (bpw * w)
     else let idx = bpw * w + ffs0 (NOT x) in
       if idx < n then int idx else first_unset_from n (w + 1) xs)"

definition find_first_unset :: "sim_bitvec \<Rightarrow> int" where
  "find_first_unset v = first_unset_from (n_bits v) 0 (arr v)"

fun first_set_from :: "nat \<Rightarrow> nat \<Rightarrow> u64 list \<Rightarrow> int" where
  "first_set_from n w [] = - 1"
| "first_set_from n w (x # xs) =
    (if x = 0 then first_set_from n (w + 1) xs
     else let idx = bpw * w + ffs0 x in if idx < n then int idx else - 1)"

definition find_first_set :: "sim_bitvec \<Rightarrow> int" where
  "find_first_set v = first_set_from (n_bits v) 0 (arr v)"

text \<open>
  \<open>find_next_set\<close> reads the word of the next index before it looks at the array's length.
\<close>

definition find_next_set :: "sim_bitvec \<Rightarrow> u64 \<Rightarrow> failure + int" where
  "find_next_set v idx =
    (let i = unat (idx + 1); w_idx = i div bpw; b_idx = i mod bpw in
     bind_r (arr_at v w_idx) (\<lambda>x.
       let ww = push_bit b_idx (drop_bit b_idx x) in
       Inr (if ww \<noteq> 0 then int (w_idx * bpw + ffs0 ww)
            else first_set_from (n_bits v) (w_idx + 1) (drop (w_idx + 1) (arr v)))))"

fun scan_pair :: "nat \<Rightarrow> nat \<Rightarrow> u64 \<Rightarrow> nat list \<Rightarrow> int option" where
  "scan_pair n w x [] = None"
| "scan_pair n w x (b # bs) =
    (let p = bpw * w + b in
     if n \<le> p then Some (- 1)
     else if drop_bit b x AND 3 = 0 then Some (int p)
     else scan_pair n w x bs)"

definition pair_starts :: "nat \<Rightarrow> nat list" where
  "pair_starts idx = filter (\<lambda>b. even b) [idx..<bpw]"

fun first_pair_from :: "nat \<Rightarrow> nat \<Rightarrow> u64 list \<Rightarrow> int" where
  "first_pair_from n w [] = - 1"
| "first_pair_from n w (x # xs) =
    (if x = NOT 0 then first_pair_from n (w + 1) xs
     else if x = 0 then int (bpw * w)
     else case scan_pair n w x (pair_starts (2 * (ffs0 (NOT x) div 2))) of
         Some r \<Rightarrow> r
       | None \<Rightarrow> first_pair_from n (w + 1) xs)"

definition find_first_unset_pair :: "sim_bitvec \<Rightarrow> int" where
  "find_first_unset_pair v = first_pair_from (n_bits v) 0 (arr v)"

text \<open>The search that starts at \<open>last_bit\<close> and wraps around with the masked \<open>mod\<close>.\<close>

fun unset_rr :: "nat \<Rightarrow> sim_bitvec \<Rightarrow> nat \<Rightarrow> failure + int" where
  "unset_rr 0 v b = Inr (- 1)"
| "unset_rr (Suc k) v b = bind_r (get_bit v b) (\<lambda>x.
     if \<not> x then Inr (int b)
     else unset_rr k v (unat (mod_pow2 (of_nat b + 1 :: u64) (of_nat (n_bits v)))))"

definition find_first_unset_rr :: "sim_bitvec \<Rightarrow> failure + int" where
  "find_first_unset_rr v = unset_rr (n_bits v) v (last_bit v)"

text \<open>
  \<open>shift_left\<close>: shifts by the amount, and by its complement to 64 when there is a lower
  word, are undefined from 64 on.
\<close>

fun shift_words :: "nat \<Rightarrow> nat \<Rightarrow> u64 list \<Rightarrow> u64 list" where
  "shift_words amt 0 a = a"
| "shift_words amt (Suc i) a =
     (let wrap = drop_bit (64 - amt) (a ! i);
          a1 = a[i + 1 := a ! (i + 1) OR wrap];
          a2 = a1[i := push_bit amt (a1 ! i)]
      in shift_words amt i a2)"

definition shift_left :: "sim_bitvec \<Rightarrow> nat \<Rightarrow> failure + sim_bitvec" where
  "shift_left v amt =
    (if n_words v = 0 then Inl (Bad_access 0)
     else if bpw \<le> amt then Inl (Undefined_shift amt)
     else if amt = 0 \<and> 2 \<le> n_words v then Inl (Undefined_shift bpw)
     else let top = n_words v - 1 in
       Inr (v\<lparr>arr := shift_words amt top ((arr v)[top := push_bit amt (arr v ! top)])\<rparr>))"

definition to_integer :: "sim_bitvec \<Rightarrow> failure + u64" where
  "to_integer v = arr_at v 0"


text \<open>
  The two hash functions, over \<open>boost::hash_combine\<close> as a parameter. A word that lies wholly
  above \<open>h_bits\<close> makes the mask's shift count wrap around.
\<close>

definition hash_all :: "(u64 \<Rightarrow> u64 \<Rightarrow> u64) \<Rightarrow> sim_bitvec \<Rightarrow> u64" where
  "hash_all hash_combine v = foldl hash_combine 0 (arr v)"

fun hash_from :: "(u64 \<Rightarrow> u64 \<Rightarrow> u64) \<Rightarrow> nat \<Rightarrow> nat \<Rightarrow> u64 list \<Rightarrow> u64 \<Rightarrow> failure + u64" where
  "hash_from hc h_bits i [] h = Inr h"
| "hash_from hc h_bits i (x # xs) h =
    (if bpw * (i + 1) > h_bits then
       (if h_bits < bpw * i then Inl (Undefined_shift (bpw * (i + 1) - h_bits))
        else let m = push_bit (bpw - (bpw * (i + 1) - h_bits)) 1 - 1 in
          hash_from hc h_bits (i + 1) xs (hc h (x AND m)))
     else hash_from hc h_bits (i + 1) xs (hc h x))"

definition hash_bits :: "(u64 \<Rightarrow> u64 \<Rightarrow> u64) \<Rightarrow> sim_bitvec \<Rightarrow> nat \<Rightarrow> failure + u64" where
  "hash_bits hc v h_bits = hash_from hc h_bits 0 (arr v) 0"

section \<open>The abstraction\<close>

definition bit_at :: "u64 list \<Rightarrow> nat \<Rightarrow> bool" where
  "bit_at a i \<longleftrightarrow> bit (a ! (i div 64)) (i mod 64)"

definition wf :: "sim_bitvec \<Rightarrow> bool" where
  "wf v \<longleftrightarrow> length (arr v) = n_words v \<and> n_words v = (n_bits v + 63) div 64"

definition bits :: "sim_bitvec \<Rightarrow> nat set" where
  "bits v = {i. i < n_bits v \<and> bit_at (arr v) i}"

lemma wf_index: "wf v \<Longrightarrow> i < n_bits v \<Longrightarrow> i div 64 < length (arr v)"
  by (simp add: wf_def less_mult_imp_div_less)

lemma wf_word: "wf v \<Longrightarrow> w < length (arr v) \<Longrightarrow> 64 * w < n_bits v"
  by (auto simp: wf_def)

lemma test_bit_iff: "drop_bit b (x :: u64) AND 1 \<noteq> 0 \<longleftrightarrow> bit x b"
  using extractBit_iff [of x b] by (simp add: extractBit_def)

lemma get_bit_iff: "wf v \<Longrightarrow> i < n_bits v \<Longrightarrow> get_bit v i = Inr (i \<in> bits v)"
  using wf_index [of v i] test_bit_iff [of "i mod 64" "arr v ! (i div 64)"]
  by (simp add: get_bit_def arr_at_def bpw_def bits_def bit_at_def)

lemma bit_at_set:
  "k div 64 < length a \<Longrightarrow>
     bit_at (a[k div 64 := a ! (k div 64) OR push_bit (k mod 64) 1]) i \<longleftrightarrow> i = k \<or> bit_at a i"
proof (cases "i div 64 = k div 64")
  case True
  assume k: "k div 64 < length a"
  have "i = k \<longleftrightarrow> i mod 64 = k mod 64" using True by (metis div_mult_mod_eq)
  moreover have "i mod 64 < 64" by simp
  ultimately show ?thesis using True k
    by (auto simp: bit_at_def bit_or_iff bit_exp_iff)
qed (auto simp: bit_at_def)

lemma bit_at_clear:
  "k div 64 < length a \<Longrightarrow>
     bit_at (a[k div 64 := a ! (k div 64) AND NOT (push_bit (k mod 64) 1)]) i \<longleftrightarrow> i \<noteq> k \<and> bit_at a i"
proof (cases "i div 64 = k div 64")
  case True
  assume k: "k div 64 < length a"
  have "i = k \<longleftrightarrow> i mod 64 = k mod 64" using True by (metis div_mult_mod_eq)
  moreover have "i mod 64 < 64" by simp
  ultimately show ?thesis using True k
    by (auto simp: bit_at_def bit_and_iff bit_not_iff bit_exp_iff)
qed (auto simp: bit_at_def)

lemma set_bit_spec:
  assumes "wf v" and "k < n_bits v"
  shows "\<exists>v'. set_bit v k = Inr v' \<and> wf v' \<and> n_bits v' = n_bits v \<and> bits v' = insert k (bits v)"
proof -
  let ?a = "(arr v)[k div 64 := arr v ! (k div 64) OR push_bit (k mod 64) 1]"
  have k: "k div 64 < length (arr v)" using assms by (rule wf_index)
  with assms have "set_bit v k = Inr (v\<lparr>arr := ?a\<rparr>)"
    by (simp add: set_bit_def arr_at_def bpw_def)
  moreover have "bits (v\<lparr>arr := ?a\<rparr>) = insert k (bits v)"
    using assms(2) bit_at_set [OF k] by (auto simp: bits_def)
  ultimately show ?thesis using assms(1) by (simp add: wf_def)
qed

lemma clear_bit_spec:
  assumes "wf v" and "k < n_bits v"
  shows "\<exists>v'. clear_bit v k = Inr v' \<and> wf v' \<and> n_bits v' = n_bits v \<and> bits v' = bits v - {k}"
proof -
  let ?a = "(arr v)[k div 64 := arr v ! (k div 64) AND NOT (push_bit (k mod 64) 1)]"
  have k: "k div 64 < length (arr v)" using assms by (rule wf_index)
  with assms have "clear_bit v k = Inr (v\<lparr>arr := ?a\<rparr>)"
    by (simp add: clear_bit_def arr_at_def bpw_def)
  moreover have "bits (v\<lparr>arr := ?a\<rparr>) = bits v - {k}"
    using bit_at_clear [OF k] by (auto simp: bits_def)
  ultimately show ?thesis using assms(1) by (simp add: wf_def)
qed

lemma bit_at_zeros: "i div 64 < n \<Longrightarrow> \<not> bit_at (replicate n 0) i"
  by (simp add: bit_at_def)

lemma clear_spec: "wf v \<Longrightarrow> wf (clear v) \<and> bits (clear v) = {} \<and> n_bits (clear v) = n_bits v"
  using wf_index [of v] by (auto simp: wf_def clear_def bits_def bit_at_zeros)

text \<open>Two vectors with the same text have the same size and the same members.\<close>

lemma bits_text_spec:
  "wf v \<Longrightarrow> \<forall>i \<in> set is. i < n_bits v \<Longrightarrow>
     bits_text v is = Inr (map (\<lambda>i. if i \<in> bits v then CHR 0x31 else CHR 0x30) is)"
  by (induction "is") (simp_all add: get_bit_iff)

lemma bv_text_spec:
  "wf v \<Longrightarrow> bv_text v = Inr (map (\<lambda>i. if i \<in> bits v then CHR 0x31 else CHR 0x30) [0..<n_bits v])"
  by (simp add: bv_text_def bv_size_def bits_text_spec)

lemma bits_bound: "i \<in> bits v \<Longrightarrow> i < n_bits v"
  by (simp add: bits_def)

lemma bv_text_inject:
  assumes "wf v" and "wf u"
  shows "bv_text v = bv_text u \<longleftrightarrow> n_bits v = n_bits u \<and> bits v = bits u"
proof
  assume "bv_text v = bv_text u"
  then have m: "map (\<lambda>i. if i \<in> bits v then CHR 0x31 else CHR 0x30) [0..<n_bits v] =
      map (\<lambda>i. if i \<in> bits u then CHR 0x31 else CHR 0x30) [0..<n_bits u]"
    using assms by (simp add: bv_text_spec)
  then have n: "n_bits v = n_bits u" using map_eq_imp_length_eq by fastforce
  have "i \<in> bits v \<longleftrightarrow> i \<in> bits u" if "i < n_bits u" for i
    using arg_cong [OF m, of "\<lambda>t. t ! i"] that n by (simp split: if_splits)
  with n show "n_bits v = n_bits u \<and> bits v = bits u" by (metis bits_bound set_eqI)
qed (simp add: assms bv_text_spec)

section \<open>Index sets\<close>

locale index_set =
  fixes ok :: "'b \<Rightarrow> bool"
    and size_of :: "'b \<Rightarrow> nat"
    and members :: "'b \<Rightarrow> nat set"
    and test :: "'b \<Rightarrow> nat \<Rightarrow> failure + bool"
    and ins :: "'b \<Rightarrow> nat \<Rightarrow> failure + 'b"
    and del :: "'b \<Rightarrow> nat \<Rightarrow> failure + 'b"
    and empty :: "'b \<Rightarrow> 'b"
  assumes test_law: "ok v \<Longrightarrow> i < size_of v \<Longrightarrow> test v i = Inr (i \<in> members v)"
    and ins_law: "ok v \<Longrightarrow> i < size_of v \<Longrightarrow>
      \<exists>v'. ins v i = Inr v' \<and> ok v' \<and> size_of v' = size_of v \<and> members v' = insert i (members v)"
    and del_law: "ok v \<Longrightarrow> i < size_of v \<Longrightarrow>
      \<exists>v'. del v i = Inr v' \<and> ok v' \<and> size_of v' = size_of v \<and> members v' = members v - {i}"
    and empty_law: "ok v \<Longrightarrow> ok (empty v) \<and> members (empty v) = {} \<and> size_of (empty v) = size_of v"
begin

fun ins_all :: "'b \<Rightarrow> nat list \<Rightarrow> failure + 'b" where
  "ins_all v [] = Inr v"
| "ins_all v (i # is) = bind_r (ins v i) (\<lambda>v'. ins_all v' is)"

lemma ins_all_members:
  "ok v \<Longrightarrow> \<forall>i \<in> set is. i < size_of v \<Longrightarrow>
     \<exists>v'. ins_all v is = Inr v' \<and> ok v' \<and> size_of v' = size_of v \<and> members v' = members v \<union> set is"
proof (induction "is" arbitrary: v)
  case Nil
  then show ?case by simp
next
  case (Cons i "is")
  then obtain v1 where v1: "ins v i = Inr v1" "ok v1" "size_of v1 = size_of v"
    "members v1 = insert i (members v)" using ins_law [of v i] by auto
  then show ?case using Cons.IH [of v1] Cons.prems by auto
qed

lemma rebuild:
  assumes "ok v" and "\<forall>i \<in> set is. i < size_of v" and "j < size_of v"
  shows "bind_r (ins_all (empty v) is) (\<lambda>v'. test v' j) = Inr (j \<in> set is)"
proof -
  have e: "ok (empty v)" "members (empty v) = {}" "size_of (empty v) = size_of v"
    using empty_law [OF assms(1)] by simp_all
  then obtain v' where "ins_all (empty v) is = Inr v'" "ok v'" "size_of v' = size_of v"
    "members v' = set is" using ins_all_members [of "empty v" "is"] assms(2) by auto
  with test_law [of v' j] assms(3) show ?thesis by simp
qed

lemma ins_then_del:
  assumes "ok v" and "i < size_of v"
  shows "\<exists>v'. bind_r (ins v i) (\<lambda>v1. del v1 i) = Inr v' \<and> members v' = members v - {i}"
proof -
  obtain v1 where "ins v i = Inr v1" "ok v1" "size_of v1 = size_of v" "members v1 = insert i (members v)"
    using ins_law [OF assms] by blast
  with del_law [of v1 i] assms(2) show ?thesis by auto
qed

end

interpretation bv: index_set wf n_bits bits get_bit set_bit clear_bit clear
proof (unfold_locales)
  fix v i
  assume v: "wf v" and i: "i < n_bits v"
  show "get_bit v i = Inr (i \<in> bits v)" by (rule get_bit_iff [OF v i])
  show "\<exists>v'. set_bit v i = Inr v' \<and> wf v' \<and> n_bits v' = n_bits v \<and> bits v' = insert i (bits v)"
    by (rule set_bit_spec [OF v i])
  show "\<exists>v'. clear_bit v i = Inr v' \<and> wf v' \<and> n_bits v' = n_bits v \<and> bits v' = bits v - {i}"
    by (rule clear_bit_spec [OF v i])
next
  fix v
  assume "wf v"
  then show "wf (clear v) \<and> bits (clear v) = {} \<and> n_bits (clear v) = n_bits v" by (rule clear_spec)
qed

section \<open>Searches\<close>

text \<open>
  What a search from \<open>lo\<close> below \<open>n\<close> for an index with property \<open>P\<close> returns: the least one,
  or \<open>-1\<close> when there is none.
\<close>

definition search_ok :: "(nat \<Rightarrow> bool) \<Rightarrow> nat \<Rightarrow> nat \<Rightarrow> int \<Rightarrow> bool" where
  "search_ok P lo n r \<longleftrightarrow>
     r = - 1 \<and> (\<forall>i. lo \<le> i \<and> i < n \<longrightarrow> \<not> P i) \<or>
     (\<exists>k. r = int k \<and> lo \<le> k \<and> k < n \<and> P k \<and> (\<forall>i. lo \<le> i \<and> i < k \<longrightarrow> \<not> P i))"

lemma search_ok_skip:
  "search_ok P hi n r \<Longrightarrow> lo \<le> hi \<Longrightarrow> (\<And>i. lo \<le> i \<Longrightarrow> i < hi \<Longrightarrow> i < n \<Longrightarrow> \<not> P i) \<Longrightarrow> search_ok P lo n r"
  unfolding search_ok_def by (elim disjE exE conjE) (metis linorder_not_less order_trans order_less_trans)+

lemma search_ok_none: "(\<And>i. lo \<le> i \<Longrightarrow> i < n \<Longrightarrow> \<not> P i) \<Longrightarrow> search_ok P lo n (- 1)"
  by (auto simp: search_ok_def)

lemma search_ok_found:
  "lo \<le> k \<Longrightarrow> k < n \<Longrightarrow> P k \<Longrightarrow> (\<And>i. lo \<le> i \<Longrightarrow> i < k \<Longrightarrow> \<not> P i) \<Longrightarrow> search_ok P lo n (int k)"
  by (auto simp: search_ok_def)

lemma ffs0_spec:
  assumes "x \<noteq> 0"
  shows "ffs0 x < 64" and "bit x (ffs0 x)" and "j < ffs0 x \<Longrightarrow> \<not> bit x j"
proof -
  have ex: "\<exists>n < 64. bit x n"
  proof (rule ccontr)
    assume "\<not> (\<exists>n < 64. bit x n)"
    then have "x = 0" by (intro bit_word_eqI) auto
    with assms show False ..
  qed
  let ?t = "takeWhile (\<lambda>i. \<not> bit x i) [0..<64]"
  have "length ?t \<noteq> length [0..<64]"
  proof
    assume "length ?t = length [0..<64]"
    then have "?t = [0..<64]" by (metis takeWhile_eq_take take_all order_refl)
    then have "\<forall>i \<in> set [0..<64]. \<not> bit x i" by (simp only: takeWhile_eq_all_conv)
    with ex show False by auto
  qed
  then have lt: "length ?t < length [0..<64]" using length_takeWhile_le [of _ "[0..<64]"] by (metis le_neq_implies_less)
  then show "ffs0 x < 64" by (simp add: ffs0_def)
  show "bit x (ffs0 x)" using nth_length_takeWhile [OF lt] lt by (simp add: ffs0_def)
  show "\<not> bit x j" if "j < ffs0 x"
  proof -
    have "j \<in> set ?t" using that lt takeWhile_nth [of j "\<lambda>i. \<not> bit x i" "[0..<64]"]
      nth_mem [of j ?t] by (simp add: ffs0_def)
    then show ?thesis by (auto dest: set_takeWhileD)
  qed
qed

text \<open>The indices of word \<open>w\<close>, whose bits are those of the head of the remaining array.\<close>

lemma in_word: "64 * w \<le> (i :: nat) \<Longrightarrow> i < 64 * (w + 1) \<Longrightarrow> i div 64 = w \<and> i mod 64 = i - 64 * w"
proof -
  assume "64 * w \<le> i" and "i < 64 * (w + 1)"
  then have "i div 64 = w" by (intro div_nat_eqI) simp_all
  moreover from this have "i mod 64 = i - 64 * w" by (simp only: minus_mult_div_eq_mod [symmetric])
  ultimately show ?thesis ..
qed

lemma bit_at_word:
  "a ! w = x \<Longrightarrow> 64 * w \<le> i \<Longrightarrow> i < 64 * (w + 1) \<Longrightarrow> bit_at a i \<longleftrightarrow> bit x (i - 64 * w)"
  using in_word [of w i] by (simp add: bit_at_def)

lemma drop_Cons_nth: "drop w a = x # xs \<Longrightarrow> a ! w = x \<and> drop (w + 1) a = xs \<and> w < length a"
proof -
  assume d: "drop w a = x # xs"
  then have w: "w < length a" by (metis drop_all linorder_not_less list.distinct(1))
  then show ?thesis using d Cons_nth_drop_Suc [OF w] by simp
qed

lemma first_unset_from_spec:
  assumes "drop w a = xs" and "\<And>w. w < length a \<Longrightarrow> 64 * w < n" and "n \<le> 64 * length a"
  shows "search_ok (\<lambda>i. \<not> bit_at a i) (64 * w) n (first_unset_from n w xs)"
  using assms(1)
proof (induction xs arbitrary: w)
  case Nil
  then have "n \<le> 64 * w" using assms(3) by simp
  then show ?case by (auto intro: search_ok_none)
next
  case (Cons x xs)
  note w = drop_Cons_nth [OF Cons.prems]
  let ?i = "64 * w + ffs0 (NOT x)"
  have IH: "search_ok (\<lambda>i. \<not> bit_at a i) (64 * (w + 1)) n (first_unset_from n (w + 1) xs)"
    using Cons.IH w by blast
  have here: "bit_at a i \<longleftrightarrow> bit x (i - 64 * w)" if "64 * w \<le> i" "i < 64 * (w + 1)" for i
    using bit_at_word that w by blast
  consider (ones) "x = NOT 0" | (zero) "x = 0" "x \<noteq> NOT 0" | (some) "x \<noteq> 0" "x \<noteq> NOT 0" by blast
  then show ?case
  proof cases
    case ones
    then have "search_ok (\<lambda>i. \<not> bit_at a i) (64 * w) n (first_unset_from n (w + 1) xs)"
      by (intro search_ok_skip [OF IH]) (auto simp: here)
    with ones show ?thesis by simp
  next
    case zero
    have "search_ok (\<lambda>i. \<not> bit_at a i) (64 * w) n (int (64 * w))"
      using zero assms(2) w by (intro search_ok_found) (auto simp: here)
    with zero show ?thesis by (simp add: bpw_def)
  next
    case some
    then have "NOT x \<noteq> 0" by (metis bit.double_compl bit.compl_zero)
    note f = ffs0_spec [OF this]
    have below: "bit_at a i" if "64 * w \<le> i" "i < ?i" for i
      using f(1) f(3) [of "i - 64 * w"] that by (auto simp: here bit_not_iff)
    show ?thesis
    proof (cases "?i < n")
      case True
      have "search_ok (\<lambda>i. \<not> bit_at a i) (64 * w) n (int ?i)"
        using True f below by (intro search_ok_found) (auto simp: here bit_not_iff)
      with True some show ?thesis by (simp add: bpw_def Let_def)
    next
      case False
      then have "search_ok (\<lambda>i. \<not> bit_at a i) (64 * w) n (first_unset_from n (w + 1) xs)"
        using below by (intro search_ok_skip [OF IH]) auto
      with False some show ?thesis by (simp add: bpw_def Let_def)
    qed
  qed
qed

lemma first_set_from_spec:
  assumes "drop w a = xs" and "\<And>w. w < length a \<Longrightarrow> 64 * w < n" and "n \<le> 64 * length a"
    and "64 * length a < n + 64"
  shows "search_ok (bit_at a) (64 * w) n (first_set_from n w xs)"
  using assms(1)
proof (induction xs arbitrary: w)
  case Nil
  then have "n \<le> 64 * w" using assms(3) by simp
  then show ?case by (auto intro: search_ok_none)
next
  case (Cons x xs)
  note w = drop_Cons_nth [OF Cons.prems]
  have here: "bit_at a i \<longleftrightarrow> bit x (i - 64 * w)" if "64 * w \<le> i" "i < 64 * (w + 1)" for i
    using bit_at_word that w by blast
  show ?case
  proof (cases "x = 0")
    case True
    have IH: "search_ok (bit_at a) (64 * (w + 1)) n (first_set_from n (w + 1) xs)"
      using Cons.IH w by blast
    have "search_ok (bit_at a) (64 * w) n (first_set_from n (w + 1) xs)"
      using True by (intro search_ok_skip [OF IH]) (auto simp: here)
    with True show ?thesis by simp
  next
    case False
    let ?i = "64 * w + ffs0 x"
    note f = ffs0_spec [OF False]
    have below: "\<not> bit_at a i" if "64 * w \<le> i" "i < ?i" for i
      using f(1) f(3) [of "i - 64 * w"] that by (auto simp: here)
    show ?thesis
    proof (cases "?i < n")
      case True
      have "search_ok (bit_at a) (64 * w) n (int ?i)"
        using True f below by (intro search_ok_found) (auto simp: here)
      with True False show ?thesis by (simp add: bpw_def Let_def)
    next
      case beyond: False
      then have "search_ok (bit_at a) (64 * w) n (- 1)"
        using below by (intro search_ok_none) auto
      with beyond False show ?thesis by (simp add: bpw_def Let_def)
    qed
  qed
qed

lemma wf_sizes:
  "wf v \<Longrightarrow> n_bits v \<le> 64 * length (arr v)" "wf v \<Longrightarrow> 64 * length (arr v) < n_bits v + 64"
  by (auto simp: wf_def)

lemma search_ok_cong:
  "search_ok P lo n r \<Longrightarrow> (\<And>i. i < n \<Longrightarrow> P i = Q i) \<Longrightarrow> search_ok Q lo n r"
  unfolding search_ok_def by (metis order_less_trans)

lemma find_first_unset_spec:
  assumes "wf v"
  shows "search_ok (\<lambda>i. i \<notin> bits v) 0 (n_bits v) (find_first_unset v)"
proof -
  have "search_ok (\<lambda>i. \<not> bit_at (arr v) i) (64 * 0) (n_bits v) (find_first_unset v)"
    unfolding find_first_unset_def
    by (rule first_unset_from_spec) (use wf_sizes [OF assms] wf_word [OF assms] in auto)
  then show ?thesis by (simp, elim search_ok_cong) (simp add: bits_def)
qed

lemma find_first_set_spec:
  assumes "wf v"
  shows "search_ok (\<lambda>i. i \<in> bits v) 0 (n_bits v) (find_first_set v)"
proof -
  have "search_ok (bit_at (arr v)) (64 * 0) (n_bits v) (find_first_set v)"
    unfolding find_first_set_def
    by (rule first_set_from_spec) (use wf_sizes [OF assms] wf_word [OF assms] in auto)
  then show ?thesis by (simp, elim search_ok_cong) (simp add: bits_def)
qed

text \<open>No bit is set above the size; every operation but \<open>shift_left\<close> keeps this.\<close>

definition clean :: "sim_bitvec \<Rightarrow> bool" where
  "clean v \<longleftrightarrow> (\<forall>i. n_bits v \<le> i \<and> i < 64 * length (arr v) \<longrightarrow> \<not> bit_at (arr v) i)"

lemma bit_low_cleared: "bit (push_bit b (drop_bit b (x :: u64))) i \<longleftrightarrow> b \<le> i \<and> bit x i"
  by (auto simp: bit_push_bit_iff bit_drop_bit_eq dest: bit_imp_le_length)

lemma find_next_set_spec:
  assumes "wf v" and "clean v" and "unat (idx + 1) \<le> n_bits v" and i: "i = unat (idx + 1)"
  shows "if i = 64 * length (arr v) then find_next_set v idx = Inl (Bad_access (length (arr v)))
    else \<exists>r. find_next_set v idx = Inr r \<and> search_ok (\<lambda>j. j \<in> bits v) i (n_bits v) r"
proof -
  note n = wf_sizes [OF assms(1)]
  let ?w = "i div 64" and ?b = "i mod 64"
  let ?x = "arr v ! ?w"
  let ?ww = "push_bit ?b (drop_bit ?b ?x)"
  show ?thesis
  proof (cases "i = 64 * length (arr v)")
    case True
    then show ?thesis by (simp add: find_next_set_def i [symmetric] arr_at_def bpw_def Let_def)
  next
    case False
    then have wl: "?w < length (arr v)" using n assms(3) [folded i] by (simp add: div_less_iff_less_mult)
    have idx: "64 * ?w \<le> i" "i < 64 * (?w + 1)" by (simp, presburger)
    have here: "bit_at (arr v) j \<longleftrightarrow> bit ?x (j - 64 * ?w)" if "64 * ?w \<le> j" "j < 64 * (?w + 1)" for j
      using bit_at_word [OF refl that] .
    have b: "?b = i - 64 * ?w" by (simp only: minus_mult_div_eq_mod)
    have r: "\<exists>r. find_next_set v idx = Inr r \<and> search_ok (bit_at (arr v)) i (n_bits v) r"
    proof (cases "?ww = 0")
      case True
      have none: "\<not> bit_at (arr v) j" if "i \<le> j" "j < 64 * (?w + 1)" for j
      proof -
        have "\<not> bit ?ww (j - 64 * ?w)" using True by simp
        moreover have "?b \<le> j - 64 * ?w" using that b by linarith
        moreover have "64 * ?w \<le> j" using that idx by linarith
        ultimately show ?thesis using here [of j] that by (simp only: bit_low_cleared simp_thms)
      qed
      have "search_ok (bit_at (arr v)) (64 * (?w + 1)) (n_bits v)
          (first_set_from (n_bits v) (?w + 1) (drop (?w + 1) (arr v)))"
        by (rule first_set_from_spec) (use n wf_word [OF assms(1)] in auto)
      then have "search_ok (bit_at (arr v)) i (n_bits v)
          (first_set_from (n_bits v) (?w + 1) (drop (?w + 1) (arr v)))"
        using none idx by (elim search_ok_skip) auto
      with True wl show ?thesis by (simp add: find_next_set_def i [symmetric] arr_at_def bpw_def Let_def)
    next
      case False
      note f = ffs0_spec [OF False]
      let ?i = "64 * ?w + ffs0 ?ww"
      have "?b \<le> ffs0 ?ww" and set_i: "bit ?x (ffs0 ?ww)" using f(2) by (simp_all only: bit_low_cleared)
      then have lo: "i \<le> ?i" using b by linarith
      have at: "bit_at (arr v) ?i" using set_i f(1) here [of ?i] by simp
      have "?i < 64 * length (arr v)" using f(1) wl by linarith
      then have "?i < n_bits v" using assms(2) at unfolding clean_def by (metis linorder_not_less)
      moreover have "\<not> bit_at (arr v) j" if "i \<le> j" "j < ?i" for j
      proof -
        have "\<not> bit ?ww (j - 64 * ?w)" using f(3) [of "j - 64 * ?w"] that idx by linarith
        moreover have "?b \<le> j - 64 * ?w" using that b by linarith
        moreover have "j < 64 * (?w + 1)" using that f(1) unfolding distrib_left by linarith
        moreover have "64 * ?w \<le> j" using that idx by linarith
        ultimately show ?thesis using here [of j] by (simp only: bit_low_cleared simp_thms)
      qed
      ultimately have "search_ok (bit_at (arr v)) i (n_bits v) (int ?i)"
        using at lo by (intro search_ok_found) auto
      with False wl show ?thesis by (simp add: find_next_set_def i [symmetric] arr_at_def bpw_def Let_def mult.commute)
    qed
    then obtain r where "find_next_set v idx = Inr r"
      and "search_ok (bit_at (arr v)) i (n_bits v) r" by blast
    moreover from this(2) have "search_ok (\<lambda>j. j \<in> bits v) i (n_bits v) r"
      by (rule search_ok_cong) (simp add: bits_def)
    ultimately have "\<exists>r. find_next_set v idx = Inr r \<and>
      search_ok (\<lambda>j. j \<in> bits v) i (n_bits v) r" by blast
    with False show ?thesis by simp
  qed
qed

section \<open>The wrapping search\<close>

lemma search_ok_unique: "search_ok P lo n r \<Longrightarrow> search_ok P lo n r' \<Longrightarrow> r = r'"
proof -
  assume 1: "search_ok P lo n r" and 2: "search_ok P lo n r'"
  have "k = k'" if "lo \<le> k \<and> P k \<and> (\<forall>i. lo \<le> i \<and> i < k \<longrightarrow> \<not> P i)"
    "lo \<le> k' \<and> P k' \<and> (\<forall>i. lo \<le> i \<and> i < k' \<longrightarrow> \<not> P i)" for k k'
    using that linorder_neqE_nat [of k k'] by blast
  with 1 2 show ?thesis unfolding search_ok_def by (elim disjE exE conjE) auto
qed

lemma wrap_step:
  assumes "b < n" and "n \<le> 2 ^ 63"
  shows "unat (mod_pow2 (of_nat b + 1 :: u64) (of_nat n)) = (b + 1) mod n"
proof -
  have n: "unat (of_nat n :: u64) = n" using assms by (simp add: unat_of_nat mod_less)
  have "unat (of_nat b + 1 :: u64) = unat (of_nat (b + 1) :: u64)" by (simp add: add.commute)
  also have "\<dots> = b + 1" using assms by (simp only: unat_of_nat) (simp add: mod_less)
  finally have b: "unat (of_nat b + 1 :: u64) = b + 1" .
  have "of_nat n \<noteq> (0 :: u64)" using n assms(1) by auto
  then show ?thesis by (simp add: mod_pow2_correct unat_mod b n)
qed

lemma unset_rr_fuel:
  "wf v \<Longrightarrow> n_bits v \<le> 2 ^ 63 \<Longrightarrow> b + k \<le> n_bits v \<Longrightarrow>
     \<exists>r. unset_rr k v b = Inr r \<and> search_ok (\<lambda>i. i \<notin> bits v) b (b + k) r"
proof (induction k arbitrary: b)
  case 0
  then show ?case by (auto intro: search_ok_none)
next
  case (Suc k)
  then have b: "b < n_bits v" by simp
  show ?case
  proof (cases "b \<in> bits v")
    case False
    with b Suc.prems(1) show ?thesis by (auto simp: get_bit_iff intro!: search_ok_found)
  next
    case True
    show ?thesis
    proof (cases "k = 0")
      case k: True
      then have "search_ok (\<lambda>i. i \<notin> bits v) b (b + 1) (- 1)"
        using True by (intro search_ok_none) (auto simp: less_Suc_eq_le)
      with k True b Suc.prems(1) show ?thesis by (simp add: get_bit_iff)
    next
      case k: False
      then have "(b + 1) mod n_bits v = b + 1" using Suc.prems(3) by simp
      then have step: "unat (mod_pow2 (of_nat b + 1 :: u64) (of_nat (n_bits v))) = b + 1"
        using wrap_step [OF b Suc.prems(2)] by simp
      obtain r where "unset_rr k v (b + 1) = Inr r" and r: "search_ok (\<lambda>i. i \<notin> bits v) (b + 1) (b + 1 + k) r"
        using Suc.IH [of "b + 1"] Suc.prems by auto
      moreover have "b + 1 + k = b + Suc k" by simp
      with r have "search_ok (\<lambda>i. i \<notin> bits v) (b + 1) (b + Suc k) r" by (simp only:)
      then have "search_ok (\<lambda>i. i \<notin> bits v) b (b + Suc k) r"
        by (rule search_ok_skip) (use True in \<open>auto simp: less_Suc_eq_le\<close>)
      moreover have "unset_rr (Suc k) v b = unset_rr k v (b + 1)"
        by (simp only: unset_rr.simps get_bit_iff [OF Suc.prems(1) b] bind_r_Inr True step simp_thms if_False)
      ultimately show ?thesis by metis
    qed
  qed
qed

lemma find_first_unset_rr_result:
  assumes "wf v" and "last_bit v = n_bits v - 1" and "0 < n_bits v" and "n_bits v \<le> 2 ^ 63"
  shows "find_first_unset_rr v =
    Inr (if n_bits v - 1 \<notin> bits v then int (n_bits v - 1) else find_first_unset v)"
proof -
  let ?n = "n_bits v"
  obtain k where k: "?n = Suc k" using assms(3) by (cases "?n") auto
  have l: "last_bit v < ?n" using assms(2) k by simp
  have start: "find_first_unset_rr v = bind_r (get_bit v (last_bit v)) (\<lambda>x. if \<not> x then Inr (int (last_bit v))
      else unset_rr k v (unat (mod_pow2 (of_nat (last_bit v) + 1 :: u64) (of_nat ?n))))"
    unfolding find_first_unset_rr_def
    using unset_rr.simps(2) [of k v "last_bit v"] by (simp only: k [symmetric])
  show ?thesis
  proof (cases "?n - 1 \<in> bits v")
    case False
    with start l assms show ?thesis by (simp add: get_bit_iff)
  next
    case True
    have "unat (mod_pow2 (of_nat (last_bit v) + 1 :: u64) (of_nat ?n)) = 0"
      using wrap_step [OF l assms(4)] assms(2) k by simp
    with start l True assms(1,2) have eq: "find_first_unset_rr v = unset_rr k v 0"
      by (simp only: get_bit_iff bind_r_Inr) simp
    obtain r where r: "unset_rr k v 0 = Inr r" "search_ok (\<lambda>i. i \<notin> bits v) 0 k r"
      using unset_rr_fuel [OF assms(1,4), of 0 k] k by auto
    from r(2) have "search_ok (\<lambda>i. i \<notin> bits v) 0 ?n r"
      using True k unfolding search_ok_def by (auto simp: less_Suc_eq)
    then have "r = find_first_unset v"
      using find_first_unset_spec [OF assms(1)] by (rule search_ok_unique)
    with eq r True show ?thesis by simp
  qed
qed

section \<open>Shifting\<close>

lemma length_shift_words [simp]: "length (shift_words amt k a) = length a"
  by (induction amt k a rule: shift_words.induct) (simp_all add: Let_def)

lemma shift_words_nth:
  "k < length a \<Longrightarrow> j < length a \<Longrightarrow> shift_words amt k a ! j =
     (if k < j then a ! j
      else (if j = k then a ! k else push_bit amt (a ! j)) OR
        (if j = 0 then 0 else drop_bit (64 - amt) (a ! (j - 1))))"
proof (induction amt k a arbitrary: j rule: shift_words.induct)
  case (1 amt a)
  then show ?case by simp
next
  case (2 amt i a)
  let ?a1 = "a[i + 1 := a ! (i + 1) OR drop_bit (64 - amt) (a ! i)]"
  let ?a2 = "?a1[i := push_bit amt (?a1 ! i)]"
  have "shift_words amt (Suc i) a ! j = shift_words amt i ?a2 ! j" by (simp add: Let_def)
  also have "\<dots> = (if i < j then ?a2 ! j
      else (if j = i then ?a2 ! i else push_bit amt (?a2 ! j)) OR
        (if j = 0 then 0 else drop_bit (64 - amt) (?a2 ! (j - 1))))"
    using 2 by (intro 2(1) [OF refl refl refl]) simp_all
  finally show ?case using 2(2,3)
    by (cases "j = Suc i"; cases "j = i") (auto simp: nth_list_update less_Suc_eq)
qed

lemma bit_shifted_word:
  fixes x y :: u64
  assumes "m < 64" and "0 < amt" and "amt < 64"
  shows "bit (push_bit amt x OR drop_bit (64 - amt) y) m \<longleftrightarrow>
    (if amt \<le> m then bit x (m - amt) else bit y (64 + m - amt))"
  using assms by (auto simp: bit_or_iff bit_push_bit_iff bit_drop_bit_eq bit_beyond algebra_simps)

lemma shift_left_spec:
  assumes "wf v" and "0 < amt" and "amt < 64" and "0 < n_bits v"
  shows "\<exists>v'. shift_left v amt = Inr v' \<and> wf v' \<and> n_bits v' = n_bits v \<and>
    (\<forall>i < 64 * length (arr v). bit_at (arr v') i \<longleftrightarrow> amt \<le> i \<and> bit_at (arr v) (i - amt))"
proof -
  let ?top = "n_words v - 1"
  let ?a = "(arr v)[?top := push_bit amt (arr v ! ?top)]"
  let ?v' = "v\<lparr>arr := shift_words amt ?top ?a\<rparr>"
  have nw: "0 < n_words v" "length (arr v) = n_words v" using assms by (auto simp: wf_def)
  then have "shift_left v amt = Inr ?v'" using assms by (simp add: shift_left_def bpw_def Let_def)
  moreover have "wf ?v'" using assms(1) by (simp add: wf_def)
  moreover have "bit_at (arr ?v') i \<longleftrightarrow> amt \<le> i \<and> bit_at (arr v) (i - amt)"
    if i: "i < 64 * length (arr v)" for i
  proof -
    let ?j = "i div 64" and ?m = "i mod 64"
    have j: "?j < length (arr v)" using i by (simp add: div_less_iff_less_mult mult.commute)
    have w: "shift_words amt ?top ?a ! ?j = push_bit amt (arr v ! ?j) OR
        (if ?j = 0 then 0 else drop_bit (64 - amt) (arr v ! (?j - 1)))"
      using j nw by (subst shift_words_nth) (auto simp: nth_list_update)
    have now: "bit_at (arr ?v') i \<longleftrightarrow>
        (if amt \<le> ?m then bit (arr v ! ?j) (?m - amt)
         else ?j \<noteq> 0 \<and> bit (arr v ! (?j - 1)) (64 + ?m - amt))"
      using bit_shifted_word [of ?m amt "arr v ! ?j" "if ?j = 0 then 0 else arr v ! (?j - 1)"] assms(2,3) w
      by (cases "?j = 0") (auto simp: bit_at_def)
    show ?thesis
    proof (cases "amt \<le> ?m")
      case True
      have e: "i - amt = 64 * ?j + (?m - amt)" using True by (metis add_diff_assoc mult_div_mod_eq)
      have "?m - amt < 64" by (rule order.strict_trans1 [OF diff_le_self]) simp
      with e have "(i - amt) div 64 = ?j" "(i - amt) mod 64 = ?m - amt" by simp_all
      moreover have "amt \<le> i" using True by (rule order_trans) (rule mod_less_eq_dividend)
      ultimately show ?thesis using now True
        by (simp only: bit_at_def [of "arr v"] if_True simp_thms)
    next
      case False
      show ?thesis
      proof (cases "?j = 0")
        case True
        then have "i < 64" by (simp add: div_eq_0_iff)
        with False True now show ?thesis by simp
      next
        case j0: False
        have "i = 64 * ?j + ?m" by simp
        also have "\<dots> = 64 * (?j - 1) + (64 + ?m)" using j0 by (cases "?j") simp_all
        finally have e: "i - amt = 64 * (?j - 1) + (64 + ?m - amt)" and le: "amt \<le> i"
          using assms(3) by linarith+
        have "64 + ?m - amt < 64" using False by linarith
        with e have "(i - amt) div 64 = ?j - 1" "(i - amt) mod 64 = 64 + ?m - amt" by simp_all
        with le now False j0 show ?thesis
          by (simp only: bit_at_def [of "arr v"] if_False simp_thms)
      qed
    qed
  qed
  ultimately show ?thesis by (intro exI [of _ ?v']) simp
qed

section \<open>Construction\<close>

lemma sim_bitvec_new_spec:
  assumes "unat n \<le> 2 ^ 63"
  shows "\<exists>v. sim_bitvec_new n = Some v \<and> wf v \<and> clean v \<and> bits v = {} \<and> n_bits v = unat n \<and>
    last_bit v = unat (n - 1)"
proof -
  obtain l where l: "ln2 n = Some l" using ln2_returns [of n] assms by auto
  have a: "unat (n + 63) = unat n + 63" using assms by (subst unat_add_lem [THEN iffD1]) simp_all
  have "n + 64 - 1 = n + 63" by simp
  moreover have "unat (64 :: u64) = 64" by simp
  ultimately have w: "unat ((n + 64 - 1) div 64) = (unat n + 63) div 64"
    by (simp only: unat_div a)
  have "\<not> bit_at (replicate k 0) i" if "i < 64 * k" for i k
    using that by (simp add: bit_at_zeros div_less_iff_less_mult mult.commute)
  moreover have "unat n \<le> 64 * ((unat n + 63) div 64)" by linarith
  ultimately show ?thesis using l w by (auto simp: sim_bitvec_new_def wf_def bits_def clean_def)
qed

section \<open>Properties\<close>

text \<open>
  C25. The bit vector is a set of indices: after clearing a vector and setting the bits of a
  list of valid indices, testing any valid index tells whether it is in the list.
\<close>

theorem bitvec_is_index_set:
  assumes "wf v" and "\<forall>i \<in> set is. i < n_bits v" and "j < n_bits v"
  shows "bind_r (bv.ins_all (clear v) is) (\<lambda>v'. get_bit v' j) = Inr (j \<in> set is)"
  using bv.rebuild [OF assms] .

definition bitvec_demo :: sim_bitvec where
  "bitvec_demo = \<lparr>n_bits = 70, n_words = 2, ln2_bits = 7, last_bit = 69, arr = [0x9, 0x20]\<rparr>"

lemma bitvec_demo_wf: "wf bitvec_demo" "clean bitvec_demo"
proof -
  show "wf bitvec_demo" by (simp add: wf_def bitvec_demo_def)
  have "bit_at [0x9, 0x20] i \<Longrightarrow> i < 70" if "i < 128" for i
  proof -
    assume b: "bit_at [0x9, 0x20] i"
    show "i < 70"
    proof (rule ccontr)
      assume "\<not> i < 70"
      with that have "i div 64 = 1" "i mod 64 = i - 64" by (simp_all add: div_nat_eqI mod_nat_eqI)
      moreover have "\<not> bit (0x20 :: u64) n" if "6 \<le> n" for n
        using that bit_exp_iff [of 5 n, where ?'a = "64 word"] by simp
      ultimately show False using b \<open>\<not> i < 70\<close> by (simp add: bit_at_def)
    qed
  qed
  then show "clean bitvec_demo" by (force simp: clean_def bitvec_demo_def)
qed

theorem bitvec_is_index_set_witness:
  "bind_r (bv.ins_all (clear bitvec_demo) [3, 64, 69]) (\<lambda>v'. get_bit v' 64) = Inr True \<and>
   bind_r (bv.ins_all (clear bitvec_demo) [3, 64, 69]) (\<lambda>v'. get_bit v' 65) = Inr False"
  using bitvec_is_index_set [OF bitvec_demo_wf(1), of "[3, 64, 69]" 64]
    bitvec_is_index_set [OF bitvec_demo_wf(1), of "[3, 64, 69]" 65]
  by (simp add: bitvec_demo_def)

text \<open>
  The searches. \<open>find_first_set\<close> and \<open>find_first_unset\<close> return the least set and the
  least unset index, or -1 when there is none. \<open>find_first_unset_rr\<close> returns the last index
  when it is unset and otherwise the same as \<open>find_first_unset\<close>: nothing moves the place
  where it starts, so it does not go round.
\<close>

theorem bitvec_searches:
  assumes "wf v" and "last_bit v = n_bits v - 1" and "0 < n_bits v" and "n_bits v \<le> 2 ^ 63"
  shows "search_ok (\<lambda>i. i \<in> bits v) 0 (n_bits v) (find_first_set v) \<and>
    search_ok (\<lambda>i. i \<notin> bits v) 0 (n_bits v) (find_first_unset v) \<and>
    find_first_unset_rr v =
      Inr (if n_bits v - 1 \<notin> bits v then int (n_bits v - 1) else find_first_unset v)"
  using find_first_set_spec [OF assms(1)] find_first_unset_spec [OF assms(1)]
    find_first_unset_rr_result [OF assms] by blast

theorem bitvec_searches_witness:
  "search_ok (\<lambda>i. i \<in> bits bitvec_demo) 0 70 (find_first_set bitvec_demo) \<and>
   find_first_unset_rr bitvec_demo = Inr 1"
proof -
  have "69 \<in> bits bitvec_demo"
    using bit_exp_iff [of 5 5, where ?'a = "64 word"] by (simp add: bits_def bit_at_def bitvec_demo_def)
  moreover have "find_first_unset bitvec_demo = 1" by code_simp
  ultimately show ?thesis
    using bitvec_searches [OF bitvec_demo_wf(1)] by (simp add: bitvec_demo_def)
qed

text \<open>
  \<open>find_next_set\<close> returns the least set index above its argument, or -1; from -1 it
  is the least set index of all. The exception is the last index of a vector whose size is a
  multiple of 64: there it reads the word behind the end of the array.
\<close>

theorem find_next_set_result:
  assumes "wf v" and "clean v" and "unat (idx + 1) \<le> n_bits v"
  shows "if unat (idx + 1) = 64 * length (arr v) then find_next_set v idx = Inl (Bad_access (length (arr v)))
    else \<exists>r. find_next_set v idx = Inr r \<and> search_ok (\<lambda>j. j \<in> bits v) (unat (idx + 1)) (n_bits v) r"
  using find_next_set_spec [OF assms refl] .

theorem find_next_set_result_witness:
  "(\<exists>r. find_next_set bitvec_demo 3 = Inr r \<and> search_ok (\<lambda>j. j \<in> bits bitvec_demo) 4 70 r) \<and>
   (\<exists>r. find_next_set bitvec_demo (- 1) = Inr r \<and> search_ok (\<lambda>j. j \<in> bits bitvec_demo) 0 70 r) \<and>
   find_next_set \<lparr>n_bits = 64, n_words = 1, ln2_bits = 6, last_bit = 63, arr = [0]\<rparr> 63 = Inl (Bad_access 1)"
proof -
  let ?v = "\<lparr>n_bits = 64, n_words = 1, ln2_bits = 6, last_bit = 63, arr = [0 :: u64]\<rparr>"
  have "wf ?v" "clean ?v" by (auto simp: wf_def clean_def)
  from find_next_set_result [OF this, of 63] find_next_set_result [OF bitvec_demo_wf, of 3]
    find_next_set_result [OF bitvec_demo_wf, of "- 1"]
  show ?thesis by (simp add: bitvec_demo_def)
qed

text \<open>
  \<open>shift_left\<close> by an amount between 1 and 63 moves every bit of the array up by that
  amount, across word boundaries, and fills with zeros.
\<close>

theorem shift_left_moves_bits:
  assumes "wf v" and "0 < amt" and "amt < 64" and "0 < n_bits v"
  shows "\<exists>v'. shift_left v amt = Inr v' \<and> wf v' \<and> n_bits v' = n_bits v \<and>
    (\<forall>i < 64 * length (arr v). bit_at (arr v') i \<longleftrightarrow> amt \<le> i \<and> bit_at (arr v) (i - amt))"
  using shift_left_spec [OF assms] .

theorem shift_left_moves_bits_witness:
  "\<exists>v'. shift_left bitvec_demo 3 = Inr v' \<and> bit_at (arr v') 6 \<and> \<not> bit_at (arr v') 2"
proof -
  have "bit_at (arr bitvec_demo) 3"
    by (simp add: bit_at_def bitvec_demo_def bit_numeral_rec)
  moreover have "64 * length (arr bitvec_demo) = 128" by (simp add: bitvec_demo_def)
  ultimately show ?thesis
    using shift_left_moves_bits [OF bitvec_demo_wf(1), of 3] by (auto simp: bitvec_demo_def)
qed

end
