(* ===== verification/Gen_Html.thy ===== *)
theory Gen_Html
  imports Pipeline_Record "HOL-Library.Product_Lexorder"
begin

text \<open>
  \<open>gen_html.cc\<close>: turning a window of a pipeline log into a Kanata log and into the data of
  an HTML page. Files are lists of lines or characters; the regular expression search for the
  marker line is a search for its text. The serialization library is the parameter of
  \<open>Pipeline_Record.read_log\<close>; the options, which \<open>boost::program_options\<close> parses, are a record.
\<close>

section \<open>The template\<close>

fun has_marker :: "string \<Rightarrow> bool" where
  "has_marker [] = False"
| "has_marker (c # cs) = (take 13 (c # cs) = ''var tableData'' \<or> has_marker cs)"

fun read_template :: "string list \<Rightarrow> bool \<Rightarrow> string list \<Rightarrow> string list \<Rightarrow> string list \<times> string list" where
  "read_template [] use_pre pre post = (pre, post)"
| "read_template (l # ls) use_pre pre post =
    (if has_marker l then read_template ls False pre post
     else if use_pre then read_template ls use_pre (pre @ [l]) post
     else read_template ls use_pre pre (post @ [l]))"

section \<open>The window of records\<close>

text \<open>
  The loop over the records with its 1-based counter. The bound \<open>start + len\<close> is computed
  in 64 bits, so it wraps around.
\<close>

fun window_from :: "nat \<Rightarrow> nat \<Rightarrow> nat \<Rightarrow> 'a list \<Rightarrow> 'a list" where
  "window_from lo hi cnt [] = []"
| "window_from lo hi cnt (r # rs) =
    (let cnt' = cnt + 1 in
     if cnt' < lo then window_from lo hi cnt' rs
     else if cnt' > hi then []
     else r # window_from lo hi cnt' rs)"

definition window :: "u64 \<Rightarrow> u64 \<Rightarrow> 'a list \<Rightarrow> 'a list" where
  "window start len rs = window_from (unat start) (unat (start + len)) 0 rs"

section \<open>The Kanata log\<close>

datatype eventtype = FETCH | ALLOC | COMPLETE | RETIRE

type_synonym event_t = "eventtype \<times> pipeline_record"

text \<open>An ordered map from cycles to event lists; \<open>add_event\<close> is \<open>cycle_map[c].emplace_back\<close>.\<close>

fun add_event :: "u64 \<Rightarrow> event_t \<Rightarrow> (u64 \<times> event_t list) list \<Rightarrow> (u64 \<times> event_t list) list" where
  "add_event c e [] = [(c, [e])]"
| "add_event c e ((k, es) # m) =
    (if c < k then (c, [e]) # (k, es) # m
     else if c = k then (k, es @ [e]) # m
     else (k, es) # add_event c e m)"

definition add_record :: "pipeline_record \<Rightarrow> (u64 \<times> event_t list) list \<Rightarrow> (u64 \<times> event_t list) list" where
  "add_record r m = add_event (retire_cycle r) (RETIRE, r)
     (add_event (complete_cycle r) (COMPLETE, r)
     (add_event (alloc_cycle r) (ALLOC, r)
     (add_event (fetch_cycle r) (FETCH, r) m)))"

record kanata =
  first_cycle :: u64
  next_id :: u64
  remap_table :: "u64 \<rightharpoonup> u64"
  cycle_map :: "(u64 \<times> event_t list) list"

definition kanata_init :: kanata where
  "kanata_init = \<lparr>first_cycle = - 1, next_id = 0, remap_table = Map.empty, cycle_map = []\<rparr>"

definition kanata_record :: "kanata \<Rightarrow> pipeline_record \<Rightarrow> kanata" where
  "kanata_record k r = \<lparr>first_cycle = min (first_cycle k) (fetch_cycle r), next_id = next_id k + 1,
     remap_table = (remap_table k)(uuid r \<mapsto> next_id k), cycle_map = add_record r (cycle_map k)\<rparr>"

definition tab :: string where "tab = [CHR 0x09]"
definition nl :: string where "nl = [CHR 0x0A]"

definition event_text :: "(u64 \<rightharpoonup> u64) \<Rightarrow> event_t \<Rightarrow> failure + string" where
  "event_text remap e = (case remap (uuid (snd e)) of
     None \<Rightarrow> Inl Key_not_found
   | Some ii \<Rightarrow>
      (case fst e of
         FETCH \<Rightarrow> Inr (''I'' @ tab @ toString ii @ tab @ toString ii @ tab @ ''0'' @ nl @
           ''L'' @ tab @ toString ii @ tab @ ''0'' @ tab @ disasm (snd e) @ nl @
           ''S'' @ tab @ toString ii @ ''0'' @ tab @ ''F'' @ nl)
       | _ \<Rightarrow> Inr (''R'' @ tab @ toString ii @ tab @ toString ii @ tab @ ''0'' @ nl)))"

fun events_text :: "(u64 \<rightharpoonup> u64) \<Rightarrow> event_t list \<Rightarrow> failure + string" where
  "events_text remap [] = Inr ''''"
| "events_text remap (e # es) =
     bind_r (event_text remap e) (\<lambda>t. bind_r (events_text remap es) (\<lambda>u. Inr (t @ u)))"

fun cycles_text :: "(u64 \<rightharpoonup> u64) \<Rightarrow> u64 \<Rightarrow> u64 \<Rightarrow> (u64 \<times> event_t list) list \<Rightarrow> failure + string" where
  "cycles_text remap fst_cyc last_cycle [] = Inr ''''"
| "cycles_text remap fst_cyc last_cycle ((c, es) # m) =
     bind_r (events_text remap es) (\<lambda>t.
     bind_r (cycles_text remap fst_cyc c m) (\<lambda>u.
     Inr ((if last_cycle = - 1 then ''C='' @ tab @ toString fst_cyc @ nl
           else ''C'' @ tab @ toString (c - last_cycle) @ nl) @ t @ u)))"

definition generate_kanata :: "pipeline_data \<Rightarrow> u64 \<Rightarrow> u64 \<Rightarrow> failure + string" where
  "generate_kanata rs start len =
    (let k = foldl kanata_record kanata_init (window start len rs) in
     bind_r (cycles_text (remap_table k) (first_cycle k) (- 1) (cycle_map k)) (\<lambda>t.
     Inr (''Kanata'' @ tab @ ''004'' @ nl @ t)))"

text \<open>What is said on the console while the cycles are written.\<close>

definition cycle_line :: "u64 \<times> event_t list \<Rightarrow> string" where
  "cycle_line p = ''cycle '' @ toString (fst p) @ '' has '' @ dec (length (snd p)) @ '' events'' @ nl"

definition kanata_console :: "pipeline_data \<Rightarrow> u64 \<Rightarrow> u64 \<Rightarrow> string" where
  "kanata_console rs start len =
     concat (map cycle_line (cycle_map (foldl kanata_record kanata_init (window start len rs))))"

section \<open>The page\<close>

definition quote :: string where "quote = [CHR 0x22]"

definition op_text :: "pipeline_record \<Rightarrow> string" where
  "op_text r = ''{'' @ quote @ ''str'' @ quote @ '':'' @ quote @ toStringHex (rec_pc r) @ '' '' @
     disasm r @ quote @ '',uops:[{'' @ quote @ ''uuid'' @ quote @ '':'' @ quote @ toString (uuid r) @
     quote @ '','' @ quote @ ''events'' @ quote @ '':{'' @
     quote @ toString (fetch_cycle r) @ quote @ '':'' @ quote @ ''F'' @ quote @ '','' @
     quote @ toString (alloc_cycle r) @ quote @ '':'' @ quote @ ''A'' @ quote @ '','' @
     quote @ toString (complete_cycle r) @ quote @ '':'' @ quote @ ''C'' @ quote @ '','' @
     quote @ toString (retire_cycle r) @ quote @ '':'' @ quote @ ''R'' @ quote @ ''}}]}''"

fun join_ops :: "string list \<Rightarrow> string" where
  "join_ops [] = ''''"
| "join_ops [s] = s"
| "join_ops (s # t # ss) = s @ '','' @ join_ops (t # ss)"

definition html_page :: "string list \<Rightarrow> string list \<Rightarrow> pipeline_record list \<Rightarrow> string" where
  "html_page pre post rs =
     concat (map (\<lambda>l. l @ nl) pre) @ ''var tableData = ['' @ join_ops (map op_text rs) @ '']'' @ nl @
     concat (map (\<lambda>l. l @ nl) post)"

section \<open>The program\<close>

record gen_options =
  in_name :: string
  out_name :: string
  gen_start :: u64
  gen_len :: u64

definition default_gen_options :: gen_options where
  "default_gen_options = \<lparr>in_name = '''', out_name = '''', gen_start = 2 ^ 20, gen_len = 512\<rparr>"

text \<open>
  \<open>log\<close> is what the file named \<open>in_name\<close> holds, if it can be read. The result is the failure or
  the two files written, and the console. The console of the Kanata log is all of it, as
  generating it does not fail (\<open>kanata_never_fails\<close>).
\<close>

definition gen_html_main ::
    "string list \<Rightarrow> ('f \<Rightarrow> item list list option) \<Rightarrow> 'f option \<Rightarrow> gen_options \<Rightarrow>
     (failure + (string \<times> string) list) \<times> string" where
  "gen_html_main template unarchive log o1 =
    (let (pre, post) = read_template template True [] [];
         start = gen_start o1; len = gen_len o1 in
     case Option.bind log (read_log unarchive) of
       None \<Rightarrow> (Inl (Exit_called (- 1)), ''exception occured loading '' @ in_name o1 @ nl)
     | Some (rs, said) \<Rightarrow>
         (bind_r (generate_kanata rs start len) (\<lambda>k.
            Inr [(''kanata.log'', k), (out_name o1, html_page pre post (window start len rs))]),
          said @ dec (length rs) @ '' records read'' @ nl @
          ''Start at '' @ toString start @ '' and complete at '' @ toString (len + start) @ nl @
          kanata_console rs start len))"

section \<open>What the window holds\<close>

lemma window_closed:
  "window_from lo hi cnt rs =
     (if cnt + 1 < lo then take (hi + 1 - lo) (drop (lo - 1 - cnt) rs)
      else take (hi - cnt) rs)"
proof (induction lo hi cnt rs rule: window_from.induct)
  case (1 lo hi cnt)
  then show ?case by simp
next
  case (2 lo hi cnt r rs)
  consider "cnt + 1 < lo" | "hi < cnt + 1" "\<not> cnt + 1 < lo"
    | "\<not> cnt + 1 < lo" "\<not> hi < cnt + 1" by blast
  then show ?case
  proof cases
    case 1
    then have "lo - 1 - cnt = Suc (lo - 1 - (cnt + 1))" by simp
    moreover have "hi - (cnt + 1) = hi + 1 - lo" if "\<not> cnt + 2 < lo"
      using 1 that by simp
    ultimately show ?thesis using 1 2(1) [OF refl] by (cases "cnt + 2 < lo") (auto simp: Let_def)
  next
    case 2
    then show ?thesis by (simp add: Let_def)
  next
    case 3
    then have "hi - cnt = Suc (hi - (cnt + 1))" by simp
    with 3 2(2) [OF refl] show ?thesis by (simp add: Let_def)
  qed
qed

text \<open>
  The window of a page or log that starts at record \<open>start\<close> (counted from 1) ends with
  record \<open>start + len\<close>: it has one record more than the length asked for when the log is
  long enough, and none when \<open>start + len\<close> overflows. Starting at 0 gives the first \<open>len\<close>.
\<close>

theorem window_records:
  "window start len rs =
     (if start = 0 then take (unat len) rs
      else take (unat (start + len) + 1 - unat start) (drop (unat start - 1) rs))"
proof -
  have "start \<noteq> 0 \<Longrightarrow> 0 < unat start" by (simp add: unat_gt_0)
  then consider "start = 0" | "unat start = 1" "start \<noteq> 0" | "1 < unat start" "start \<noteq> 0" by fastforce
  then show ?thesis by cases (simp_all add: window_def window_closed)
qed

section \<open>The cycle map\<close>

lemma add_event_keys: "set (map fst (add_event c e m)) = insert c (set (map fst m))"
  by (induction m rule: add_event.induct) auto

lemma add_event_sorted:
  "sorted_wrt (<) (map fst m) \<Longrightarrow> sorted_wrt (<) (map fst (add_event c e m))"
proof (induction c e m rule: add_event.induct)
  case (1 c e)
  then show ?case by simp
next
  case (2 c e k es m)
  have "set (map fst (add_event c e m)) = insert c (set (map fst m))" by (rule add_event_keys)
  with 2 show ?case by (auto simp: image_iff)
qed

lemma add_record_sorted:
  "sorted_wrt (<) (map fst m) \<Longrightarrow> sorted_wrt (<) (map fst (add_record r m))"
  by (simp only: add_record_def add_event_sorted)

definition kanata_inv :: "pipeline_record list \<Rightarrow> kanata \<Rightarrow> bool" where
  "kanata_inv rs k \<longleftrightarrow> sorted_wrt (<) (map fst (cycle_map k)) \<and>
     (\<forall>(c, es) \<in> set (cycle_map k). \<forall>(t, r) \<in> set es. r \<in> set rs) \<and>
     (\<forall>r \<in> set rs. remap_table k (uuid r) \<noteq> None)"

lemma add_event_events:
  "(c', es') \<in> set (add_event c e m) \<Longrightarrow> x \<in> set es' \<Longrightarrow>
     x = e \<or> (\<exists>es. (c', es) \<in> set m \<and> x \<in> set es)"
proof (induction c e m rule: add_event.induct)
  case (1 c e)
  then show ?case by simp
next
  case (2 c e k es m)
  consider "c < k" | "c = k" | "\<not> c < k" "c \<noteq> k" by blast
  then show ?case
  proof cases
    case 3
    with "2.prems" consider "c' = k" "es' = es" | "(c', es') \<in> set (add_event c e m)" by auto
    then show ?thesis using "2.IH" [OF 3] "2.prems"(2) by cases (simp_all, blast+)
  qed (use "2.prems" in auto)
qed

lemma add_record_events:
  assumes "(c', es') \<in> set (add_record r m)" and "(t, r') \<in> set es'"
  shows "r' = r \<or> (\<exists>es. (c', es) \<in> set m \<and> (t, r') \<in> set es)"
  using assms unfolding add_record_def by (blast dest: add_event_events)

lemma kanata_record_inv: "kanata_inv rs k \<Longrightarrow> kanata_inv (rs @ [r]) (kanata_record k r)"
  unfolding kanata_inv_def kanata_record_def
  by (auto simp: add_record_sorted dest!: add_record_events)

lemma kanata_inv_all: "kanata_inv rs (foldl kanata_record kanata_init rs)"
proof (induction rs rule: rev_induct)
  case Nil
  then show ?case by (simp add: kanata_inv_def kanata_init_def)
next
  case (snoc r rs)
  then show ?case by (simp add: kanata_record_inv)
qed

lemma events_text_total:
  "\<forall>(t, r) \<in> set es. remap (uuid r) \<noteq> None \<Longrightarrow> \<exists>s. events_text remap es = Inr s"
proof (induction es)
  case (Cons e es)
  then show ?case by (cases e; cases "fst e") (auto simp: event_text_def)
qed simp

lemma cycles_text_total:
  "\<forall>(c, es) \<in> set m. \<forall>(t, r) \<in> set es. remap (uuid r) \<noteq> None \<Longrightarrow>
     \<exists>s. cycles_text remap f l m = Inr s"
proof (induction m arbitrary: l)
  case (Cons x m)
  obtain c es where x: "x = (c, es)" by (cases x)
  with Cons.prems obtain t where "events_text remap es = Inr t"
    using events_text_total [of es remap] by auto
  moreover obtain u where "cycles_text remap f c m = Inr u" using Cons by force
  ultimately show ?case using x by simp
qed simp

lemma kanata_never_fails: "\<exists>t. generate_kanata rs start len = Inr t"
proof -
  let ?w = "window start len rs"
  let ?k = "foldl kanata_record kanata_init ?w"
  have "kanata_inv ?w ?k" by (rule kanata_inv_all)
  then have "\<forall>(c, es) \<in> set (cycle_map ?k). \<forall>(t, r) \<in> set es. remap_table ?k (uuid r) \<noteq> None"
    unfolding kanata_inv_def by fast
  then obtain t where "cycles_text (remap_table ?k) (first_cycle ?k) (- 1) (cycle_map ?k) = Inr t"
    using cycles_text_total by blast
  then show ?thesis by (simp add: generate_kanata_def Let_def)
qed

text \<open>
  Generating the Kanata log never fails: the cycles come out strictly increasing, every
  event belongs to a record of the window, and every such record has an identifier, so the
  lookup \<open>remap_table.at\<close> finds it.
\<close>

theorem generate_kanata_total:
  "(\<exists>t. generate_kanata rs start len = Inr t) \<and>
   sorted_wrt (<) (map fst (cycle_map (foldl kanata_record kanata_init (window start len rs))))"
  using kanata_never_fails kanata_inv_all [of "window start len rs"] by (simp add: kanata_inv_def)

section \<open>The stage line\<close>

lemma num_string_snoc: "0 < n \<Longrightarrow> num_string 10 n @ ''0'' = num_string 10 (10 * n)"
  by (subst (2) num_string.simps) (simp add: digit_def)

text \<open>
  The line that starts the fetch stage has no tab between the identifier and the lane:
  for every identifier but 0 it names the instruction with ten times that identifier.
\<close>

theorem fetch_stage_names_tenfold:
  assumes "remap (uuid r) = Some ii" and "ii \<noteq> 0"
  shows "event_text remap (FETCH, r) =
    Inr (''I'' @ tab @ toString ii @ tab @ toString ii @ tab @ ''0'' @ nl @
         ''L'' @ tab @ toString ii @ tab @ ''0'' @ tab @ disasm r @ nl @
         ''S'' @ tab @ dec (10 * unat ii) @ tab @ ''F'' @ nl)"
proof -
  have "0 < unat ii" using assms(2) by (simp add: unat_gt_0)
  then show ?thesis
    using assms(1) num_string_snoc [of "unat ii"] by (simp add: event_text_def toString_def dec_def)
qed

theorem fetch_stage_names_tenfold_witness:
  "event_text [7 \<mapsto> 3] (FETCH, empty_record\<lparr>uuid := 7\<rparr>) =
    Inr (''I'' @ tab @ ''3'' @ tab @ ''3'' @ tab @ ''0'' @ nl @
         ''L'' @ tab @ ''3'' @ tab @ ''0'' @ tab @ nl @
         ''S'' @ tab @ ''30'' @ tab @ ''F'' @ nl)"
proof -
  have "dec 3 = ''3''" "dec 30 = ''30''" by code_simp+
  then show ?thesis
    using fetch_stage_names_tenfold [of "[7 \<mapsto> 3]" "empty_record\<lparr>uuid := 7\<rparr>" 3]
    by (simp add: toString_def empty_record_def)
qed

section \<open>From the logger to the page\<close>

text \<open>
  What the simulator's logger closes, the generator shows: it never fails on such a log, and its
  page has the records of the window, whatever was recorded.
\<close>

lemma gen_html_of_logger:
  assumes "\<And>xs. unarchive (archive xs) = Some xs"
  shows "\<exists>k said. gen_html_main template unarchive (Some (close_logger archive rs)) o1 =
    (Inr [(''kanata.log'', k), (out_name o1, html_page (fst (read_template template True [] []))
       (snd (read_template template True [] [])) (window (gen_start o1) (gen_len o1) rs))], said)"
proof -
  obtain k where "generate_kanata rs (gen_start o1) (gen_len o1) = Inr k"
    using kanata_never_fails by blast
  then show ?thesis
    using read_close_logger [of unarchive archive rs] assms
    by (simp add: gen_html_main_def split_beta Let_def)
qed

end
