(* ===== verification/Legacy_Formats.thy ===== *)
theory Legacy_Formats
  imports Insn_Formats Helper
begin

text \<open>
  The instruction unions \<open>top.hh\<close> keeps from the processor's MIPS predecessor (\<open>itype\<close>,
  \<open>rtype\<close>, \<open>ceqs\<close>, \<open>mtc1\<close>, \<open>mthi\<close>, \<open>mtlo\<close>) with their constructors, the bit fields of a
  double (\<open>dbl\<close>), \<open>round_to_alignment\<close> and the casts between numbers and words. The program only asserts the size of \<open>itype\<close>.

  A constructor fills in the fields one by one; the word it starts from is the storage as it
  was, an argument here.
\<close>

unbundle bit_operations_syntax

section \<open>The unions\<close>

record mips_itype =
  mi_imm :: u16
  mi_rs :: u5
  mi_rt :: u5
  mi_op :: "6 word"

definition mips_itype_of :: "u32 \<Rightarrow> mips_itype" where
  "mips_itype_of w = \<lparr>mi_imm = field 0 w, mi_rs = field 16 w, mi_rt = field 21 w, mi_op = field 26 w\<rparr>"

definition raw_of_mips_itype :: "mips_itype \<Rightarrow> u32" where
  "raw_of_mips_itype x = place 0 (mi_imm x) OR place 16 (mi_rs x) OR place 21 (mi_rt x) OR place 26 (mi_op x)"

record mips_rtype =
  mr_subop :: "6 word"
  mr_z :: u5
  mr_rd :: u5
  mr_rt :: u5
  mr_rs :: u5
  mr_op :: "6 word"

definition mips_rtype_of :: "u32 \<Rightarrow> mips_rtype" where
  "mips_rtype_of w = \<lparr>mr_subop = field 0 w, mr_z = field 6 w, mr_rd = field 11 w, mr_rt = field 16 w,
     mr_rs = field 21 w, mr_op = field 26 w\<rparr>"

definition raw_of_mips_rtype :: "mips_rtype \<Rightarrow> u32" where
  "raw_of_mips_rtype x = place 0 (mr_subop x) OR place 6 (mr_z x) OR place 11 (mr_rd x) OR
     place 16 (mr_rt x) OR place 21 (mr_rs x) OR place 26 (mr_op x)"

record ceqs =
  c_fpop :: "6 word"
  c_zeros :: "2 word"
  c_cc :: "3 word"
  c_fs :: u5
  c_ft :: u5
  c_fmt :: u5
  c_opcode :: "6 word"

definition ceqs_of :: "u32 \<Rightarrow> ceqs" where
  "ceqs_of w = \<lparr>c_fpop = field 0 w, c_zeros = field 6 w, c_cc = field 8 w, c_fs = field 11 w,
     c_ft = field 16 w, c_fmt = field 21 w, c_opcode = field 26 w\<rparr>"

definition raw_of_ceqs :: "ceqs \<Rightarrow> u32" where
  "raw_of_ceqs x = place 0 (c_fpop x) OR place 6 (c_zeros x) OR place 8 (c_cc x) OR place 11 (c_fs x) OR
     place 16 (c_ft x) OR place 21 (c_fmt x) OR place 26 (c_opcode x)"

record mtc1 =
  m1_zeros :: "11 word"
  m1_fs :: u5
  m1_rt :: u5
  m1_mt :: u5
  m1_opcode :: "6 word"

definition mtc1_of :: "u32 \<Rightarrow> mtc1" where
  "mtc1_of w = \<lparr>m1_zeros = field 0 w, m1_fs = field 11 w, m1_rt = field 16 w, m1_mt = field 21 w,
     m1_opcode = field 26 w\<rparr>"

definition raw_of_mtc1 :: "mtc1 \<Rightarrow> u32" where
  "raw_of_mtc1 x = place 0 (m1_zeros x) OR place 11 (m1_fs x) OR place 16 (m1_rt x) OR place 21 (m1_mt x) OR
     place 26 (m1_opcode x)"

text \<open>\<open>mthi\<close> and \<open>mtlo\<close> have the same fields.\<close>

record mthilo =
  hl_secondary_opcode :: "6 word"
  hl_zeros :: "15 word"
  hl_rs :: u5
  hl_primary_opcode :: "6 word"

definition mthilo_of :: "u32 \<Rightarrow> mthilo" where
  "mthilo_of w = \<lparr>hl_secondary_opcode = field 0 w, hl_zeros = field 6 w, hl_rs = field 21 w,
     hl_primary_opcode = field 26 w\<rparr>"

definition raw_of_mthilo :: "mthilo \<Rightarrow> u32" where
  "raw_of_mthilo x = place 0 (hl_secondary_opcode x) OR place 6 (hl_zeros x) OR place 21 (hl_rs x) OR
     place 26 (hl_primary_opcode x)"

text \<open>The fields of a double: fraction, exponent, sign; \<open>bias\<close> of \<open>double_\<close>.\<close>

record dbl =
  d_f :: "52 word"
  d_e :: "11 word"
  d_s :: "1 word"

definition dbl_of :: "u64 \<Rightarrow> dbl" where
  "dbl_of w = \<lparr>d_f = ucast w, d_e = ucast (drop_bit 52 w), d_s = ucast (drop_bit 63 w)\<rparr>"

definition bias :: u32 where
  "bias = 1023"

section \<open>The constructors\<close>

text \<open>A bit field takes the low bits of the \<open>uint32_t\<close> assigned to it.\<close>

definition ceqs_new :: "u32 \<Rightarrow> u32 \<Rightarrow> u32 \<Rightarrow> u32 \<Rightarrow> u32" where
  "ceqs_new w fs ft cc = raw_of_ceqs ((ceqs_of w)\<lparr>c_fpop := 50, c_zeros := 0, c_cc := ucast cc,
     c_fs := ucast fs, c_fmt := 16, c_opcode := 17\<rparr>)"

definition mtc1_new :: "u32 \<Rightarrow> u32 \<Rightarrow> u32 \<Rightarrow> u32" where
  "mtc1_new w fs rt = raw_of_mtc1 ((mtc1_of w)\<lparr>m1_opcode := 17, m1_mt := 4, m1_zeros := 0,
     m1_fs := ucast fs, m1_rt := ucast rt\<rparr>)"

definition mthi_new :: "u32 \<Rightarrow> u32 \<Rightarrow> u32" where
  "mthi_new w rs = raw_of_mthilo ((mthilo_of w)\<lparr>hl_primary_opcode := 0, hl_rs := ucast rs,
     hl_zeros := 0, hl_secondary_opcode := 17\<rparr>)"

definition mtlo_new :: "u32 \<Rightarrow> u32 \<Rightarrow> u32" where
  "mtlo_new w rs = raw_of_mthilo ((mthilo_of w)\<lparr>hl_primary_opcode := 0, hl_rs := ucast rs,
     hl_zeros := 0, hl_secondary_opcode := 19\<rparr>)"

definition round_to_alignment :: "'a::len word \<Rightarrow> 'a word \<Rightarrow> 'a word" where
  "round_to_alignment x m = ((x + m - 1) div m) * m"

text \<open>
  The casts between floating-point numbers and words reinterpret the bytes of an object. The
  type of the numbers, with the bytes of a number (\<open>repr\<close>) and the number of given bytes
  (\<open>of_repr\<close>), is the machine's, and a parameter.
\<close>

definition to_uint32 :: "('f \<Rightarrow> u8 list) \<Rightarrow> 'f \<Rightarrow> u32" where
  "to_uint32 repr f = le_word (repr f)"

definition to_uint64 :: "('d \<Rightarrow> u8 list) \<Rightarrow> 'd \<Rightarrow> u64" where
  "to_uint64 repr d = le_word (repr d)"

definition to_float :: "(u8 list \<Rightarrow> 'f) \<Rightarrow> u32 \<Rightarrow> 'f" where
  "to_float of_repr u = of_repr (le_bytes 4 u)"

definition to_double :: "(u8 list \<Rightarrow> 'd) \<Rightarrow> u64 \<Rightarrow> 'd" where
  "to_double of_repr u = of_repr (le_bytes 8 u)"

section \<open>Views and constructors\<close>

lemmas legacy_views = mips_itype_of_def mips_rtype_of_def ceqs_of_def mtc1_of_def mthilo_of_def

lemmas legacy_raws = raw_of_mips_itype_def raw_of_mips_rtype_def raw_of_ceqs_def raw_of_mtc1_def
  raw_of_mthilo_def

interpretation mips_itype_view: word_struct mips_itype_of raw_of_mips_itype
  by unfold_locales (simp_all add: legacy_views legacy_raws word_fields,
    rule bit_word_eqI, auto simp: bit_or_iff bit_place_field_iff)

interpretation mips_rtype_view: word_struct mips_rtype_of raw_of_mips_rtype
  by unfold_locales (simp_all add: legacy_views legacy_raws word_fields,
    rule bit_word_eqI, auto simp: bit_or_iff bit_place_field_iff)

interpretation ceqs_view: word_struct ceqs_of raw_of_ceqs
  by unfold_locales (simp_all add: legacy_views legacy_raws word_fields,
    rule bit_word_eqI, auto simp: bit_or_iff bit_place_field_iff)

interpretation mtc1_view: word_struct mtc1_of raw_of_mtc1
  by unfold_locales (simp_all add: legacy_views legacy_raws word_fields,
    rule bit_word_eqI, auto simp: bit_or_iff bit_place_field_iff)

interpretation mthilo_view: word_struct mthilo_of raw_of_mthilo
  by unfold_locales (simp_all add: legacy_views legacy_raws word_fields,
    rule bit_word_eqI, auto simp: bit_or_iff bit_place_field_iff)

text \<open>
  The constructors. What \<open>mtc1\<close>, \<open>mthi\<close> and \<open>mtlo\<close> make of a piece of storage does not depend
  on what was in it; \<open>ceqs\<close> leaves the field \<open>ft\<close> as it was, whatever its argument \<open>ft\<close> is.
\<close>

theorem constructors_fill_storage:
  "mtc1_new w fs rt = mtc1_new v fs rt" "mthi_new w rs = mthi_new v rs" "mtlo_new w rs = mtlo_new v rs"
  "c_ft (ceqs_of (ceqs_new w fs ft cc)) = c_ft (ceqs_of w)"
  by (simp_all add: mtc1_new_def mthi_new_def mtlo_new_def ceqs_new_def ceqs_view.view_raw
      mtc1_view.raw_inject mthilo_view.raw_inject mtc1_of_def mthilo_of_def)

text \<open>\<open>round_to_alignment\<close> repeats \<open>helper.hh: roundToPgSz\<close>.\<close>

lemma round_to_alignment_is_roundToPgSz: "round_to_alignment x m = roundToPgSz x m"
  by (simp add: round_to_alignment_def roundToPgSz_def)

text \<open>A cast to a word and back gives the number again, also one that is no number.\<close>

lemma casts_and_back:
  assumes "of_repr (repr x) = x"
  shows "length (repr x) = 4 \<Longrightarrow> to_float of_repr (to_uint32 repr x) = x"
    and "length (repr x) = 8 \<Longrightarrow> to_double of_repr (to_uint64 repr x) = x"
  using le_bytes_le_word [of "repr x", where ?'a = 32] le_bytes_le_word [of "repr x", where ?'a = 64] assms
  by (simp_all add: to_float_def to_uint32_def to_double_def to_uint64_def)

lemma cast_from_word:
  assumes "\<And>bs. repr (of_repr bs) = bs"
  shows "to_uint32 repr (to_float of_repr u) = u" and "to_uint64 repr (to_double of_repr v) = v"
  using assms by (simp_all add: to_float_def to_uint32_def to_double_def to_uint64_def le_word_le_bytes)

end
