(* ===== verification/Reference_Core.thy ===== *)
theory Reference_Core
  imports Cosimulation
begin

text \<open>
  The other half of the checker's contract: it raises no false alarm. The locale \<open>isa_core\<close> is
  the interface between the main loop and the core: a relation between the core and the
  simulator's state under which every instruction the core retires is the one the simulator
  executes next, with the same effect on the registers. Under it the loop never stops because
  of the checker. The simulator itself, used as a core, satisfies it (\<open>iss_core\<close>).
\<close>

unbundle bit_operations_syntax

section \<open>The interface\<close>

locale isa_core =
  fixes v :: "'r rtl" and h :: "'w host" and g :: globals and rel :: "'r \<Rightarrow> state_t \<Rightarrow> bool"
  assumes quiet: "rel r s \<Longrightarrow> clk i \<Longrightarrow> \<not> got_monitor (outs v (eval v i r)) \<and>
      \<not> retire_two_valid (outs v (eval v i r)) \<and> \<not> retire_reg_two_valid (outs v (eval v i r))"
    and waits: "rel r s \<Longrightarrow> clk i \<Longrightarrow> \<not> retire_valid (outs v (eval v i r)) \<Longrightarrow>
      \<not> retire_reg_valid (outs v (eval v i r)) \<and> rel (eval v i r) s"
    and retires: "rel r s \<Longrightarrow> clk i \<Longrightarrow> retire_valid (outs v (eval v i r)) \<Longrightarrow>
      retire_pc (outs v (eval v i r)) = pc s \<and>
      (\<exists>s'. execRiscv h g w s = Inr (w, s') \<and> rel (eval v i r) s' \<and>
        gpr s' = (if retire_reg_valid (outs v (eval v i r))
          then (gpr s)(retire_reg_ptr (outs v (eval v i r)) := retire_reg_data (outs v (eval v i r))) else gpr s))"
    and falls: "rel r s \<Longrightarrow> \<not> clk i \<Longrightarrow> rel (eval v i r) s"
begin

definition in_sync :: "'r \<Rightarrow> 'w harness \<Rightarrow> bool" where
  "in_sync r H \<longleftrightarrow> rel r (st_ss H) \<and> gpr (st_s H) = gpr (st_ss H) \<and> last_check H = 0"

definition no_alarm :: "stop \<Rightarrow> 'w harness \<Rightarrow> bool" where
  "no_alarm why H \<longleftrightarrow> why \<noteq> Diverged \<and> why \<noteq> No_match"

lemma check_passes:
  assumes "rel r (st_ss H)" and "clk i" and "retire_valid (outs v (eval v i r))" and "last_check H = 0"
    and "gpr (st_s H) = (if retire_reg_valid (outs v (eval v i r))
      then (gpr (st_ss H))(retire_reg_ptr (outs v (eval v i r)) := retire_reg_data (outs v (eval v i r)))
      else gpr (st_ss H))"
  shows "ok_r (case_outcome (in_sync (eval v i r)) no_alarm) (check_one h g k (outs v (eval v i r)) H)"
proof -
  obtain s' where p: "retire_pc (outs v (eval v i r)) = pc (st_ss H)"
    and e: "execRiscv h g (world H) (st_ss H) = Inr (world H, s')"
    and s': "rel (eval v i r) s'" "gpr s' = gpr (st_s H)"
    using retires [OF assms(1-3), of "world H"] assms(5) by metis
  have "differing s' (st_s H) = []" using s'(2) by (simp add: differing_Nil)
  then show ?thesis using p e s' by (simp add: check_one_def Let_def in_sync_def)
qed

lemma retire_one_passes:
  assumes "in_sync r H" and "clk i" and "enable_checker k"
  shows "ok_r (case_outcome (in_sync (eval v i r)) no_alarm)
    (retire_one h g k (outs v (eval v i r)) (count_events (outs v (eval v i r)) (retire_reg_one (outs v (eval v i r)) H)))"
proof (rule retire_one_rule)
  let ?c = "outs v (eval v i r)"
  let ?R = "count_events ?c (retire_reg_one ?c H)"
  have r: "rel r (st_ss H)" "gpr (st_s H) = gpr (st_ss H)" "last_check H = 0"
    using assms(1) by (simp_all add: in_sync_def)
  have R: "last_check ?R = 0" using r(3) by (simp add: count_events_def retire_reg_one_def Let_def)
  {
    assume "\<not> retire_valid ?c"
    from waits [OF r(1) assms(2) this] r R show "in_sync (eval v i r) ?R"
      by (simp add: in_sync_def retire_reg_one_def count_events_def Let_def)
  next
    fix H1 assume "got_bad_addr ?c"
    show "ok_r (case_outcome (in_sync (eval v i r)) no_alarm) (stop_with Unaligned (Inr (unaligned_text, '''')) H1)"
      by (rule stop_with_rule) (simp add: no_alarm_def)
  next
    fix H1 assume v: "retire_valid ?c" and cr: "count_retired k ?c ?R = Inr H1"
    note s = count_retired_sel [OF cr]
    show "ok_r (case_outcome (in_sync (eval v i r)) no_alarm) (check_one h g k ?c H1)"
      using r R s v assms(2) by (intro check_passes) (simp_all add: retire_reg_one_def)
  }
qed (use assms(3) in simp)

lemma body_passes:
  assumes "in_sync r H" and "clk i" and "enable_checker k"
  shows "ok_r (case_outcome (in_sync (eval v i r)) no_alarm) (loop_body h g k (outs v (eval v i r)) H)"
proof (rule loop_body_rule [where PA = "in_sync r" and PB = "in_sync (eval v i r)"
      and PC = "in_sync (eval v i r)" and PD = "in_sync (eval v i r)"])
  let ?c = "outs v (eval v i r)"
  have q: "\<not> got_monitor ?c" "\<not> retire_two_valid ?c" "\<not> retire_reg_two_valid ?c"
    using quiet [of r "st_ss H" i] assms(1,2) by (auto simp: in_sync_def)
  show "ok_r (case_outcome (in_sync r) no_alarm) (service_monitor h g ?c H)"
    using assms(1) q by (simp add: service_monitor_def)
  show "ok_r (case_outcome (in_sync (eval v i r)) no_alarm) (retire_one h g k ?c (count_events ?c (retire_reg_one ?c H')))"
    if "in_sync r H'" for H' using that assms(2,3) by (rule retire_one_passes)
  show "ok_r (case_outcome (in_sync (eval v i r)) no_alarm) (retire_two h g k ?c H')"
    if "in_sync (eval v i r) H'" for H' using that q by (simp add: retire_two_def)
  show "ok_r (case_outcome (in_sync (eval v i r)) no_alarm) (watchdog k ?c H')"
    if "in_sync (eval v i r) H'" for H'
    using that by (auto simp: watchdog_def Let_def no_alarm_def in_sync_def intro!: stop_with_rule)
  show "ok_r (in_sync (eval v i r)) (serve_memory k ?c (count_inflight ?c H'))"
    if "in_sync (eval v i r) H'" for H'
    using that by (auto simp: serve_memory_def count_inflight_def Let_def in_sync_def intro!: ok_rI split: prod.splits)
qed

lemma never_alarms:
  assumes "in_sync r H" and "enable_checker k"
  shows "ok_r (\<lambda>(r', why, H'). case why of None \<Rightarrow> in_sync r' H' | Some why \<Rightarrow> no_alarm why H')
    (main_loop v h g k start r H)"
proof (rule main_loop_core_rule)
  fix r and H :: "'w harness"
  let ?r1 = "eval v (inputs True start H) r"
  assume "in_sync r H"
  then have "ok_r (case_outcome (in_sync ?r1) no_alarm) (loop_body h g k (outs v ?r1) H)"
    using assms(2) by (intro body_passes) (simp_all add: inputs_def)
  then show "ok_r (case_outcome (\<lambda>H'. in_sync (eval v (inputs False start H') ?r1) (loop_tail H')) no_alarm)
      (loop_body h g k (outs v ?r1) H)"
  proof (rule outcome_mono)
    fix H' assume "in_sync ?r1 H'"
    then show "in_sync (eval v (inputs False start H') ?r1) (loop_tail H')"
      using falls [of ?r1 "st_ss H'" "inputs False start H'"]
      by (simp add: in_sync_def inputs_def loop_tail_def Let_def)
  qed
qed (fact assms(1))

lemma ends_without_alarm:
  assumes "rel r (st_ss H)" and "gpr (st_s H) = gpr (st_ss H)" and "last_check H = 0" and "enable_checker k"
  shows "ok_r (\<lambda>(r', why, H'). why \<noteq> Some Diverged \<and> why \<noteq> Some No_match \<and>
      (why = None \<longrightarrow> gpr (st_s H') = gpr (st_ss H')))
    (main_loop v h g k start r H)"
proof -
  have "in_sync r H" using assms by (simp add: in_sync_def)
  from never_alarms [OF this assms(4), of start] show ?thesis
    by (auto simp: in_sync_def no_alarm_def elim!: ok_r_mono split: option.splits)
qed

end

section \<open>The simulator as a core\<close>

text \<open>
  A core that retires one instruction of the simulator at each rising edge and reports the
  register it names. It makes no memory request: it is a model of the instructions, not of
  their timing.
\<close>

definition iss_step :: "state_t \<Rightarrow> failure + state_t" where
  "iss_step s = bind_r (mem_r32 (mem s) (unat (pc s))) (\<lambda>inst.
     bind_r (exec_insn inst s) (\<lambda>s'. Inr (s'\<lparr>last_pc := pc s, icnt := icnt s + 1\<rparr>)))"

definition fetched_rd :: "state_t \<Rightarrow> u5" where
  "fetched_rd s = (case mem_r32 (mem s) (unat (pc s)) of Inl e \<Rightarrow> 0 | Inr inst \<Rightarrow> field 7 inst)"

record iss =
  iss_state :: state_t
  iss_out :: core_out

definition iss_retire :: "state_t \<Rightarrow> state_t \<Rightarrow> core_out" where
  "iss_retire s s' = idle_out\<lparr>retire_valid := True, retire_pc := pc s, retire_reg_valid := True,
     retire_reg_ptr := fetched_rd s, retire_reg_data := gpr s' (fetched_rd s)\<rparr>"

definition iss_eval :: "core_in \<Rightarrow> iss \<Rightarrow> iss" where
  "iss_eval i r =
    (if clk i then
       case iss_step (iss_state r) of
         Inl e \<Rightarrow> r\<lparr>iss_out := idle_out\<rparr>
       | Inr s' \<Rightarrow> \<lparr>iss_state = s', iss_out = iss_retire (iss_state r) s'\<rparr>
     else r)"

definition iss_core :: "iss rtl" where
  "iss_core = \<lparr>eval = iss_eval, outs = iss_out, gotFinish = (\<lambda>r. False)\<rparr>"

text \<open>A guest that never fails and never asks the host for anything.\<close>

fun iss_run :: "nat \<Rightarrow> state_t \<Rightarrow> failure + state_t" where
  "iss_run 0 s = Inr s"
| "iss_run (Suc n) s = bind_r (iss_step s) (iss_run n)"

definition calm :: "globals \<Rightarrow> state_t \<Rightarrow> bool" where
  "calm g s \<longleftrightarrow> (\<forall>n. ok_r (\<lambda>s'. tohost_word g s' = Inr 0) (iss_run n s) \<and> (\<exists>s'. iss_run n s = Inr s'))"

lemma calmI:
  assumes "\<And>n. \<exists>s'. iss_run n s = Inr s' \<and> tohost_word g s' = Inr 0"
  shows "calm g s"
  unfolding calm_def
proof
  fix n
  from assms [of n] obtain s' where "iss_run n s = Inr s'" "tohost_word g s' = Inr 0" by blast
  then show "ok_r (\<lambda>s'. tohost_word g s' = Inr 0) (iss_run n s) \<and> (\<exists>s'. iss_run n s = Inr s')" by simp
qed

lemma calm_now: "calm g s \<Longrightarrow> tohost_word g s = Inr 0"
  using calm_def [THEN iffD1, THEN spec, of g s 0] by simp

lemma calm_step:
  assumes "calm g s"
  obtains s' where "iss_step s = Inr s'" and "calm g s'"
proof -
  have n: "ok_r (\<lambda>s'. tohost_word g s' = Inr 0) (bind_r (iss_step s) (iss_run n)) \<and>
      (\<exists>s'. bind_r (iss_step s) (iss_run n) = Inr s')" for n
    using calm_def [THEN iffD1, THEN spec, OF assms, of "Suc n"] by simp
  then obtain s' where s': "iss_step s = Inr s'" by (cases "iss_step s") (use n [of 0] in auto)
  with n have "calm g s'" by (simp add: calm_def)
  with s' show ?thesis by (rule that)
qed

lemma iss_step_execRiscv:
  assumes "iss_step s = Inr s'" and "tohost_word g s = Inr 0"
  shows "execRiscv h g w s = Inr (w, s')"
    and "gpr s' = (gpr s)(fetched_rd s := gpr s' (fetched_rd s))"
proof -
  from assms(1) obtain inst s1 where f: "mem_r32 (mem s) (unat (pc s)) = Inr inst"
    and x: "exec_insn inst s = Inr s1" and s': "s' = s1\<lparr>last_pc := pc s, icnt := icnt s + 1\<rparr>"
    by (auto simp: iss_step_def bind_r_eq_Inr_iff)
  from execRiscv_quiet [OF f assms(2)] x s' show "execRiscv h g w s = Inr (w, s')" by simp
  from exec_insn_rd [THEN ok_rD, OF x] f s' show "gpr s' = (gpr s)(fetched_rd s := gpr s' (fetched_rd s))"
    by (simp add: only_rd_def fetched_rd_def)
qed

lemma iss_out_sel [simp]:
  "got_monitor (iss_retire s s') \<longleftrightarrow> False" "retire_two_valid (iss_retire s s') \<longleftrightarrow> False"
  "retire_reg_two_valid (iss_retire s s') \<longleftrightarrow> False" "retire_valid (iss_retire s s')" "retire_pc (iss_retire s s') = pc s" "retire_reg_valid (iss_retire s s')"
  "retire_reg_ptr (iss_retire s s') = fetched_rd s" "retire_reg_data (iss_retire s s') = gpr s' (fetched_rd s)"
  by (simp_all add: iss_retire_def idle_out_def)

lemma iss_eval_clk:
  fixes i :: core_in and r :: iss
  assumes "calm g (iss_state r)" and "clk i"
  obtains s' where "iss_step (iss_state r) = Inr s'" and "calm g s'"
    and "eval iss_core i r = \<lparr>iss_state = s', iss_out = iss_retire (iss_state r) s'\<rparr>"
proof -
  from assms(1) obtain s' where s': "iss_step (iss_state r) = Inr s'" "calm g s'" by (rule calm_step)
  with assms(2) have "eval iss_core i r = \<lparr>iss_state = s', iss_out = iss_retire (iss_state r) s'\<rparr>"
    by (simp add: iss_core_def iss_eval_def)
  with s' show ?thesis by (rule that)
qed

lemma outs_iss [simp]: "outs iss_core r = iss_out r"
  by (simp add: iss_core_def)

lemma iss_isa_core: "isa_core iss_core h g (\<lambda>r s. iss_state r = s \<and> calm g s)"
proof
  fix r :: iss and s and i :: core_in
  assume rel: "iss_state r = s \<and> calm g s"
  {
    assume "clk i"
    with rel obtain s' where e: "iss_step s = Inr s'" "calm g s'"
      "eval iss_core i r = \<lparr>iss_state = s', iss_out = iss_retire s s'\<rparr>"
      using iss_eval_clk [of g r i thesis] by auto
    have t: "tohost_word g s = Inr 0" using rel by (blast intro: calm_now)
    note gpr = iss_step_execRiscv(2) [OF e(1) t, symmetric]
    show "\<not> got_monitor (outs iss_core (eval iss_core i r)) \<and>
        \<not> retire_two_valid (outs iss_core (eval iss_core i r)) \<and>
        \<not> retire_reg_two_valid (outs iss_core (eval iss_core i r))"
      by (simp add: e(3))
    show "\<not> retire_reg_valid (outs iss_core (eval iss_core i r)) \<and>
        (iss_state (eval iss_core i r) = s \<and> calm g s)"
      if "\<not> retire_valid (outs iss_core (eval iss_core i r))"
      using that by (simp add: e(3))
    show "retire_pc (outs iss_core (eval iss_core i r)) = pc s \<and>
      (\<exists>s'. execRiscv h g w s = Inr (w, s') \<and>
        (iss_state (eval iss_core i r) = s' \<and> calm g s') \<and>
        gpr s' = (if retire_reg_valid (outs iss_core (eval iss_core i r))
          then (gpr s)(retire_reg_ptr (outs iss_core (eval iss_core i r)) :=
            retire_reg_data (outs iss_core (eval iss_core i r))) else gpr s))"
      if "retire_valid (outs iss_core (eval iss_core i r))" for w
      using iss_step_execRiscv(1) [OF e(1) t, of h w] e(2) by (simp add: e(3) gpr)
  next
    assume "\<not> clk i"
    with rel show "iss_state (eval iss_core i r) = s \<and> calm g s" by (simp add: iss_core_def iss_eval_def)
  }
qed

interpretation iss: isa_core iss_core h g "\<lambda>r s. iss_state r = s \<and> calm g s"
  for h :: "'w host" and g :: globals
  by (rule iss_isa_core)

section \<open>The simulator against itself\<close>

lemma iss_run_snoc: "iss_run (Suc n) s = bind_r (iss_run n s) iss_step"
proof (induction n arbitrary: s)
  case (Suc n)
  have "iss_run (Suc n) = (\<lambda>s. bind_r (iss_run n s) iss_step)" by (rule ext) (rule Suc)
  then have "iss_run (Suc (Suc n)) s = bind_r (iss_step s) (\<lambda>s. bind_r (iss_run n s) iss_step)" by simp
  then show ?case by (simp add: bind_r_assoc)
qed (simp add: bind_r_def split: sum.split)

text \<open>One iteration over the simulator as a core.\<close>

definition with_itself :: "globals \<Rightarrow> iss \<Rightarrow> 'w harness \<Rightarrow> bool" where
  "with_itself g r H \<longleftrightarrow> iss_state r = st_ss H \<and> calm g (st_ss H) \<and> gpr (st_s H) = gpr (st_ss H) \<and>
     last_check H = 0 \<and> idle_port H"

lemma iss_body:
  assumes "with_itself g r H" and "cyc H \<noteq> - 1" and "enable_checker k" and "heartbeat k \<noteq> 0"
  shows "\<exists>s' H'. iss_step (st_ss H) = Inr s' \<and>
    loop_body h g k (outs iss_core (eval iss_core (inputs True start H) r)) H = Inr (Go H') \<and>
    with_itself g (eval iss_core (inputs True start H) r) H' \<and> st_ss H' = s' \<and> cyc H' = cyc H \<and>
    insns_retired H' = insns_retired H + 1 \<and> n_checks H' = n_checks H + 1 \<and> incorrect H' = incorrect H"
proof -
  let ?s = "st_ss H"
  have w: "iss_state r = ?s" "calm g ?s" "gpr (st_s H) = gpr ?s" "last_check H = 0" "idle_port H"
    using assms(1) by (simp_all add: with_itself_def)
  from w obtain s' where s': "iss_step ?s = Inr s'" "calm g s'"
    and e: "eval iss_core (inputs True start H) r = \<lparr>iss_state = s', iss_out = iss_retire ?s s'\<rparr>"
    using iss_eval_clk [of g r "inputs True start H" thesis] by (auto simp: inputs_def)
  let ?c = "iss_retire ?s s'" and ?R = "count_events (iss_retire ?s s') (retire_reg_one (iss_retire ?s s') H)"
  have x: "execRiscv h g w ?s = Inr (w, s')" for w
    using s'(1) calm_now [OF w(2)] by (rule iss_step_execRiscv)
  have m: "in_mem (unat (pc ?s)) 4"
    using s'(1) by (auto simp: iss_step_def bind_r_eq_Inr_iff load_eq_Inr_iff)
  obtain H0 where cr: "count_retired k ?c ?R = Inr H0"
    using count_retired_defined [OF assms(4), of ?c ?R] m by auto
  note c0 = count_retired_sel [OF cr]
  have R: "last_check ?R = 0" "incorrect ?R = incorrect H" "gpr (st_s ?R) = gpr s'"
    using w iss_step_execRiscv(2) [OF s'(1) calm_now [OF w(2)]]
    by (simp_all add: count_events_def retire_reg_one_def Let_def)
  then have "differing s' (st_s H0) = []" using c0 by (simp add: differing_Nil)
  then obtain H2 where ck: "check_one h g k ?c H0 = Inr (Go H2)"
    and H2: "st_ss H2 = s'" "gpr (st_s H2) = gpr s'" "last_check H2 = 0" "port H2 = port H" "cyc H2 = cyc H"
      "insns_retired H2 = insns_retired H + 1" "n_checks H2 = n_checks H + 1" "incorrect H2 = incorrect H"
      "last_retire H2 = 0"
    using c0 x R by (simp add: check_one_def Let_def)
  have wd: "watchdog k ?c H2 = Inr (Go (H2\<lparr>last_retire := 1\<rparr>))"
    using H2 by (simp add: watchdog_def Let_def iss_retire_def idle_out_def)
  let ?I = "count_inflight ?c (H2\<lparr>last_retire := 1\<rparr>)"
  have sm: "serve_memory k ?c ?I = Inr (?I\<lparr>port := (port ?I)\<lparr>mem_rsp_valid := False\<rparr>\<rparr>)"
    using w H2 assms(2)
    by (intro idle_memory) (simp_all add: idle_port_def iss_retire_def idle_out_def no_req_def)
  have "\<not> got_bad_addr ?c" by (simp add: iss_retire_def idle_out_def)
  then have "loop_body h g k ?c H = Inr (Go (?I\<lparr>port := (port ?I)\<lparr>mem_rsp_valid := False\<rparr>\<rparr>))"
    using cr ck wd sm assms(3)
    by (simp add: loop_body_def service_monitor_def retire_one_def retire_two_def)
  with e s' H2 w show ?thesis
    by (simp add: with_itself_def idle_port_def count_inflight_def Let_def)
qed

lemma iss_loop:
  assumes "with_itself g r H" and "enable_checker k" and "heartbeat k \<noteq> 0" and "insns_retired H = 0"
    and "n = min (unat (max_cycle k) - unat (cyc H)) (unat (max_icnt k))"
  shows "\<exists>r' H'. main_loop iss_core h g k start r H = Inr (r', None, H') \<and>
    iss_run n (st_ss H) = Inr (st_ss H') \<and> gpr (st_s H') = gpr (st_ss H') \<and>
    n_checks H' = n_checks H + of_nat n \<and> incorrect H' = incorrect H"
proof -
  define P where "P r1 H1 \<longleftrightarrow> with_itself g r1 H1 \<and> (\<exists>j \<le> n. iss_run j (st_ss H) = Inr (st_ss H1) \<and>
      unat (cyc H1) = unat (cyc H) + j \<and> unat (insns_retired H1) = j \<and>
      n_checks H1 = n_checks H + of_nat j) \<and> incorrect H1 = incorrect H" for r1 and H1 :: "'a harness"
  have "\<exists>r' H'. main_loop iss_core h g k start r H = Inr (r', None, H') \<and> P r' H' \<and>
    (gotFinish iss_core r' \<or> max_cycle k \<le> cyc H' \<or> max_icnt k \<le> insns_retired H')"
  proof (rule main_loop_goes_rule)
    show "P r H" using assms(1,4) by (auto simp: P_def intro!: exI [of _ 0])
    fix r1 H1
    assume "P r1 H1" and lt: "cyc H1 < max_cycle k" "insns_retired H1 < max_icnt k"
    then obtain j where w: "with_itself g r1 H1" and j: "iss_run j (st_ss H) = Inr (st_ss H1)"
      "unat (cyc H1) = unat (cyc H) + j" "unat (insns_retired H1) = j" "n_checks H1 = n_checks H + of_nat j"
      and i: "incorrect H1 = incorrect H"
      by (auto simp: P_def)
    have ne: "cyc H1 \<noteq> - 1" "insns_retired H1 \<noteq> - 1" using lt by auto
    obtain s' H2 where s': "iss_step (st_ss H1) = Inr s'" "st_ss H2 = s'"
      and go: "loop_body h g k (outs iss_core (eval iss_core (inputs True start H1) r1)) H1 = Inr (Go H2)"
      and w2: "with_itself g (eval iss_core (inputs True start H1) r1) H2"
      and H2: "cyc H2 = cyc H1" "insns_retired H2 = insns_retired H1 + 1" "n_checks H2 = n_checks H1 + 1"
        "incorrect H2 = incorrect H1"
      using iss_body [OF w ne(1) assms(2,3), of h start] by blast
    have "Suc j \<le> n" using lt j assms(5) by (simp add: word_less_nat_alt)
    moreover have "iss_run (Suc j) (st_ss H) = Inr s'" by (simp only: iss_run_snoc j(1) bind_r_Inr s'(1))
    moreover have "with_itself g (eval iss_core (inputs False start H2) (eval iss_core (inputs True start H1) r1)) (loop_tail H2)"
      using w2 by (simp add: with_itself_def iss_core_def iss_eval_def inputs_def loop_tail_def idle_port_def Let_def)
    ultimately have "P (eval iss_core (inputs False start H2) (eval iss_core (inputs True start H1) r1)) (loop_tail H2)"
      using s' H2 j i unat_plus_1 [OF ne(1)] unat_plus_1 [OF ne(2)]
      by (auto simp: P_def algebra_simps simp del: iss_run.simps intro!: exI [of _ "Suc j"])
    with go show "\<exists>H'. loop_body h g k (outs iss_core (eval iss_core (inputs True start H1) r1)) H1 = Inr (Go H') \<and>
        P (eval iss_core (inputs False start H') (eval iss_core (inputs True start H1) r1)) (loop_tail H')"
      by blast
  qed
  then obtain r' H' j where run: "main_loop iss_core h g k start r H = Inr (r', None, H')"
    and w: "with_itself g r' H'" and j: "j \<le> n" "iss_run j (st_ss H) = Inr (st_ss H')"
      "unat (cyc H') = unat (cyc H) + j" "unat (insns_retired H') = j" "n_checks H' = n_checks H + of_nat j"
      "incorrect H' = incorrect H"
    and ends: "max_cycle k \<le> cyc H' \<or> max_icnt k \<le> insns_retired H'"
    by (auto simp: P_def iss_core_def)
  from ends j have "n \<le> j" by (auto simp: assms(5) word_le_nat_alt)
  with j(1) have "j = n" by simp
  with run w j show ?thesis by (auto simp: with_itself_def)
qed

section \<open>An endless guest\<close>

text \<open>At 0, \<open>addi x1, x1, 1\<close>; at 4, a jump back to it.\<close>

definition spin :: state_t where
  "spin = initState\<lparr>mem := write_bytes (write_bytes mmap4G 0
     (le_bytes 4 (encode (AluImm ADDI 1 1 1)))) 4 (le_bytes 4 (encode (Jal 0 (- 2))))\<rparr>"

lemma spin_pc: "pc spin = 0"
  by (simp add: spin_def initState_def)

lemma spin_mem:
  "mem_r32 (mem spin) 0 = Inr (encode (AluImm ADDI 1 1 1))"
  "mem_r32 (mem spin) 4 = Inr (encode (Jal 0 (- 2)))"
  "mem_r64 (mem spin) 0x8000 = Inr 0"
  by (simp_all add: spin_def load_write_same load_write_disjoint in_mem_val mmap4G_def load_zeros
      del: encode.simps)

definition spinning :: "state_t \<Rightarrow> bool" where
  "spinning s \<longleftrightarrow> mem s = mem spin \<and> (pc s = 0 \<or> pc s = 4)"

lemma spinning_step:
  assumes "spinning s"
  shows "\<exists>s'. iss_step s = Inr s' \<and> spinning s'"
  using assms
  by (auto simp: spinning_def iss_step_def spin_mem exec_alui exec_jal wr_def next_pc_def set_gpr_def
      simp del: encode.simps)

lemma spinning_run: "spinning s \<Longrightarrow> \<exists>s'. iss_run n s = Inr s' \<and> spinning s'"
proof (induction n arbitrary: s)
  case (Suc n)
  from spinning_step [OF Suc.prems] obtain s1 where "iss_step s = Inr s1" "spinning s1" by blast
  with Suc.IH [of s1] show ?case by simp
qed simp

lemma spin_calm: "calm example_globals spin"
proof -
  have "spinning spin" by (simp add: spinning_def spin_pc)
  moreover have "tohost_word example_globals s = Inr 0" if "spinning s" for s
    using that by (simp add: spinning_def tohost_word_def example_globals_sel spin_mem)
  ultimately have "\<exists>s'. iss_run n spin = Inr s' \<and> tohost_word example_globals s' = Inr 0" for n
    using spinning_run [of spin n] by blast
  then show ?thesis by (rule calmI)
qed

definition spin_start :: "(u32 \<times> u8 list) list harness" where
  "spin_start = harness_init [] spin spin 0 False"

lemma spin_start_sel:
  "st_ss spin_start = spin" "gpr (st_s spin_start) = gpr spin" "last_check spin_start = 0"
  "insns_retired spin_start = 0" "cyc spin_start = 0" "port spin_start = mem_port_init"
  "n_checks spin_start = 0" "\<not> incorrect spin_start"
  by (simp_all add: spin_start_def harness_init_def)

section \<open>Properties\<close>



text \<open>
  C12. The simulator against itself. If the core is the simulator itself, on a guest that
  neither fails nor asks for the host, the loop runs to its limits: it ends with no message
  after the smaller of the remaining cycles and the instruction limit, the simulator's state
  is that of as many steps of the simulator alone, the registers agree, every instruction has
  been counted as checked and the run is not marked incorrect.
\<close>

theorem simulator_against_itself:
  assumes "iss_state r = st_ss H" and "calm g (st_ss H)" and "gpr (st_s H) = gpr (st_ss H)"
    and "last_check H = 0" and "mem_reply_cycle (port H) = - 1" and "insns_retired H = 0"
    and "enable_checker k" and "heartbeat k \<noteq> 0"
    and "n = min (unat (max_cycle k) - unat (cyc H)) (unat (max_icnt k))"
  shows "\<exists>r' H'. main_loop iss_core h g k start r H = Inr (r', None, H') \<and>
    iss_run n (st_ss H) = Inr (st_ss H') \<and> gpr (st_s H') = gpr (st_ss H') \<and>
    n_checks H' = n_checks H + of_nat n \<and> incorrect H' = incorrect H"
  using assms by (intro iss_loop) (simp_all add: with_itself_def idle_port_def)

theorem simulator_against_itself_witness:
  "\<exists>r' H'. main_loop iss_core echo_host example_globals demo_config 0
      \<lparr>iss_state = spin, iss_out = idle_out\<rparr> spin_start = Inr (r', None, H') \<and>
    iss_run 1000 spin = Inr (st_ss H') \<and> gpr (st_s H') = gpr (st_ss H') \<and> n_checks H' = 1000 \<and>
    \<not> incorrect H'"
proof -
  have m: "max_cycle demo_config = 100000" "max_icnt demo_config = 1000" by (simp_all add: demo_config_def)
  have "n = 1000 \<Longrightarrow> n = min (unat (max_cycle demo_config) - unat (cyc spin_start)) (unat (max_icnt demo_config))" for n
    by (simp add: m spin_start_sel)
  from simulator_against_itself [OF _ _ _ _ _ _ _ _ this, of "\<lparr>iss_state = spin, iss_out = idle_out\<rparr>"
      example_globals 1000 echo_host 0]
  show ?thesis
    by (simp add: spin_start_sel spin_calm demo_config_sel mem_port_init_def del: iss_run.simps)
qed

end
