(* ===== verification/Retired_Stream.thy ===== *)
theory Retired_Stream
  imports Reference_Core
begin

text \<open>
  The checker's guarantee for a whole run: the instructions the core retires are those the
  simulator executes, in that order. A run is a sequence of iterations that go on
  (\<open>iterations\<close>, a step relation over the core and the loop's state), and an execution of the
  simulator a path of its steps (\<open>sim_path\<close>).
\<close>

section \<open>Iterations and paths\<close>

inductive iterations ::
    "'r rtl \<Rightarrow> 'w host \<Rightarrow> globals \<Rightarrow> config \<Rightarrow> u32 \<Rightarrow> 'r \<Rightarrow> 'w harness \<Rightarrow> core_out list \<Rightarrow> 'r \<Rightarrow> 'w harness \<Rightarrow> bool"
  for v h g k start r H where
  none: "iterations v h g k start r H [] r H"
| more: "iterations v h g k start r H cs r1 H1 \<Longrightarrow>
    \<not> gotFinish v r1 \<Longrightarrow> cyc H1 < max_cycle k \<Longrightarrow> insns_retired H1 < max_icnt k \<Longrightarrow>
    c = outs v (eval v (inputs True start H1) r1) \<Longrightarrow> loop_body h g k c H1 = Inr (Go H2) \<Longrightarrow>
    iterations v h g k start r H (cs @ [c]) (eval v (inputs False start H2) (eval v (inputs True start H1) r1)) (loop_tail H2)"

text \<open>The host may have been called by others between two steps.\<close>

inductive sim_path :: "'w host \<Rightarrow> globals \<Rightarrow> state_t \<Rightarrow> u32 list \<Rightarrow> state_t \<Rightarrow> bool"
  for h g s where
  start: "sim_path h g s [] s"
| step: "sim_path h g s ps s1 \<Longrightarrow> execRiscv h g w s1 = Inr (w', s2) \<Longrightarrow> sim_path h g s (ps @ [pc s1]) s2"

inductive_simps sim_path_Nil [simp]: "sim_path h g s [] s'"

lemma sim_path_icnt: "sim_path h g s ps s' \<Longrightarrow> icnt s' = icnt s + of_nat (length ps)"
  by (induction rule: sim_path.induct) (simp_all add: execRiscv_icnt)

lemma iterations_Cons:
  assumes "\<not> gotFinish v r" "cyc H < max_cycle k" "insns_retired H < max_icnt k"
    and "c = outs v (eval v (inputs True start H) r)" and "loop_body h g k c H = Inr (Go H1)"
    and "iterations v h g k start (eval v (inputs False start H1) (eval v (inputs True start H) r)) (loop_tail H1) cs r' H'"
  shows "iterations v h g k start r H (c # cs) r' H'"
  using assms(6)
proof (induction rule: iterations.induct)
  case none
  show ?case using iterations.more [OF iterations.none assms(1-5)] by simp
next
  case (more cs r1 H1 c1 H2)
  from iterations.more [OF more.IH more.hyps(2-6)] show ?case by simp
qed

text \<open>The loop is these iterations, until its conditions fail or an iteration stops.\<close>

lemma main_loop_iterations:
  assumes "main_loop v h g k start r H = Inr (r', why, H')"
  shows "\<exists>cs r1 H1. iterations v h g k start r H cs r1 H1 \<and>
    (case why of None \<Rightarrow> r' = r1 \<and> H' = H1
     | Some w \<Rightarrow> r' = eval v (inputs True start H1) r1 \<and> loop_body h g k (outs v r') H1 = Inr (Stop w H'))"
  using assms
proof (induction v h g k start r H rule: main_loop.induct)
  case (1 v h g k start r H)
  let ?r1 = "eval v (inputs True start H) r"
  note m = "1.prems" [unfolded main_loop.simps [of v h g k start r H]]
  show ?case
  proof (cases "\<not> gotFinish v r \<and> cyc H < max_cycle k \<and> insns_retired H < max_icnt k")
    case False
    with m have "r' = r" "why = None" "H' = H" by (auto split: if_splits)
    then show ?thesis using iterations.none by fastforce
  next
    case True
    with m obtain out where b: "loop_body h g k (outs v ?r1) H = Inr out" by (auto simp: Let_def split: sum.splits)
    show ?thesis
    proof (cases out)
      case (Stop w1 H1)
      with True b m have "r' = ?r1" "why = Some w1" "H' = H1" by simp_all
      then show ?thesis using iterations.none b Stop by fastforce
    next
      case (Go H1)
      with True b m have "main_loop v h g k start (eval v (inputs False start H1) ?r1) (loop_tail H1) = Inr (r', why, H')"
        by simp
      from "1.IH" [OF True refl b Go this] obtain cs r2 H2 where
        "iterations v h g k start (eval v (inputs False start H1) ?r1) (loop_tail H1) cs r2 H2"
        and e: "case why of None \<Rightarrow> r' = r2 \<and> H' = H2
          | Some w \<Rightarrow> r' = eval v (inputs True start H2) r2 \<and> loop_body h g k (outs v r') H2 = Inr (Stop w H')"
        by blast
      with True b Go have "iterations v h g k start r H (outs v ?r1 # cs) r2 H2"
        by (intro iterations_Cons) simp_all
      with e show ?thesis by blast
    qed
  qed
qed

section \<open>What one iteration executes\<close>

definition first_port :: "core_out \<Rightarrow> u32 list" where
  "first_port c = (if retire_valid c then [retire_pc c] else [])"

definition second_port :: "core_out \<Rightarrow> u32 list" where
  "second_port c = (if retire_two_valid c then [retire_two_pc c] else [])"

lemma sim_path_append:
  assumes "sim_path h g s1 qs s2"
  shows "sim_path h g s ps s1 \<Longrightarrow> sim_path h g s (ps @ qs) s2"
  using assms
proof (induction rule: sim_path.induct)
  case (step qs s1 w w' s2)
  then show ?case using sim_path.step [of h g s "ps @ qs" s1 w w' s2] by simp
qed simp

lemma sim_path_one: "execRiscv h g w s = Inr (w', s') \<Longrightarrow> sim_path h g s [pc s] s'"
  using sim_path.step [OF sim_path.start] by fastforce

lemma iteration_path:
  assumes "loop_body h g k c H = Inr (Go H')" and "enable_checker k" and "last_check H = 0"
  shows "last_check H' = 0 \<and> (\<exists>ps \<in> {first_port c, first_port c @ second_port c}. sim_path h g (st_ss H) ps (st_ss H'))"
proof -
  obtain H1 H2 H3 H4 where 1: "service_monitor h g c H = Inr (Go H1)"
    and 2: "retire_one h g k c (count_events c (retire_reg_one c H1)) = Inr (Go H2)"
    and 3: "retire_two h g k c H2 = Inr (Go H3)" and 4: "watchdog k c H3 = Inr (Go H4)"
    and 5: "serve_memory k c (count_inflight c H4) = Inr H'"
    using loop_body_Go [OF assms(1)] by blast
  let ?R = "count_events c (retire_reg_one c H1)"
  note m = service_monitor_Go [OF 1]
  have l: "last_check ?R = 0" using m assms(3) by (simp add: count_events_def retire_reg_one_def Let_def)
  have p1: "last_check H2 = 0 \<and> sim_path h g (st_ss H) (first_port c) (st_ss H2)"
  proof (cases "retire_valid c")
    case True
    obtain H0 where cr: "count_retired k c ?R = Inr H0" and ck: "check_one h g k c H0 = Inr (Go H2)"
      using retire_one_Go [OF 2 True assms(2)] by blast
    have "last_check H0 = 0" using count_retired_sel [OF cr] l by simp
    note c1 = check_one_Go [OF ck this]
    have "st_ss H0 = st_ss H" using count_retired_sel [OF cr] m by simp
    with c1 True show ?thesis by (simp add: first_port_def) (metis sim_path_one)
  next
    case False
    with 2 have "H2 = ?R" by (simp add: retire_one_def)
    with False l m show ?thesis by (simp add: first_port_def sim_path.start)
  qed
  note t = retire_two_Go [OF 3 assms(2)]
  have p2: "sim_path h g (st_ss H2) [] (st_ss H3) \<or> sim_path h g (st_ss H2) (second_port c) (st_ss H3)"
  proof (cases "retire_two_valid c \<and> retire_two_pc c = pc (st_ss H2)")
    case True
    with t(1) show ?thesis by (auto simp: second_port_def dest: sim_path_one)
  next
    case False
    with t(1) show ?thesis by (auto simp: sim_path.start)
  qed
  have "sim_path h g (st_ss H) (first_port c) (st_ss H3) \<or>
      sim_path h g (st_ss H) (first_port c @ second_port c) (st_ss H3)"
    using p1 p2 by (metis sim_path_append append_Nil2)
  then show ?thesis using p1 t(2) late_blocks_Go [OF 4 5] by auto
qed

section \<open>The stream\<close>

text \<open>
  C8. The retired stream. At every point of a run with the checker on, the simulator has
  executed every instruction the core has retired on the first port, and nothing but what the
  core has retired: the program counters of its path from the start are, iteration by
  iteration, that of the first port, followed or not by that of the second (which the loop
  passes over when it is not the next one). It has counted them.
\<close>

theorem retired_stream:
  assumes "iterations v h g k start r H cs r' H'" and "enable_checker k" and "last_check H = 0"
  shows "\<exists>pss. sim_path h g (st_ss H) (concat pss) (st_ss H') \<and>
    icnt (st_ss H') = icnt (st_ss H) + of_nat (length (concat pss)) \<and>
    list_all2 (\<lambda>c ps. ps = first_port c \<or> ps = first_port c @ second_port c) cs pss"
proof -
  have "last_check H' = 0 \<and> (\<exists>pss. sim_path h g (st_ss H) (concat pss) (st_ss H') \<and>
    list_all2 (\<lambda>c ps. ps = first_port c \<or> ps = first_port c @ second_port c) cs pss)"
    using assms(1)
  proof (induction rule: iterations.induct)
    case none
    have "sim_path h g (st_ss H) (concat []) (st_ss H)" by (simp add: sim_path.start)
    then show ?case using assms(3) by (intro conjI exI [of _ "[]"]) simp_all
  next
    case (more cs r1 H1 c H2)
    then obtain pss where pss: "sim_path h g (st_ss H) (concat pss) (st_ss H1)"
      "list_all2 (\<lambda>c ps. ps = first_port c \<or> ps = first_port c @ second_port c) cs pss"
      and l: "last_check H1 = 0" by blast
    from iteration_path [OF more.hyps(6) assms(2) l] obtain ps where
      "last_check H2 = 0" "ps = first_port c \<or> ps = first_port c @ second_port c"
      "sim_path h g (st_ss H1) ps (st_ss H2)" by blast
    with pss sim_path_append [OF this(3) pss(1)] show ?case
      by (intro conjI exI [of _ "pss @ [ps]"]) (simp_all add: loop_tail_def Let_def list_all2_appendI)
  qed
  then show ?thesis using sim_path_icnt by blast
qed

text \<open>One iteration of the simulator against itself.\<close>

theorem retired_stream_witness:
  "\<exists>cs r' H'. iterations iss_core echo_host example_globals demo_config 0 \<lparr>iss_state = spin, iss_out = idle_out\<rparr>
      spin_start cs r' H' \<and> length cs = 1 \<and>
    (\<exists>pss. sim_path echo_host example_globals spin (concat pss) (st_ss H') \<and>
      icnt (st_ss H') = icnt spin + of_nat (length (concat pss)) \<and>
      list_all2 (\<lambda>c ps. ps = first_port c \<or> ps = first_port c @ second_port c) cs pss)"
proof -
  let ?r = "\<lparr>iss_state = spin, iss_out = idle_out\<rparr>"
  have "with_itself example_globals ?r spin_start"
    by (simp add: with_itself_def spin_start_sel spin_calm idle_port_def mem_port_init_def)
  then obtain H2 where "loop_body echo_host example_globals demo_config
      (outs iss_core (eval iss_core (inputs True 0 spin_start) ?r)) spin_start = Inr (Go H2)"
    using iss_body [of example_globals ?r spin_start demo_config echo_host 0]
    by (auto simp: spin_start_sel demo_config_sel)
  from iterations.more [OF iterations.none _ _ _ refl this] obtain c r' H' where
    it: "iterations iss_core echo_host example_globals demo_config 0 ?r spin_start [c] r' H'"
    by (force simp: iss_core_def spin_start_sel demo_config_def)
  from retired_stream [OF it demo_config_sel(1)] it show ?thesis
    by (intro exI [of _ "[c]"] exI [of _ r'] exI [of _ H']) (simp add: spin_start_sel)
qed

end
