(* ===== verification/Sparse_Mem.thy ===== *)
theory Sparse_Mem
  imports Memory Text_Format
begin

text \<open>
  \<open>sparse_mem.hh: sparse_mem\<close>, a class over one block of 4 GiB that no program uses: typed
  accesses guarded by an assertion on the address, a byte-wise comparison, and transfers
  between the block and a file descriptor. Its constructor, its destructor and \<open>clear\<close> are
  declared and nowhere defined, so an object is modelled by the contents of its block.
\<close>

unbundle bit_operations_syntax

type_synonym sparse_mem = mem

definition pgsize :: u64 where "pgsize = 4096"

definition sparse_sz :: u64 where "sparse_sz = 2 ^ 32"

definition bytes_allocated :: "sparse_mem \<Rightarrow> u64" where
  "bytes_allocated m = sparse_sz"

text \<open>\<open>operator[]\<close>, \<open>operator+\<close> and \<open>get_raw_ptr\<close>: offsets into the block, the last one cut.\<close>

definition sparse_ptr :: "u64 \<Rightarrow> nat" where
  "sparse_ptr addr = unat addr"

definition get_raw_ptr :: "u64 \<Rightarrow> nat" where
  "get_raw_ptr byte_addr = unat (byte_addr AND (2 ^ 32 - 1))"

text \<open>The address is asserted to be in the block, not the last byte of the access.\<close>

definition sparse_get :: "nat \<Rightarrow> sparse_mem \<Rightarrow> u64 \<Rightarrow> failure + 'a::len word" where
  "sparse_get n m byte_addr =
     bind_r (assert_r (byte_addr < 2 ^ 32)) (\<lambda>_. load n m (unat byte_addr))"

definition sparse_set :: "nat \<Rightarrow> sparse_mem \<Rightarrow> u64 \<Rightarrow> 'a::len word \<Rightarrow> failure + sparse_mem" where
  "sparse_set n m byte_addr v =
     bind_r (assert_r (byte_addr < 2 ^ 32)) (\<lambda>_. store n m (unat byte_addr) v)"

text \<open>\<open>prefault\<close> and \<open>coalesce\<close> have empty bodies.\<close>

definition prefault :: "u64 \<Rightarrow> u64 \<Rightarrow> sparse_mem \<Rightarrow> sparse_mem" where
  "prefault addr alloc_size m = m"

definition coalesce :: "u64 \<Rightarrow> u64 \<Rightarrow> sparse_mem \<Rightarrow> sparse_mem" where
  "coalesce addr size1 m = m"

text \<open>\<open>compare\<close>, over \<open>n\<close> bytes from \<open>b\<close>: whether any differs, and what is printed.\<close>

definition differs_text :: "nat \<Rightarrow> u8 \<Rightarrow> u8 \<Rightarrow> string" where
  "differs_text b x y = ''byte '' @ hex b @ '' differs '' @ toStringHex x @ '' vs '' @ toStringHex y @ [CHR 0x0A]"

fun compare_from :: "bool \<Rightarrow> sparse_mem \<Rightarrow> sparse_mem \<Rightarrow> nat \<Rightarrow> nat \<Rightarrow> bool \<times> string" where
  "compare_from verbose m other b 0 = (False, '''')"
| "compare_from verbose m other b (Suc n) =
    (let (error, out) = compare_from verbose m other (Suc b) n in
     if m b \<noteq> other b
     then (True, (if verbose then differs_text b (m b) (other b) else '''') @ out)
     else (error, out))"

definition sparse_compare :: "bool \<Rightarrow> sparse_mem \<Rightarrow> sparse_mem \<Rightarrow> bool \<times> string" where
  "sparse_compare verbose m other = compare_from verbose m other 0 mem_size"

text \<open>
  \<open>per_page_rdwr\<close>: one system call from the given offset on. The host is a parameter; reading
  returns the bytes it puts at the offset, and a buffer outside the block is an access outside
  it. The result is cut to an \<open>int\<close>.
\<close>

definition page_write ::
    "('w \<Rightarrow> u32 \<Rightarrow> u8 list \<Rightarrow> 'w \<times> u64) \<Rightarrow> 'w \<Rightarrow> sparse_mem \<Rightarrow> u32 \<Rightarrow> u64 \<Rightarrow> u64 \<Rightarrow> failure + 'w \<times> u32" where
  "page_write os_write w m fd offset nbytes =
    (if in_mem (unat offset) (unat nbytes)
     then let (w1, rc) = os_write w fd (read_bytes m (unat offset) (unat nbytes)) in Inr (w1, ucast rc)
     else Inl (Bad_access (unat offset)))"

definition page_read ::
    "('w \<Rightarrow> u32 \<Rightarrow> u64 \<Rightarrow> 'w \<times> u64 \<times> u8 list) \<Rightarrow> 'w \<Rightarrow> sparse_mem \<Rightarrow> u32 \<Rightarrow> u64 \<Rightarrow> u64 \<Rightarrow>
     failure + 'w \<times> sparse_mem \<times> u32" where
  "page_read os_read w m fd offset nbytes =
    (let (w1, rc, data) = os_read w fd nbytes in
     if in_mem (unat offset) (length data)
     then Inr (w1, write_bytes m (unat offset) data, ucast rc)
     else Inl (Bad_access (unat offset)))"

section \<open>What the operations do\<close>

text \<open>What the comparison returns.\<close>

lemma compare_from_iff: "fst (compare_from verbose m other b n) \<longleftrightarrow> (\<exists>i<n. m (b + i) \<noteq> other (b + i))"
proof (induction n arbitrary: b)
  case (Suc n)
  from Suc.IH [of "Suc b"] show ?case
    by (cases "compare_from verbose m other (Suc b) n") (auto simp: Ex_less_Suc2 Let_def)
qed simp

lemma sparse_compare_iff:
  "fst (sparse_compare verbose m other) \<longleftrightarrow> (\<exists>b<mem_size. m b \<noteq> other b)"
  by (simp add: sparse_compare_def compare_from_iff)

text \<open>The accesses at addresses in the block but too close to its end.\<close>

lemma sparse_get_result:
  "sparse_get n m a = (if 2 ^ 32 \<le> a then Inl Assert_failed
     else if in_mem (unat a) n then Inr (le_word (read_bytes m (unat a) n)) else Inl (Bad_access (unat a)))"
  by (auto simp: sparse_get_def load_def not_less assert_r_def)

text \<open>A value set is got back, and what does not overlap it is unchanged.\<close>

lemma sparse_get_set:
  fixes v :: "'a::len word"
  assumes "sparse_set n m a v = Inr m'"
  shows "8 * n = LENGTH('a) \<Longrightarrow> sparse_get n m' a = Inr v"
    and "unat a + n \<le> unat b \<or> unat b + k \<le> unat a \<Longrightarrow> (sparse_get k m' b :: failure + 'b::len word) = sparse_get k m b"
proof -
  from assms have a: "a < 2 ^ 32" and st: "store n m (unat a) v = Inr m'"
    by (auto simp: sparse_set_def bind_r_eq_Inr_iff)
  show "8 * n = LENGTH('a) \<Longrightarrow> sparse_get n m' a = Inr v"
    using a ram.ld_st_same [OF st] by (simp add: sparse_get_def)
  show "(sparse_get k m' b :: failure + 'b word) = sparse_get k m b" if "unat a + n \<le> unat b \<or> unat b + k \<le> unat a"
    using that st by (auto simp: sparse_get_def store_eq_Inr_iff load_write_disjoint)
qed

end
