(* ===== verification/Hw_Arith.thy ===== *)
theory Hw_Arith
  imports Prelude
begin

text \<open>
  The combinational building blocks of the hardware core: the carry-save adder \<open>csa.sv\<close>, the
  parallel-prefix adders \<open>ppa32.sv\<close> and \<open>ppa64.sv\<close> with the generator \<open>gen_ppa.py\<close> their
  netlists come from, the ripple-carry adders of \<open>gen_rca.py\<close>, the funnel shifter
  \<open>shift_right.sv\<close>, and the recursive counters \<open>find_first_set.sv\<close>, \<open>count_leading_zeros.sv\<close>
  and \<open>popcount.sv\<close>.

  A bus is a word. \<open>machine.vh\<close> defines \<open>FPGA\<close>, so the sources take their short branches
  (\<open>A+B\<close>, \<open>>>\<close>); the adders and the shifter are modelled in both branches, and the two are
  proved equal.
\<close>

unbundle bit_operations_syntax

definition FPGA :: bool where
  "FPGA = True"

section \<open>The carry-save adder\<close>

definition csa :: "'a::len word \<Rightarrow> 'a word \<Rightarrow> 'a word \<Rightarrow> 'a word \<times> 'a word" where
  "csa a b cin = (let w_xor_ab = a XOR b in (w_xor_ab XOR cin, (a AND b) OR (cin AND w_xor_ab)))"

text \<open>\<open>{cout[N-2:0], 1'b0}\<close>, as every user of the carries shifts them.\<close>

definition carries :: "'a::len word \<Rightarrow> 'a word" where
  "carries cout = push_bit 1 cout"

lemma half_adder: "(a :: 'a::len word) + b = (a XOR b) + 2 * (a AND b)"
proof -
  have "a + b = (a AND b) + (a OR b)" by (rule word_plus_and_or [symmetric])
  also have "a OR b = (a XOR b) OR (a AND b)" by (rule bit_word_eqI) (auto simp: bit_simps)
  also have "\<dots> = (a XOR b) + (a AND b)"
    by (rule disjunctive_add [symmetric]) (auto simp: bit_simps)
  finally show ?thesis by simp
qed

theorem csa_sum:
  "csa a b cin = (s, cout) \<Longrightarrow> carries cout + s = a + b + cin"
proof -
  assume "csa a b cin = (s, cout)"
  then have s: "s = (a XOR b) XOR cin" and c: "cout = (a AND b) OR (cin AND (a XOR b))"
    by (simp_all add: csa_def Let_def)
  have "cout = (a AND b) + (cin AND (a XOR b))"
    unfolding c by (rule disjunctive_add [symmetric]) (auto simp: bit_simps)
  moreover have "(a XOR b) + cin = s + 2 * ((a XOR b) AND cin)"
    unfolding s by (rule half_adder)
  ultimately show "carries cout + s = a + b + cin"
    using half_adder [of a b] by (simp add: carries_def push_bit_eq_mult ac_simps algebra_simps)
qed

section \<open>Carries\<close>

text \<open>The carry into bit \<open>i\<close> of a sum, and the bits of the sum it gives.\<close>

fun carry_in :: "(nat \<Rightarrow> bool) \<Rightarrow> (nat \<Rightarrow> bool) \<Rightarrow> nat \<Rightarrow> bool" where
  "carry_in a b 0 = False"
| "carry_in a b (Suc i) = (a i \<and> b i \<or> (a i \<noteq> b i) \<and> carry_in a b i)"

lemma carry_in_take_bit: "carry_in (bit a) (bit b) i \<longleftrightarrow> 2 ^ i \<le> take_bit i a + take_bit i (b :: nat)"
proof (induction i)
  case (Suc i)
  have "take_bit i a < 2 ^ i" "take_bit i b < 2 ^ i" by simp_all
  then have "take_bit i a + take_bit i b < 2 * 2 ^ i" by linarith
  with Suc show ?case by (auto simp: take_bit_Suc_from_most)
qed simp

lemma bit_add_nat: "bit (a + b :: nat) i \<longleftrightarrow> (bit a i \<noteq> bit b i) \<noteq> carry_in (bit a) (bit b) i"
proof -
  let ?s = "take_bit i a + take_bit i b"
  have "take_bit i a < 2 ^ i" "take_bit i b < 2 ^ i" by simp_all
  then have lt: "?s < 2 ^ i + 2 ^ i" by linarith
  have "a + b = 2 ^ i * (drop_bit i a + drop_bit i b) + ?s"
    using bits_ident [of i a] bits_ident [of i b] by (simp add: push_bit_eq_mult ac_simps distrib_left)
  then have "(a + b) div 2 ^ i = drop_bit i a + drop_bit i b + ?s div 2 ^ i" by simp
  moreover have "?s div 2 ^ i = of_bool (carry_in (bit a) (bit b) i)"
    using lt by (auto simp: carry_in_take_bit intro!: div_nat_eqI)
  ultimately have "bit (a + b) i \<longleftrightarrow> odd (drop_bit i a + drop_bit i b + of_bool (carry_in (bit a) (bit b) i))"
    by (simp add: bit_iff_odd)
  then show ?thesis by (auto simp: bit_iff_odd_drop_bit)
qed

lemma unsigned_bits: "bit (unat w) = bit (w :: 'a::len word)"
  by (rule ext) (simp add: bit_unsigned_iff)

lemma bit_add_word:
  "bit (a + b :: 'a::len word) i \<longleftrightarrow> i < LENGTH('a) \<and> ((bit a i \<noteq> bit b i) \<noteq> carry_in (bit a) (bit b) i)"
proof -
  have "bit (a + b) i \<longleftrightarrow> bit (take_bit LENGTH('a) (unat a + unat b)) i"
    by (simp add: unat_word_ariths(1) flip: take_bit_eq_mod unsigned_bits)
  then show ?thesis by (simp add: bit_take_bit_iff bit_add_nat unsigned_bits)
qed

section \<open>The parallel-prefix adder\<close>

text \<open>
  A wire pair \<open>(pp, gg)\<close> says whether a range of bits propagates a carry and whether it
  generates one. \<open>gen_ppa.py\<close> writes \<open>lg_bits\<close> levels of an operator on such pairs; at level
  \<open>l\<close> each bit takes in the pair \<open>2 ^ l\<close> places below, if there is one. The netlists in
  \<open>ppa32.sv\<close> and \<open>ppa64.sv\<close> are what it writes for 5 and 6.
\<close>

type_synonym pg = "bool \<times> bool"

definition pg_join :: "pg \<Rightarrow> pg \<Rightarrow> pg" where
  "pg_join hi lo = (fst hi \<and> fst lo, (snd lo \<and> fst hi) \<or> snd hi)"

definition first_level :: "nat \<Rightarrow> 'a::len word \<Rightarrow> 'a word \<Rightarrow> pg list" where
  "first_level n A B = map (\<lambda>i. (bit A i \<noteq> bit B i, bit A i \<and> bit B i)) [0..<n]"

definition prefix_level :: "nat \<Rightarrow> pg list \<Rightarrow> pg list" where
  "prefix_level d xs = map (\<lambda>i. if d \<le> i then pg_join (xs ! i) (xs ! (i - d)) else xs ! i) [0..<length xs]"

fun prefix_levels :: "nat \<Rightarrow> pg list \<Rightarrow> pg list" where
  "prefix_levels 0 xs = xs"
| "prefix_levels (Suc l) xs = prefix_level (2 ^ l) (prefix_levels l xs)"

definition sum_bits :: "pg list \<Rightarrow> pg list \<Rightarrow> bool list" where
  "sum_bits p g = map (\<lambda>i. if i = 0 then fst (p ! 0) else fst (p ! i) \<noteq> snd (g ! (i - 1))) [0..<length p]"

definition ppa_network :: "nat \<Rightarrow> 'a::len word \<Rightarrow> 'a word \<Rightarrow> bool list" where
  "ppa_network lg_bits A B =
    (let p = first_level (2 ^ lg_bits) A B in sum_bits p (prefix_levels lg_bits p))"

text \<open>The output bus.\<close>

definition bus :: "bool list \<Rightarrow> 'a::len word" where
  "bus bs = horner_sum of_bool 2 bs"

definition ppa32 :: "bool \<Rightarrow> u32 \<Rightarrow> u32 \<Rightarrow> u32" where
  "ppa32 fpga A B = (if fpga then A + B else bus (ppa_network 5 A B))"

definition ppa64 :: "bool \<Rightarrow> u64 \<Rightarrow> u64 \<Rightarrow> u64" where
  "ppa64 fpga A B = (if fpga then A + B else bus (ppa_network 6 A B))"

lemma bit_bus: "bit (bus bs :: 'a::len word) i \<longleftrightarrow> i < LENGTH('a) \<and> i < length bs \<and> bs ! i"
  by (simp add: bus_def bit_horner_sum_bit_word_iff)

text \<open>The pair of a range, from its lowest bit up.\<close>

fun pg_range :: "(nat \<Rightarrow> pg) \<Rightarrow> nat \<Rightarrow> nat \<Rightarrow> pg" where
  "pg_range f lo 0 = f lo"
| "pg_range f lo (Suc n) = pg_join (f (lo + Suc n)) (pg_range f lo n)"

lemma pg_join_assoc: "pg_join (pg_join a b) c = pg_join a (pg_join b c)"
  by (auto simp: pg_join_def)

lemma pg_range_join: "pg_join (pg_range f (lo + Suc m) n) (pg_range f lo m) = pg_range f lo (Suc (m + n))"
  by (induction n) (simp_all add: pg_join_assoc ac_simps)

lemma length_prefix_levels [simp]: "length (prefix_levels l xs) = length xs"
  by (induction l) (simp_all add: prefix_level_def)

text \<open>After \<open>l\<close> levels a wire pair covers the \<open>2 ^ l\<close> bits up to its own, or all there are.\<close>

lemma prefix_levels_range:
  "i < length xs \<Longrightarrow> prefix_levels l xs ! i =
    (if i < 2 ^ l then pg_range (\<lambda>j. xs ! j) 0 i else pg_range (\<lambda>j. xs ! j) (i + 1 - 2 ^ l) (2 ^ l - 1))"
proof (induction l arbitrary: i)
  case 0
  then show ?case by simp
next
  case (Suc l)
  let ?f = "\<lambda>j. xs ! j" and ?d = "(2 :: nat) ^ l"
  have d: "0 < ?d" by simp
  have step: "prefix_levels (Suc l) xs ! i =
      (if ?d \<le> i then pg_join (prefix_levels l xs ! i) (prefix_levels l xs ! (i - ?d)) else prefix_levels l xs ! i)"
    using Suc.prems by (simp add: prefix_level_def)
  consider "i < ?d" | "?d \<le> i" "i < 2 * ?d" | "2 * ?d \<le> i" by linarith
  then show ?case
  proof cases
    case 1
    then show ?thesis using Suc step by simp
  next
    case 2
    then have "prefix_levels (Suc l) xs ! i = pg_join (pg_range ?f (i + 1 - ?d) (?d - 1)) (pg_range ?f 0 (i - ?d))"
      using Suc step by simp
    also have "i + 1 - ?d = 0 + Suc (i - ?d)" using 2 by simp
    also have "pg_join (pg_range ?f (0 + Suc (i - ?d)) (?d - 1)) (pg_range ?f 0 (i - ?d)) =
        pg_range ?f 0 (Suc (i - ?d + (?d - 1)))" by (rule pg_range_join)
    also have "Suc (i - ?d + (?d - 1)) = i" using 2 d by simp
    finally show ?thesis using 2 by simp
  next
    case 3
    let ?lo = "i + 1 - 2 * ?d"
    have "prefix_levels (Suc l) xs ! i =
        pg_join (pg_range ?f (i + 1 - ?d) (?d - 1)) (pg_range ?f (i - ?d + 1 - ?d) (?d - 1))"
      using Suc step 3 d by simp
    also have "i + 1 - ?d = ?lo + Suc (?d - 1)" using 3 d by simp
    also have "i - ?d + 1 - ?d = ?lo" using 3 by simp
    also have "pg_join (pg_range ?f (?lo + Suc (?d - 1)) (?d - 1)) (pg_range ?f ?lo (?d - 1)) =
        pg_range ?f ?lo (Suc (?d - 1 + (?d - 1)))" by (rule pg_range_join)
    also have "Suc (?d - 1 + (?d - 1)) = 2 ^ Suc l - 1" using d by (cases ?d) simp_all
    finally show ?thesis using 3 by simp
  qed
qed

lemma pg_range_carry:
  "snd (pg_range (\<lambda>i. (a i \<noteq> b i, a i \<and> b i)) 0 n) = carry_in a b (Suc n)"
  by (induction n) (auto simp: pg_join_def)

lemma pg_range_cong: "(\<And>j. j \<le> lo + n \<Longrightarrow> f j = g j) \<Longrightarrow> pg_range f lo n = pg_range g lo n"
  by (induction n) simp_all

text \<open>
  The prefix adder adds, for every number of levels: its outputs are the low \<open>2 ^ lg\<close> bits
  of the sum.
\<close>

lemma ppa_network_adds:
  assumes "i < 2 ^ lg" and "2 ^ lg \<le> LENGTH('a)"
  shows "ppa_network lg (A :: 'a::len word) B ! i \<longleftrightarrow> bit (A + B) i"
proof (cases i)
  case 0
  then show ?thesis using assms by (simp add: ppa_network_def Let_def sum_bits_def first_level_def bit_add_word)
next
  case (Suc k)
  let ?n = "(2 :: nat) ^ lg"
  let ?p = "first_level ?n A B"
  have k: "k < ?n" "k < length ?p" using Suc assms by (simp_all add: first_level_def)
  have "prefix_levels lg ?p ! k = pg_range (\<lambda>j. ?p ! j) 0 k"
    using prefix_levels_range [OF k(2), of lg] k by simp
  also have "\<dots> = pg_range (\<lambda>j. (bit A j \<noteq> bit B j, bit A j \<and> bit B j)) 0 k"
    using k by (intro pg_range_cong) (simp add: first_level_def)
  finally have "snd (prefix_levels lg ?p ! k) = carry_in (bit A) (bit B) i"
    by (simp only: pg_range_carry Suc)
  then show ?thesis
    using Suc assms by (simp add: ppa_network_def Let_def sum_bits_def first_level_def bit_add_word)
qed

lemma ppa_adds: "2 ^ lg = LENGTH('a) \<Longrightarrow> bus (ppa_network lg A B) = (A + B :: 'a::len word)"
  by (rule bit_word_eqI) (simp add: bit_bus ppa_network_adds, simp add: ppa_network_def Let_def sum_bits_def first_level_def)

text \<open>Both branches of the adders are addition.\<close>

lemma ppa_sum [simp]: "ppa32 f A B = A + B" "ppa64 f C D = C + D"
  by (simp_all add: ppa32_def ppa64_def ppa_adds)

section \<open>The ripple-carry adder\<close>

text \<open>\<open>gen_rca.py\<close>: the carry wires \<open>wC\<close> one after the other.\<close>

fun rca_carry :: "'a::len word \<Rightarrow> 'a word \<Rightarrow> nat \<Rightarrow> bool" where
  "rca_carry A B 0 = (bit A 0 \<and> bit B 0)"
| "rca_carry A B (Suc i) =
     (bit A (Suc i) \<and> bit B (Suc i) \<or> rca_carry A B i \<and> (bit A (Suc i) \<noteq> bit B (Suc i)))"

definition rca_network :: "nat \<Rightarrow> 'a::len word \<Rightarrow> 'a word \<Rightarrow> bool list" where
  "rca_network bits A B = map (\<lambda>i. if i = 0 then bit A 0 \<noteq> bit B 0
     else (bit A i \<noteq> bit B i) \<noteq> rca_carry A B (i - 1)) [0..<bits]"

lemma rca_carry_in: "rca_carry A B i = carry_in (bit A) (bit B) (Suc i)"
  by (induction i) auto

lemma rca_adds: "bus (rca_network LENGTH('a) A B) = (A + B :: 'a::len word)"
proof (rule bit_word_eqI)
  fix i assume i: "i < LENGTH('a)"
  then show "bit (bus (rca_network LENGTH('a) A B) :: 'a word) i = bit (A + B) i"
    by (cases i) (simp_all add: bit_bus rca_network_def bit_add_word rca_carry_in)
qed

lemma ripple_is_prefix: "2 ^ lg = LENGTH('a) \<Longrightarrow>
    (bus (rca_network LENGTH('a) A B) :: 'a::len word) = bus (ppa_network lg A (B :: 'a word))"
  by (simp add: rca_adds ppa_adds)

section \<open>The funnel shifter\<close>

text \<open>
  \<open>shift_right.sv\<close> with \<open>LG_W = 5\<close>: both directions and both kinds of right shift are one
  right shift of a word of double width. The distance of a left shift is the complement of the
  distance asked for, one bit wider.
\<close>

definition funnel :: "bool \<Rightarrow> bool \<Rightarrow> u32 \<Rightarrow> u64" where
  "funnel is_left is_signed dat =
    (let w_sb = is_signed \<and> bit dat 31 in
     if is_left then push_bit 32 (ucast dat)
     else push_bit 32 (if w_sb then mask 32 else 0) OR ucast dat)"

definition funnel_distance :: "bool \<Rightarrow> u5 \<Rightarrow> 6 word" where
  "funnel_distance is_left distance =
    (let w_inv_dist = 32 - ucast distance in if is_left then w_inv_dist else ucast distance)"

definition shift_stage :: "6 word \<Rightarrow> u64 \<Rightarrow> nat \<Rightarrow> u64" where
  "shift_stage w_distance x i = (if bit w_distance i then drop_bit (2 ^ i) x else x)"

definition shift_right :: "bool \<Rightarrow> bool \<Rightarrow> bool \<Rightarrow> u32 \<Rightarrow> u5 \<Rightarrow> u32" where
  "shift_right fpga is_left is_signed dat distance =
    (let w_data = funnel is_left is_signed dat;
         w_distance = funnel_distance is_left distance
     in ucast (if fpga then drop_bit (unat w_distance) w_data
               else foldl (shift_stage w_distance) w_data [0..<6]))"

text \<open>The stages shift by the distance, bit by bit.\<close>

lemma shift_stages: "foldl (shift_stage w) x [0..<n] = drop_bit (take_bit n (unat w)) x"
proof (induction n)
  case (Suc n)
  then show ?case
    by (simp add: shift_stage_def take_bit_Suc_from_most unsigned_bits ac_simps)
qed simp

lemma shift_right_branches: "shift_right f l sg x d = shift_right True l sg x d"
proof -
  have "take_bit 6 (unat w) = unat w" for w :: "6 word"
    using unsigned_less [of w, where ?'a = nat] by (simp add: take_bit_nat_eq_self)
  then show ?thesis unfolding shift_right_def Let_def shift_stages by simp
qed

lemma unat_left_distance: "unat (funnel_distance True d) = 32 - unat d"
proof -
  have d: "unat d < 32" using unsigned_less [of d, where ?'a = nat] by simp
  then have "take_bit 6 (unat d) = unat d" by (intro take_bit_nat_eq_self) simp
  then have "unat (ucast d :: 6 word) = unat d" by (simp add: unsigned_ucast_eq)
  with d show ?thesis by (simp add: funnel_distance_def unat_sub_if' word_le_nat_alt)
qed

lemma unat_right_distance: "unat (funnel_distance False d) = unat d"
proof -
  have "unat d < 2 ^ 6" using unsigned_less [of d, where ?'a = nat] by simp
  then have "take_bit 6 (unat d) = unat d" by (rule take_bit_nat_eq_self)
  then show ?thesis by (simp add: funnel_distance_def unsigned_ucast_eq)
qed

text \<open>The three shifts of the instruction set.\<close>

lemma shift_right_spec:
  "shift_right f True sg x d = push_bit (unat d) x"
  "shift_right f False False x d = drop_bit (unat d) x"
  "shift_right f False True x d = signed_drop_bit (unat d) x"
proof -
  have d: "unat d < 32" using unsigned_less [of d, where ?'a = nat] by simp
  show "shift_right f True sg x d = push_bit (unat d) x"
    using d unfolding shift_right_branches [of f]
    by (intro bit_word_eqI) (auto simp: shift_right_def funnel_def Let_def unat_left_distance bit_simps
        dest: bit_imp_le_length)
  show "shift_right f False False x d = drop_bit (unat d) x"
    using d unfolding shift_right_branches [of f]
    by (intro bit_word_eqI) (auto simp: shift_right_def funnel_def Let_def unat_right_distance bit_simps
        dest: bit_imp_le_length)
  show "shift_right f False True x d = signed_drop_bit (unat d) x"
    using d unfolding shift_right_branches [of f]
    by (intro bit_word_eqI) (auto simp: shift_right_def funnel_def Let_def unat_right_distance bit_simps
        dest: bit_imp_le_length)
qed

section \<open>Counters\<close>

text \<open>
  \<open>find_first_set\<close>, \<open>count_leading_zeros\<close> and \<open>popcount\<close> are recursive modules: for
  \<open>LG_N = 2\<close> a table, for larger \<open>LG_N\<close> two instances of half the size. Here the first
  argument is \<open>LG_N - 2\<close>, the input a number below \<open>2 ^ 2 ^ LG_N\<close>, and the output bus, of
  \<open>LG_N + 1\<close> bits, a number.
\<close>

definition lo_half :: "nat \<Rightarrow> nat \<Rightarrow> nat" where
  "lo_half k x = take_bit (2 ^ (k + 2)) x"

definition hi_half :: "nat \<Rightarrow> nat \<Rightarrow> nat" where
  "hi_half k x = drop_bit (2 ^ (k + 2)) x"

fun find_first_set_hw :: "nat \<Rightarrow> nat \<Rightarrow> nat" where
  "find_first_set_hw 0 x = (if x = 1 then 0 else if x div 2 = 1 then 1 else if x div 4 = 1 then 2
     else if x div 8 = 1 then 3 else 7)"
| "find_first_set_hw (Suc k) x =
    (let lo_z = lo_half k x = 0; hi_z = hi_half k x = 0;
         t0 = find_first_set_hw k (lo_half k x); t1 = find_first_set_hw k (hi_half k x)
     in if lo_z \<and> hi_z then 2 ^ (k + 3)
        else if \<not> hi_z then (2 ^ (k + 2) + t1) mod 2 ^ (k + 4)
        else t0)"

fun count_leading_zeros :: "nat \<Rightarrow> nat \<Rightarrow> nat" where
  "count_leading_zeros 0 x = (if x = 0 then 4 else if x = 1 then 3 else if x div 2 = 1 then 2
     else if x div 4 = 1 then 1 else 0)"
| "count_leading_zeros (Suc k) x =
    (let hi_z = hi_half k x = 0;
         t0 = count_leading_zeros k (lo_half k x); t1 = count_leading_zeros k (hi_half k x)
     in if hi_z then (2 ^ (k + 2) + t0) mod 2 ^ (k + 4) else t1)"

fun popcount_hw :: "nat \<Rightarrow> nat \<Rightarrow> nat" where
  "popcount_hw 0 x = [0, 1, 1, 2, 1, 2, 2, 3, 1, 2, 2, 3, 2, 3, 3, 4] ! x"
| "popcount_hw (Suc k) x =
    (popcount_hw k (lo_half k x) + popcount_hw k (hi_half k x)) mod 2 ^ (k + 4)"

lemma halves: "x = 2 ^ 2 ^ (k + 2) * hi_half k x + lo_half k x"
  using bits_ident [of "2 ^ (k + 2)" x]
  by (simp add: lo_half_def hi_half_def push_bit_eq_mult ac_simps del: power_add power_Suc)

lemma half_bounds:
  assumes "x < 2 ^ 2 ^ (Suc k + 2)"
  shows "lo_half k x < 2 ^ 2 ^ (k + 2)" "hi_half k x < 2 ^ 2 ^ (k + 2)"
proof -
  show "lo_half k x < 2 ^ 2 ^ (k + 2)" by (simp only: lo_half_def take_bit_nat_less_exp)
  have "(2 :: nat) ^ 2 ^ (Suc k + 2) = 2 ^ 2 ^ (k + 2) * 2 ^ 2 ^ (k + 2)"
    by (simp only: power_add [symmetric] add_Suc power_Suc mult_2)
  with assms show "hi_half k x < 2 ^ 2 ^ (k + 2)"
    by (simp only: hi_half_def drop_bit_eq_div less_mult_imp_div_less)
qed

text \<open>The index of the highest set bit.\<close>

definition top_bit :: "nat \<Rightarrow> nat \<Rightarrow> bool" where
  "top_bit x i \<longleftrightarrow> 2 ^ i \<le> x \<and> x < 2 ^ (i + 1)"

lemma top_bit_lo: "hi_half k x = 0 \<Longrightarrow> top_bit (lo_half k x) i \<longleftrightarrow> top_bit x i"
  using halves [of x k] by simp

lemma top_bit_hi:
  assumes "top_bit (hi_half k x) i"
  shows "top_bit x (2 ^ (k + 2) + i)"
proof -
  let ?n = "2 ^ (k + 2) :: nat"
  from assms have h: "2 ^ i \<le> hi_half k x" "hi_half k x + 1 \<le> 2 ^ (i + 1)" by (simp_all add: top_bit_def)
  have l: "lo_half k x < 2 ^ ?n" by (simp only: lo_half_def take_bit_nat_less_exp)
  from mult_le_mono2 [OF h(1), of "2 ^ ?n"] have "2 ^ (?n + i) \<le> x"
    using halves [of x k] by (simp only: power_add)
  moreover from mult_le_mono2 [OF h(2), of "2 ^ ?n"] l have "x < 2 ^ (?n + i + 1)"
    using halves [of x k] by (simp only: power_add distrib_left mult_1_right add.assoc)
  ultimately show ?thesis by (simp only: top_bit_def)
qed

lemma below_16: "x < 16 \<Longrightarrow> list_all P [0..<16] \<Longrightarrow> P (x :: nat)"
  by (simp add: list_all_iff)

theorem find_first_set_hw_spec:
  "x < 2 ^ 2 ^ (k + 2) \<Longrightarrow> x \<noteq> 0 \<Longrightarrow>
     top_bit x (find_first_set_hw k x) \<and> find_first_set_hw k x < 2 ^ (k + 2)"
proof (induction k arbitrary: x)
  case 0
  have "list_all (\<lambda>x. x \<noteq> 0 \<longrightarrow> top_bit x (find_first_set_hw 0 x) \<and> find_first_set_hw 0 x < 4) [0..<16]"
    by (simp add: upt_rec top_bit_def)
  from below_16 [OF _ this, of x] 0 show ?case by simp
next
  case (Suc k)
  note b = half_bounds [OF Suc.prems(1)]
  have p: "(2 :: nat) ^ (Suc k + 2) = 2 ^ (k + 2) + 2 ^ (k + 2)" "(2 :: nat) ^ (k + 4) = 2 * 2 ^ (Suc k + 2)"
    by (simp_all add: power_add)
  show ?case
  proof (cases "hi_half k x = 0")
    case True
    then have "lo_half k x \<noteq> 0" using Suc.prems(2) halves [of x k] by auto
    with Suc.IH [OF b(1)] True show ?thesis using p by (auto simp: Let_def top_bit_lo)
  next
    case False
    with Suc.IH [OF b(2)] have t: "top_bit (hi_half k x) (find_first_set_hw k (hi_half k x))"
      "find_first_set_hw k (hi_half k x) < 2 ^ (k + 2)" by simp_all
    then have "find_first_set_hw (Suc k) x = 2 ^ (k + 2) + find_first_set_hw k (hi_half k x)"
      using False p by (simp add: Let_def)
    with t top_bit_hi [OF t(1)] p show ?thesis by simp
  qed
qed

text \<open>On a word of that width, the largest of its bits.\<close>

lemma highest_bit:
  fixes x :: "'a::len word"
  assumes "x \<noteq> 0" and "LENGTH('a) = 2 ^ (k + 2)"
  shows "find_first_set_hw k (unat x) = Max {i. bit x i} \<and> bit x (find_first_set_hw k (unat x)) \<and>
    find_first_set_hw k (unat x) < LENGTH('a)"
proof -
  define j where "j = find_first_set_hw k (unat x)"
  have t: "top_bit (unat x) j" "j < LENGTH('a)"
    using find_first_set_hw_spec [of "unat x" k, folded j_def] unsigned_less [of x, where ?'a = nat] assms
    by (auto simp: unat_eq_0)
  have "unat x div 2 ^ j = 1" using t(1) by (intro div_nat_eqI) (simp_all add: top_bit_def)
  then have "bit (unat x) j" by (simp add: bit_iff_odd)
  then have b: "bit x j" by (simp add: bit_unsigned_iff)
  have le: "i \<le> j" if "bit x i" for i
  proof (rule ccontr)
    assume "\<not> i \<le> j"
    then have "(2 :: nat) ^ (j + 1) \<le> 2 ^ i" by (intro power_increasing) simp_all
    then have "unat x < 2 ^ i" using t(1) unfolding top_bit_def by linarith
    then have "\<not> bit (unat x) i" by (simp add: bit_iff_odd)
    then show False using that by (simp add: bit_unsigned_iff)
  qed
  have "finite {i. bit x i}" by (rule finite_subset [of _ "{..j}"]) (use le in blast, simp)
  then have "Max {i. bit x i} = j" using b le by (intro Max_eqI) blast+
  with b t(2) show ?thesis unfolding j_def [symmetric] by simp
qed

lemma find_first_set_zero: "find_first_set_hw k 0 = (if k = 0 then 7 else 2 ^ (k + 2))"
  by (cases k) (simp_all add: lo_half_def hi_half_def power_add)

theorem count_leading_zeros_spec:
  "x < 2 ^ 2 ^ (k + 2) \<Longrightarrow>
     (if x = 0 then count_leading_zeros k x = 2 ^ (k + 2)
      else \<exists>i. top_bit x i \<and> count_leading_zeros k x + i + 1 = 2 ^ (k + 2))"
proof (induction k arbitrary: x)
  case 0
  have "list_all (\<lambda>x. x \<noteq> 0 \<longrightarrow> count_leading_zeros 0 x \<le> 3 \<and> top_bit x (3 - count_leading_zeros 0 x)) [0..<16]"
    by (simp add: upt_rec top_bit_def)
  from below_16 [OF _ this, of x] 0 show ?case by (auto intro!: exI [of _ "3 - count_leading_zeros 0 x"])
next
  case (Suc k)
  note b = half_bounds [OF Suc.prems]
  have p: "(2 :: nat) ^ (Suc k + 2) = 2 ^ (k + 2) + 2 ^ (k + 2)" "(2 :: nat) ^ (k + 4) = 2 * 2 ^ (Suc k + 2)"
    by (simp_all add: power_add)
  show ?case
  proof (cases "hi_half k x = 0")
    case True
    have "count_leading_zeros k (lo_half k x) \<le> 2 ^ (k + 2)"
      using Suc.IH [OF b(1)] by (auto split: if_splits)
    moreover have "(0 :: nat) < 2 ^ (k + 2)" by simp
    ultimately have "2 ^ (k + 2) + count_leading_zeros k (lo_half k x) < 2 ^ (k + 4)"
      using p by linarith
    then have "count_leading_zeros (Suc k) x = 2 ^ (k + 2) + count_leading_zeros k (lo_half k x)"
      using True by (simp add: Let_def)
    moreover have "lo_half k x = x" using True halves [of x k] by simp
    ultimately show ?thesis using Suc.IH [OF b(1)] p by (auto split: if_splits)
  next
    case False
    then obtain i where "top_bit (hi_half k x) i" "count_leading_zeros k (hi_half k x) + i + 1 = 2 ^ (k + 2)"
      using Suc.IH [OF b(2)] by auto
    with False top_bit_hi [of k x i] p halves [of x k] show ?thesis
      by (auto simp: Let_def intro!: exI [of _ "2 ^ (k + 2) + i"])
  qed
qed

definition ones :: "nat \<Rightarrow> nat \<Rightarrow> nat" where
  "ones n x = (\<Sum>i<n. of_bool (bit x i))"

lemma sum_split: "(\<Sum>i<m + n. f i) = (\<Sum>i<m. f i) + (\<Sum>i<n. f (m + i))"
  for m n :: nat and f :: "nat \<Rightarrow> nat"
  by (induction n) simp_all

lemma ones_halves: "ones (2 ^ (Suc k + 2)) x = ones (2 ^ (k + 2)) (lo_half k x) + ones (2 ^ (k + 2)) (hi_half k x)"
proof -
  let ?n = "2 ^ (k + 2) :: nat"
  have "ones (?n + ?n) x = (\<Sum>i<?n. of_bool (bit x i)) + (\<Sum>i<?n. of_bool (bit x (?n + i)))"
    unfolding ones_def by (rule sum_split)
  also have "(\<Sum>i<?n. of_bool (bit x i)) = ones ?n (lo_half k x)"
    unfolding ones_def lo_half_def by (rule sum.cong) (simp_all only: bit_take_bit_iff lessThan_iff simp_thms)
  also have "(\<Sum>i<?n. of_bool (bit x (?n + i))) = ones ?n (hi_half k x)"
    unfolding ones_def hi_half_def by (rule sum.cong) (simp_all only: bit_drop_bit_eq o_def)
  finally show ?thesis by (simp add: mult_2)
qed

lemma ones_le: "ones n x \<le> n"
  unfolding ones_def by (rule order.trans [OF sum_bounded_above [of _ _ 1]]) simp_all

theorem popcount_hw_spec: "x < 2 ^ 2 ^ (k + 2) \<Longrightarrow> popcount_hw k x = ones (2 ^ (k + 2)) x"
proof (induction k arbitrary: x)
  case 0
  have "list_all (\<lambda>x. popcount_hw 0 x = ones 4 x) [0..<16]" by code_simp
  from below_16 [OF _ this, of x] 0 show ?case by simp
next
  case (Suc k)
  note b = half_bounds [OF Suc.prems]
  have "ones (2 ^ (Suc k + 2)) x < 2 ^ (k + 4)"
    by (rule order.strict_trans1 [OF ones_le]) (simp add: power_add)
  then show ?case using Suc.IH [OF b(1)] Suc.IH [OF b(2)] ones_halves [of k x] by simp
qed

text \<open>
  C30. Every adder of the core adds: the netlists of 32 and 64 bits, the short branch the build
  selects, the ripple-carry netlist, and the carry-save adder in front of them.
\<close>

theorem adders_add:
  "ppa32 fpga A B = A + B \<and> ppa64 fpga C D = C + D \<and>
   bus (ppa_network 5 A B) = A + (B :: u32) \<and> bus (ppa_network 6 C D) = C + (D :: u64) \<and>
   bus (rca_network 32 A B) = A + (B :: u32) \<and>
   (case csa A B E of (s, cout) \<Rightarrow> carries cout + s = A + B + E)"
  using rca_adds [of A B] csa_sum [of A B E] by (simp add: ppa_adds split: prod.splits)

end
