(* ===== verification/Hw_Decode.thy ===== *)
theory Hw_Decode
  imports Insn_Formats Hw_Arith
begin

text \<open>
  \<open>uop.vh\<close> and \<open>decode_riscv.sv\<close>: from an instruction word to a micro-operation. The opcodes
  carry a prefix, as some of the source's names are operators here. Buses have the widths
  \<open>machine.vh\<close> gives them: 64 physical registers, 32 entries of the reorder buffer. The field
  \<open>clear_id\<close> of \<open>uop_t\<close>, which the decoder does not set, is left out.
\<close>

unbundle bit_operations_syntax

section \<open>Micro-operations\<close>

datatype opcode_t =
  OP_SRL | OP_SRA | OP_SRLV | OP_SRAV | OP_SLT | OP_SLTU | OP_ADDIU | OP_SC | OP_MONITOR |
  OP_RDCYCLE | OP_RDCYCLEH | OP_RDINSTRET | OP_RDINSTRETH | OP_RDBRANCH | OP_RDFAULTEDBRANCH |
  OP_MUL | OP_MULH | OP_MULHU | OP_DIV | OP_DIVU | OP_REM | OP_REMU | OP_SLTI | OP_SLTIU |
  OP_ADDU | OP_SUBU | OP_ANDI | OP_BEQ | OP_BGE | OP_BGEU | OP_BLT | OP_BLTU | OP_BNE | OP_SLL |
  OP_SLLI | OP_SRAI | OP_SRLI | OP_LB | OP_LH | OP_LW | OP_LBU | OP_LHU | OP_SB | OP_SH | OP_SW
  | OP_ORI | OP_XORI | OP_J | OP_JAL | OP_JR | OP_RET | OP_JALR | OP_BREAK | OP_ADDI | OP_AUIPC
  | OP_LUI | OP_NOP | OP_AND | OP_OR | OP_XOR | OP_II

definition uses_mul :: "opcode_t \<Rightarrow> bool" where
  "uses_mul op = (op \<in> {OP_MUL, OP_MULHU, OP_MULH})"

definition uses_div :: "opcode_t \<Rightarrow> bool" where
  "uses_div op = (op \<in> {OP_DIV, OP_DIVU, OP_REM, OP_REMU})"

definition is_store_op :: "opcode_t \<Rightarrow> bool" where
  "is_store_op op = (op \<in> {OP_SB, OP_SH, OP_SW, OP_SC})"

type_synonym prf_ptr = "6 word"
type_synonym rob_idx = "5 word"

record uop_t =
  uop_op :: opcode_t
  srcA :: prf_ptr
  srcA_valid :: bool
  fp_srcA_valid :: bool
  srcB :: prf_ptr
  srcB_valid :: bool
  fp_srcB_valid :: bool
  dst :: prf_ptr
  dst_valid :: bool
  fp_dst_valid :: bool
  rvimm :: u32
  imm :: u16
  jmp_imm :: u16
  uop_pc :: u32
  rob_ptr :: rob_idx
  serializing_op :: bool
  must_restart :: bool
  br_pred :: bool
  is_int :: bool
  is_br :: bool
  is_mem :: bool
  is_store :: bool
  pht_idx :: u16
  is_cheap_int :: bool
  uop_fetch_cycle :: u64

section \<open>Fields of the instruction word\<close>

definition dec_rd :: "u32 \<Rightarrow> prf_ptr" where
  "dec_rd insn = ucast (field 7 insn :: u5)"

definition dec_rs1 :: "u32 \<Rightarrow> prf_ptr" where
  "dec_rs1 insn = ucast (field 15 insn :: u5)"

definition dec_rs2 :: "u32 \<Rightarrow> prf_ptr" where
  "dec_rs2 insn = ucast (field 20 insn :: u5)"

text \<open>\<open>{{20{insn[31]}}, insn[31:20]}\<close> and the other immediates, field by field.\<close>

definition copies31 :: "u32 \<Rightarrow> u32 \<Rightarrow> u32" where
  "copies31 insn where_to = (if bit insn 31 then where_to else 0)"

definition imm_i :: "u32 \<Rightarrow> u32" where
  "imm_i insn = copies31 insn 0xfffff000 OR place 0 (field 20 insn :: 12 word)"

definition imm_s :: "u32 \<Rightarrow> u32" where
  "imm_s insn = copies31 insn 0xfffff000 OR place 5 (field 25 insn :: 7 word) OR place 0 (field 7 insn :: u5)"

definition imm_u :: "u32 \<Rightarrow> u32" where
  "imm_u insn = place 12 (field 12 insn :: 20 word)"

definition imm_b :: "u32 \<Rightarrow> u32" where
  "imm_b insn = copies31 insn 0xffffe000 OR place 12 (field 31 insn :: 1 word) OR
     place 11 (field 7 insn :: 1 word) OR place 5 (field 25 insn :: 6 word) OR place 1 (field 8 insn :: 4 word)"

definition imm_j :: "u32 \<Rightarrow> u32" where
  "imm_j insn = copies31 insn 0xffe00000 OR place 20 (field 31 insn :: 1 word) OR
     place 12 (field 12 insn :: u8) OR place 11 (field 20 insn :: 1 word) OR place 1 (field 21 insn :: 10 word)"

definition t_imm :: "u32 \<Rightarrow> u32" where
  "t_imm insn = (let opcode = (field 0 insn :: 7 word) in
     if opcode = 0x17 then imm_u insn
     else if opcode = 0x63 then imm_b insn
     else if opcode = 0x6f then imm_j insn
     else 0)"

section \<open>The decoder\<close>

text \<open>What the fetch stage hands over beside the word.\<close>

record fetched =
  f_pc :: u32
  insn_pred :: bool
  f_pht_idx :: u16
  insn_pred_target :: u32
  f_fetch_cycle :: u64

text \<open>The defaults at the head of the block.\<close>

definition uop_default :: "fetched \<Rightarrow> uop_t" where
  "uop_default f = \<lparr>uop_op = OP_II, srcA = 0, srcA_valid = False, fp_srcA_valid = False, srcB = 0,
     srcB_valid = False, fp_srcB_valid = False, dst = 0, dst_valid = False, fp_dst_valid = False,
     rvimm = 0, imm = 0, jmp_imm = 0, uop_pc = f_pc f, rob_ptr = 0, serializing_op = False,
     must_restart = False, br_pred = False, is_int = False, is_br = False, is_mem = False,
     is_store = False, pht_idx = f_pht_idx f, is_cheap_int = False, uop_fetch_cycle = f_fetch_cycle f\<rparr>"

text \<open>\<open>(rd == 'd0) ? NOP : op\<close>.\<close>

definition unless_x0 :: "u32 \<Rightarrow> opcode_t \<Rightarrow> opcode_t" where
  "unless_x0 insn op = (if dec_rd insn = 0 then OP_NOP else op)"

definition dec_load :: "u32 \<Rightarrow> uop_t \<Rightarrow> uop_t" where
  "dec_load insn u =
    (let sel = (field 12 insn :: 3 word) in
     u\<lparr>dst := dec_rd insn, srcA := dec_rs1 insn, dst_valid := dec_rd insn \<noteq> 0, srcA_valid := True,
       is_mem := True, rvimm := imm_i insn,
       uop_op := (if sel = 0 then OP_LB else if sel = 1 then OP_LH else if sel = 2 then OP_LW
         else if sel = 4 then OP_LBU else if sel = 5 then OP_LHU else uop_op u)\<rparr>)"

definition dec_opimm :: "u32 \<Rightarrow> uop_t \<Rightarrow> uop_t" where
  "dec_opimm insn u =
    (let sel = (field 12 insn :: 3 word); f7 = (field 25 insn :: 7 word);
         cheap = (\<lambda>op v. v\<lparr>uop_op := unless_x0 insn op, is_cheap_int := True\<rparr>);
         u1 = u\<lparr>dst := dec_rd insn, srcA := dec_rs1 insn, dst_valid := dec_rd insn \<noteq> 0,
           srcA_valid := dec_rd insn \<noteq> 0, is_int := True, rvimm := imm_i insn\<rparr> in
     if sel = 0 then cheap OP_ADDI u1
     else if sel = 1 then cheap OP_SLLI u1
     else if sel = 2 then cheap OP_SLTI u1
     else if sel = 3 then cheap OP_SLTIU u1
     else if sel = 4 then cheap OP_XORI u1
     else if sel = 5 then
       (if f7 = 0 then cheap OP_SRLI u1 else if f7 = 0x20 then cheap OP_SRAI u1 else u1)
     else if sel = 6 then cheap OP_ORI u1
     else cheap OP_ANDI u1)"

definition dec_auipc :: "u32 \<Rightarrow> u32 \<Rightarrow> uop_t \<Rightarrow> uop_t" where
  "dec_auipc insn w_pc_imm u = u\<lparr>uop_op := unless_x0 insn OP_AUIPC, dst := dec_rd insn,
     dst_valid := dec_rd insn \<noteq> 0, is_int := True, is_cheap_int := True, rvimm := w_pc_imm\<rparr>"

definition dec_store :: "u32 \<Rightarrow> uop_t \<Rightarrow> uop_t" where
  "dec_store insn u =
    (let sel = (field 12 insn :: 3 word) in
     u\<lparr>srcA := dec_rs1 insn, srcB := dec_rs2 insn, srcA_valid := True, srcB_valid := True,
       is_mem := True, is_store := True, rvimm := imm_s insn,
       uop_op := (if sel = 0 then OP_SB else if sel = 1 then OP_SH else if sel = 2 then OP_SW
         else uop_op u)\<rparr>)"

definition dec_op :: "u32 \<Rightarrow> uop_t \<Rightarrow> uop_t" where
  "dec_op insn u =
    (let sel = (field 12 insn :: 3 word); f7 = (field 25 insn :: 7 word);
         cheap = (\<lambda>op v. v\<lparr>uop_op := unless_x0 insn op, is_cheap_int := True\<rparr>);
         slow = (\<lambda>op v. v\<lparr>uop_op := unless_x0 insn op\<rparr>);
         u1 = u\<lparr>dst := dec_rd insn, dst_valid := dec_rd insn \<noteq> 0, srcA_valid := True,
           srcA := dec_rs1 insn, srcB_valid := True, srcB := dec_rs2 insn, is_int := True\<rparr> in
     if sel = 0 then
       (if f7 = 0 then cheap OP_ADDU u1 else if f7 = 1 then slow OP_MUL u1
        else if f7 = 0x20 then cheap OP_SUBU u1 else u1)
     else if sel = 1 then
       (if f7 = 0 then cheap OP_SLL u1 else if f7 = 1 then slow OP_MULH u1 else u1)
     else if sel = 2 then (if f7 = 0 then cheap OP_SLT u1 else u1)
     else if sel = 3 then
       (if f7 = 0 then cheap OP_SLTU u1 else if f7 = 1 then slow OP_MULHU u1 else u1)
     else if sel = 4 then
       (if f7 = 0 then cheap OP_XOR u1 else if f7 = 1 then slow OP_DIV u1 else u1)
     else if sel = 5 then
       (if f7 = 0 then cheap OP_SRL u1 else if f7 = 1 then slow OP_DIVU u1
        else if f7 = 0x20 then cheap OP_SRA u1 else u1)
     else if sel = 6 then
       (if f7 = 0 then cheap OP_OR u1 else if f7 = 1 then slow OP_REM u1 else u1)
     else
       (if f7 = 0 then cheap OP_AND u1 else if f7 = 1 then slow OP_REMU u1 else u1))"

definition dec_lui :: "u32 \<Rightarrow> uop_t \<Rightarrow> uop_t" where
  "dec_lui insn u = u\<lparr>uop_op := unless_x0 insn OP_LUI, dst := dec_rd insn,
     dst_valid := dec_rd insn \<noteq> 0, is_int := True, is_cheap_int := True, rvimm := imm_u insn\<rparr>"

definition dec_branch :: "u32 \<Rightarrow> bool \<Rightarrow> u32 \<Rightarrow> uop_t \<Rightarrow> uop_t" where
  "dec_branch insn pred w_pc_imm u =
    (let sel = (field 12 insn :: 3 word) in
     u\<lparr>srcA := dec_rs1 insn, srcB := dec_rs2 insn, srcA_valid := True, srcB_valid := True,
       is_int := True, rvimm := w_pc_imm, br_pred := pred, is_br := True, is_cheap_int := True,
       uop_op := (if sel = 0 then OP_BEQ else if sel = 1 then OP_BNE else if sel = 4 then OP_BLT
         else if sel = 5 then OP_BGE else if sel = 6 then OP_BLTU else if sel = 7 then OP_BGEU
         else uop_op u)\<rparr>)"

definition is_link :: "prf_ptr \<Rightarrow> bool" where
  "is_link r = (r = 1 \<or> r = 5)"

definition dec_jalr :: "u32 \<Rightarrow> u32 \<Rightarrow> uop_t \<Rightarrow> uop_t" where
  "dec_jalr insn target u =
    (let u1 = u\<lparr>srcA_valid := True, srcA := dec_rs1 insn, is_int := True, is_br := True,
       imm := ucast target, jmp_imm := ucast (drop_bit 16 target), rvimm := imm_i insn,
       br_pred := True, is_cheap_int := True\<rparr> in
     if dec_rd insn = 0 then u1\<lparr>uop_op := (if is_link (dec_rs1 insn) then OP_RET else OP_JR)\<rparr>
     else u1\<lparr>uop_op := OP_JALR, dst_valid := True, dst := dec_rd insn\<rparr>)"

definition dec_jal :: "u32 \<Rightarrow> u32 \<Rightarrow> uop_t \<Rightarrow> uop_t" where
  "dec_jal insn w_pc_imm u =
    (let u1 = u\<lparr>rvimm := w_pc_imm, is_br := True\<rparr> in
     if dec_rd insn = 0 then u1\<lparr>uop_op := OP_J, br_pred := True, is_br := True, is_int := True\<rparr>
     else u1\<lparr>uop_op := OP_JAL, dst_valid := True, dst := dec_rd insn, br_pred := True,
       is_br := True, is_int := True, is_cheap_int := True\<rparr>)"

definition dec_system :: "u32 \<Rightarrow> uop_t \<Rightarrow> uop_t" where
  "dec_system insn u =
    (let csr = (field 20 insn :: 12 word);
         u1 = u\<lparr>is_int := True, uop_op := OP_NOP\<rparr>;
         to_rd = (\<lambda>op v. v\<lparr>uop_op := unless_x0 insn op, dst := dec_rd insn, dst_valid := dec_rd insn \<noteq> 0\<rparr>) in
     if (field 7 insn :: 25 word) = 0 then u1\<lparr>uop_op := OP_BREAK, serializing_op := True\<rparr>
     else if csr = 1 \<and> (field 7 insn :: 13 word) = 0 then
       u1\<lparr>uop_op := OP_MONITOR, serializing_op := True, must_restart := True\<rparr>
     else if (field 12 insn :: 3 word) = 2 then
       (if csr = 0xc00 then (to_rd OP_RDCYCLE u1)\<lparr>is_cheap_int := True\<rparr>
        else if csr = 0xc80 then (to_rd OP_RDCYCLEH u1)\<lparr>is_cheap_int := True\<rparr>
        else if csr = 0xc02 then (to_rd OP_RDINSTRET u1)\<lparr>serializing_op := True\<rparr>
        else if csr = 0xc82 then (to_rd OP_RDINSTRETH u1)\<lparr>serializing_op := True\<rparr>
        else if csr = 0xc03 then (to_rd OP_RDBRANCH u1)\<lparr>serializing_op := True\<rparr>
        else if csr = 0xc04 then (to_rd OP_RDFAULTEDBRANCH u1)\<lparr>serializing_op := True\<rparr>
        else u1)
     else u1)"

definition decode_riscv :: "u32 \<Rightarrow> fetched \<Rightarrow> uop_t" where
  "decode_riscv insn f =
    (let opcode = (field 0 insn :: 7 word); u = uop_default f; w_pc_imm = ppa32 FPGA (f_pc f) (t_imm insn) in
     if opcode = 0x3 then dec_load insn u
     else if opcode = 0xf then u\<lparr>uop_op := OP_NOP\<rparr>
     else if opcode = 0x13 then dec_opimm insn u
     else if opcode = 0x17 then dec_auipc insn w_pc_imm u
     else if opcode = 0x23 then dec_store insn u
     else if opcode = 0x33 then dec_op insn u
     else if opcode = 0x37 then dec_lui insn u
     else if opcode = 0x63 then dec_branch insn (insn_pred f) w_pc_imm u
     else if opcode = 0x67 then dec_jalr insn (insn_pred_target f) u
     else if opcode = 0x6f then dec_jal insn w_pc_imm u
     else if opcode = 0x73 then dec_system insn u
     else u)"

lemmas dec_defs = dec_load_def dec_opimm_def dec_auipc_def dec_store_def dec_op_def dec_lui_def
  dec_branch_def dec_jalr_def dec_jal_def dec_system_def unless_x0_def

text \<open>Operations that complete when they are allocated: \<open>core.sv: t_fold_uop\<close>.\<close>

definition fold_uop :: "uop_t \<Rightarrow> bool" where
  "fold_uop u = (uop_op u \<in> {OP_NOP, OP_J, OP_II})"

section \<open>Predecoding\<close>

text \<open>\<open>l1i.sv: predecode\<close> gives the fetch stage the kind of jump before the word is decoded.\<close>

definition predecode :: "u32 \<Rightarrow> 4 word" where
  "predecode insn =
    (let opcode = (field 0 insn :: 7 word); rd = (field 7 insn :: u5); rs1 = (field 15 insn :: u5);
         rd_is_link = (rd = 1 \<or> rd = 5); rs1_is_link = (rs1 = 1 \<or> rs1 = 5) in
     if opcode = 0x63 then 1
     else if opcode = 0x67 then (if rd = 0 then (if rs1_is_link then 2 else 4) else 6)
     else if opcode = 0x6f then (if rd_is_link then 5 else 3)
     else 0)"

end
