(* ===== verification/Hw_Ports.thy ===== *)
theory Hw_Ports
  imports Hw_Decode
begin

text \<open>
  The execution ports of \<open>exec.sv\<close>: the first integer port (\<open>t_result\<close>, \<open>t_pc\<close>, ...), the
  second one, which takes only cheap operations, and the address generation of the memory port.
  Each is a function of the micro-operation and its operands; what steers the shared adders
  (\<open>t_sub\<close>, \<open>t_addi\<close>, \<open>t_slti\<close>, \<open>t_sltiu\<close>) is a function of the opcode.
\<close>

unbundle bit_operations_syntax

text \<open>The counters the ports read, and what a port drives.\<close>

record hw_counters =
  r_cycle :: u64
  r_retired_insns :: u64
  r_branches :: u64
  r_branch_faults :: u64

record port_out =
  t_result :: u32
  t_pc :: u32
  t_take_br :: bool
  t_mispred_br :: bool
  t_wr_int_prf :: bool
  t_alu_valid :: bool
  t_unimp_op :: bool
  t_start_mul :: bool
  t_start_div :: bool
  t_signed_div :: bool
  t_is_rem :: bool

definition port_default :: "uop_t \<Rightarrow> port_out" where
  "port_default u = \<lparr>t_result = 0, t_pc = uop_pc u, t_take_br = False, t_mispred_br = False,
     t_wr_int_prf = False, t_alu_valid = False, t_unimp_op = False, t_start_mul = False,
     t_start_div = False, t_signed_div = False, t_is_rem = False\<rparr>"

definition writes :: "u32 \<Rightarrow> port_out \<Rightarrow> port_out" where
  "writes x p = p\<lparr>t_result := x, t_wr_int_prf := True, t_alu_valid := True\<rparr>"

section \<open>The adders of the first port\<close>

definition t_sub :: "opcode_t \<Rightarrow> bool" where
  "t_sub op = (op \<in> {OP_SUBU, OP_BGE, OP_BLT, OP_SLT})"

definition w_add32 :: "uop_t \<Rightarrow> u32 \<Rightarrow> u32 \<Rightarrow> u32" where
  "w_add32 u A B =
    (let op = uop_op u;
         (s, c) = csa A (if op = OP_SLTI then NOT (rvimm u) else if op = OP_ADDI then rvimm u
           else if t_sub op then NOT B else B) (if t_sub op \<or> op = OP_SLTI then 1 else 0)
     in ppa32 FPGA (carries c) s)"

definition w_add64 :: "uop_t \<Rightarrow> u32 \<Rightarrow> u32 \<Rightarrow> u64" where
  "w_add64 u A B =
    (let (s, c) = csa (ucast A) (NOT (ucast (if uop_op u = OP_SLTIU then rvimm u else B))) 1
     in ppa64 FPGA (carries c) s)"

definition w_AltB :: "uop_t \<Rightarrow> u32 \<Rightarrow> u32 \<Rightarrow> bool" where
  "w_AltB u A B = (if bit A 31 \<and> \<not> bit B 31 then True else if \<not> bit A 31 \<and> bit B 31 then False
     else bit (w_add32 u A B) 31)"

definition w_AltB_slti :: "uop_t \<Rightarrow> u32 \<Rightarrow> u32 \<Rightarrow> bool" where
  "w_AltB_slti u A B = (if bit A 31 \<and> \<not> bit (rvimm u) 31 then True
     else if \<not> bit A 31 \<and> bit (rvimm u) 31 then False else bit (w_add32 u A B) 31)"

definition port_branch :: "uop_t \<Rightarrow> bool \<Rightarrow> port_out \<Rightarrow> port_out" where
  "port_branch u taken p = p\<lparr>t_take_br := taken, t_mispred_br := br_pred u \<noteq> taken,
     t_pc := (if taken then rvimm u else ppa32 FPGA (uop_pc u) 4), t_alu_valid := True\<rparr>"

text \<open>\<open>{int_uop.jmp_imm, int_uop.imm}\<close>: the target the fetch stage predicted.\<close>

definition predicted_target :: "uop_t \<Rightarrow> u32" where
  "predicted_target u = push_bit 16 (ucast (jmp_imm u)) OR ucast (imm u)"

definition port_indirect :: "uop_t \<Rightarrow> u32 \<Rightarrow> port_out \<Rightarrow> port_out" where
  "port_indirect u A p = (let tgt = ppa32 FPGA A (rvimm u) in
     p\<lparr>t_take_br := True, t_mispred_br := tgt \<noteq> predicted_target u, t_pc := tgt, t_alu_valid := True\<rparr>)"

definition low_half :: "u64 \<Rightarrow> u32" where "low_half x = ucast x"
definition high_half :: "u64 \<Rightarrow> u32" where "high_half x = ucast (drop_bit 32 x)"

section \<open>The first port\<close>

text \<open>\<open>go\<close> is \<open>r_start_int & !ds_done\<close>.\<close>

definition port1 :: "bool \<Rightarrow> hw_counters \<Rightarrow> uop_t \<Rightarrow> u32 \<Rightarrow> u32 \<Rightarrow> port_out" where
  "port1 go cnt u A B =
    (let p = port_default u; w_pc4 = ppa32 FPGA (uop_pc u) 4;
         shifted = (\<lambda>is_left is_signed amt. shift_right FPGA is_left is_signed A amt);
         after = (\<lambda>q. q\<lparr>t_pc := w_pc4\<rparr>) in
     case uop_op u of
       OP_DIV \<Rightarrow> p\<lparr>t_signed_div := True, t_start_div := go\<rparr>
     | OP_DIVU \<Rightarrow> p\<lparr>t_start_div := go\<rparr>
     | OP_REM \<Rightarrow> p\<lparr>t_signed_div := True, t_is_rem := True, t_start_div := go\<rparr>
     | OP_REMU \<Rightarrow> p\<lparr>t_is_rem := True, t_start_div := go\<rparr>
     | OP_MUL \<Rightarrow> p\<lparr>t_start_mul := go\<rparr>
     | OP_MULH \<Rightarrow> p\<lparr>t_start_mul := go\<rparr>
     | OP_MULHU \<Rightarrow> p\<lparr>t_start_mul := go\<rparr>
     | OP_ADDI \<Rightarrow> writes (w_add32 u A B) p
     | OP_ADDU \<Rightarrow> writes (w_add32 u A B) p
     | OP_RDCYCLE \<Rightarrow> writes (low_half (r_cycle cnt)) p
     | OP_RDCYCLEH \<Rightarrow> writes (high_half (r_cycle cnt)) p
     | OP_RDINSTRET \<Rightarrow> after (writes (low_half (r_retired_insns cnt)) p)
     | OP_RDINSTRETH \<Rightarrow> after (writes (high_half (r_retired_insns cnt)) p)
     | OP_RDBRANCH \<Rightarrow> after (writes (low_half (r_branches cnt)) p)
     | OP_RDFAULTEDBRANCH \<Rightarrow> after (writes (low_half (r_branch_faults cnt)) p)
     | OP_AND \<Rightarrow> writes (A AND B) p
     | OP_SUBU \<Rightarrow> writes (w_add32 u A B) p
     | OP_ANDI \<Rightarrow> writes (A AND rvimm u) p
     | OP_AUIPC \<Rightarrow> writes (rvimm u) p
     | OP_BEQ \<Rightarrow> port_branch u (A = B) p
     | OP_BGE \<Rightarrow> port_branch u (if \<not> bit A 31 \<and> bit B 31 then True
         else if bit A 31 \<and> \<not> bit B 31 then False else \<not> bit (w_add32 u A B) 31) p
     | OP_BGEU \<Rightarrow> port_branch u (\<not> bit (w_add64 u A B) 32) p
     | OP_BLT \<Rightarrow> port_branch u (w_AltB u A B) p
     | OP_BLTU \<Rightarrow> port_branch u (bit (w_add64 u A B) 32) p
     | OP_BNE \<Rightarrow> port_branch u (A \<noteq> B) p
     | OP_JAL \<Rightarrow> writes w_pc4 (p\<lparr>t_take_br := True, t_mispred_br := br_pred u \<noteq> True, t_pc := rvimm u\<rparr>)
     | OP_JALR \<Rightarrow> writes w_pc4 (port_indirect u A p)
     | OP_JR \<Rightarrow> port_indirect u A p
     | OP_RET \<Rightarrow> port_indirect u A p
     | OP_LUI \<Rightarrow> writes (rvimm u) p
     | OP_OR \<Rightarrow> writes (A OR B) p
     | OP_ORI \<Rightarrow> writes (A OR rvimm u) p
     | OP_SLL \<Rightarrow> writes (shifted True False (ucast B)) p
     | OP_SLLI \<Rightarrow> writes (shifted True False (ucast (rvimm u))) p
     | OP_SLT \<Rightarrow> writes (of_bool (w_AltB u A B)) p
     | OP_SLTU \<Rightarrow> writes (of_bool (bit (w_add64 u A B) 32)) p
     | OP_SLTI \<Rightarrow> writes (of_bool (w_AltB_slti u A B)) p
     | OP_SLTIU \<Rightarrow> writes (of_bool (bit (w_add64 u A B) 32)) p
     | OP_SRAI \<Rightarrow> writes (shifted False True (ucast (rvimm u))) p
     | OP_SRA \<Rightarrow> writes (shifted False True (ucast B)) p
     | OP_SRL \<Rightarrow> writes (shifted False False (ucast B)) p
     | OP_SRLI \<Rightarrow> writes (shifted False False (ucast (rvimm u))) p
     | OP_XORI \<Rightarrow> writes (A XOR rvimm u) p
     | OP_XOR \<Rightarrow> writes (A XOR B) p
     | _ \<Rightarrow> p\<lparr>t_unimp_op := True, t_alu_valid := True\<rparr>)"

section \<open>The second port\<close>

definition w_add32_2 :: "uop_t \<Rightarrow> u32 \<Rightarrow> u32 \<Rightarrow> u32" where
  "w_add32_2 u A B =
    (let op = uop_op u;
         (s, c) = csa A (if op = OP_ADDI then rvimm u else if op = OP_SUBU then NOT B else B)
           (if op = OP_SUBU then 1 else 0)
     in ppa32 FPGA (carries c) s)"

definition port2 :: "hw_counters \<Rightarrow> uop_t \<Rightarrow> u32 \<Rightarrow> u32 \<Rightarrow> port_out" where
  "port2 cnt u A B =
    (let p = port_default u; w_pc2_4 = ppa32 FPGA (uop_pc u) 4;
         shifted = (\<lambda>is_left is_signed amt. shift_right FPGA is_left is_signed A amt) in
     case uop_op u of
       OP_BNE \<Rightarrow> port_branch u (A \<noteq> B) p
     | OP_BEQ \<Rightarrow> port_branch u (A = B) p
     | OP_BLT \<Rightarrow> port_branch u (A <s B) p
     | OP_BGE \<Rightarrow> port_branch u (B \<le>s A) p
     | OP_BLTU \<Rightarrow> port_branch u (A < B) p
     | OP_BGEU \<Rightarrow> port_branch u (B \<le> A) p
     | OP_JAL \<Rightarrow> writes w_pc2_4 (p\<lparr>t_take_br := True, t_mispred_br := br_pred u \<noteq> True, t_pc := rvimm u\<rparr>)
     | OP_JALR \<Rightarrow> writes w_pc2_4 (port_indirect u A p)
     | OP_JR \<Rightarrow> port_indirect u A p
     | OP_RET \<Rightarrow> port_indirect u A p
     | OP_ADDI \<Rightarrow> writes (w_add32_2 u A B) p
     | OP_ADDU \<Rightarrow> writes (w_add32_2 u A B) p
     | OP_RDCYCLE \<Rightarrow> writes (low_half (r_cycle cnt)) p
     | OP_RDCYCLEH \<Rightarrow> writes (high_half (r_cycle cnt)) p
     | OP_SLT \<Rightarrow> writes (of_bool (A <s B)) p
     | OP_SLTU \<Rightarrow> writes (of_bool (A < B)) p
     | OP_SLTI \<Rightarrow> writes (of_bool (A <s rvimm u)) p
     | OP_SLTIU \<Rightarrow> writes (of_bool (A < rvimm u)) p
     | OP_SUBU \<Rightarrow> writes (w_add32_2 u A B) p
     | OP_ANDI \<Rightarrow> writes (rvimm u AND A) p
     | OP_ORI \<Rightarrow> writes (rvimm u OR A) p
     | OP_XORI \<Rightarrow> writes (rvimm u XOR A) p
     | OP_AND \<Rightarrow> writes (A AND B) p
     | OP_OR \<Rightarrow> writes (A OR B) p
     | OP_XOR \<Rightarrow> writes (A XOR B) p
     | OP_SRL \<Rightarrow> writes (shifted False False (ucast B)) p
     | OP_SRLI \<Rightarrow> writes (shifted False False (ucast (rvimm u))) p
     | OP_SRA \<Rightarrow> writes (shifted False True (ucast B)) p
     | OP_SRAI \<Rightarrow> writes (shifted False True (ucast (rvimm u))) p
     | OP_SLL \<Rightarrow> writes (shifted True False (ucast B)) p
     | OP_SLLI \<Rightarrow> writes (shifted True False (ucast (rvimm u))) p
     | OP_AUIPC \<Rightarrow> writes (rvimm u) p
     | OP_LUI \<Rightarrow> writes (rvimm u) p
     | _ \<Rightarrow> p)"

section \<open>What the adders compute\<close>

lemma csa_ppa:
  "(case csa a b cin of (s, c) \<Rightarrow> ppa32 f (carries c) s) = a + b + cin"
  "(case csa x y z of (s, c) \<Rightarrow> ppa64 f (carries c) s) = x + y + z"
  using csa_sum [of a b cin] csa_sum [of x y z] by (auto split: prod.splits)

lemma add_not: "a + NOT b + 1 = a - (b :: 'a::len word)"
  by (simp add: not_eq_complement)

lemma w_add32_eq:
  "w_add32 u A B = (if uop_op u = OP_SLTI then A - rvimm u else if uop_op u = OP_ADDI then A + rvimm u
     else if t_sub (uop_op u) then A - B else A + B)"
  unfolding w_add32_def Let_def csa_ppa by (auto simp: add_not t_sub_def)

lemma w_add32_2_eq:
  "w_add32_2 u A B = (if uop_op u = OP_ADDI then A + rvimm u else if uop_op u = OP_SUBU then A - B else A + B)"
  unfolding w_add32_2_def Let_def csa_ppa by (auto simp: add_not)

text \<open>The sign bit of the difference decides the comparison when the signs agree.\<close>

lemma sign_bit: "bit (A :: u32) 31 \<longleftrightarrow> sint A < 0"
  using bit_last_iff [of A] by simp

lemma sless_by_sub:
  "(if bit A 31 \<and> \<not> bit B 31 then True else if \<not> bit A 31 \<and> bit B 31 then False else bit (A - B) 31) \<longleftrightarrow>
     A <s (B :: u32)"
proof -
  have r: "- (2 ^ 31) \<le> sint A" "sint A < 2 ^ 31" "- (2 ^ 31) \<le> sint B" "sint B < 2 ^ 31"
    using sint_ge [of A] sint_lt [of A] sint_ge [of B] sint_lt [of B] by simp_all
  have "sint (A - B) = sint A - sint B" if "sint A < 0 \<longleftrightarrow> sint B < 0"
  proof -
    have "- (2 ^ 31) \<le> sint A - sint B \<and> sint A - sint B < 2 ^ 31" using r that by linarith
    then show ?thesis by (simp add: sint_word_ariths(2) signed_take_bit_int_eq_self)
  qed
  then show ?thesis by (auto simp: sign_bit word_sless_alt)
qed

text \<open>Bit 32 of the wide difference is the borrow.\<close>

lemma less_by_borrow: "bit (ucast A - ucast B :: u64) 32 \<longleftrightarrow> A < (B :: u32)"
proof -
  have r: "0 \<le> uint A" "uint A < 2 ^ 32" "0 \<le> uint B" "uint B < 2 ^ 32"
    using uint_lt2p [of A] uint_lt2p [of B] by simp_all
  have u: "uint (ucast x :: u64) = uint (x :: u32)" for x
    using uint_lt2p [of x] by (simp add: unsigned_ucast_eq take_bit_int_eq_self)
  have "bit (ucast A - ucast B :: u64) 32 \<longleftrightarrow> bit (uint (ucast A - ucast B :: u64)) 32"
    by (simp add: bit_unsigned_iff)
  also have "uint (ucast A - ucast B :: u64) = take_bit 64 (uint A - uint B)"
    by (simp add: uint_word_ariths(2) u take_bit_eq_mod)
  also have "bit (take_bit 64 (uint A - uint B)) 32 \<longleftrightarrow> bit (uint A - uint B) 32"
    by (simp only: bit_take_bit_iff) simp
  also have "\<dots> \<longleftrightarrow> uint A < uint B"
  proof (cases "uint A < uint B")
    case True
    with r have "(uint A - uint B) div 2 ^ 32 = - 1" by (intro int_div_pos_eq [of _ _ _ "uint A - uint B + 2 ^ 32"]) linarith+
    with True show ?thesis by (simp add: bit_iff_odd)
  next
    case False
    with r have "(uint A - uint B) div 2 ^ 32 = 0" by (intro div_pos_pos_trivial) linarith+
    with False show ?thesis by (simp add: bit_iff_odd)
  qed
  finally show ?thesis by (simp add: word_less_def)
qed

lemma w_add64_borrow: "bit (w_add64 u A B) 32 \<longleftrightarrow> A < (if uop_op u = OP_SLTIU then rvimm u else B)"
  unfolding w_add64_def Let_def csa_ppa add_not less_by_borrow ..

lemma w_AltB_eq: "t_sub (uop_op u) \<Longrightarrow> w_AltB u A B \<longleftrightarrow> A <s B"
  using sless_by_sub [of A B] by (auto simp: w_AltB_def w_add32_eq t_sub_def)

lemma w_AltB_slti_eq: "uop_op u = OP_SLTI \<Longrightarrow> w_AltB_slti u A B \<longleftrightarrow> A <s rvimm u"
  using sless_by_sub [of A "rvimm u"] by (auto simp: w_AltB_slti_def w_add32_eq)

lemma bge_eq: "t_sub (uop_op u) \<Longrightarrow> (if \<not> bit A 31 \<and> bit B 31 then True
    else if bit A 31 \<and> \<not> bit B 31 then False else \<not> bit (w_add32 u A B) 31) \<longleftrightarrow> B \<le>s A"
  using sless_by_sub [of A B]
  by (auto simp: w_add32_eq t_sub_def word_sle_eq word_sless_alt split: if_splits)

lemmas port_eqs = w_add32_eq w_add32_2_eq w_add64_borrow w_AltB_eq w_AltB_slti_eq bge_eq t_sub_def

section \<open>The two ports\<close>

definition cheap_ops :: "opcode_t set" where
  "cheap_ops = {OP_BNE, OP_BEQ, OP_BLT, OP_BGE, OP_BLTU, OP_BGEU, OP_JAL, OP_JALR, OP_JR, OP_RET,
     OP_ADDI, OP_ADDU, OP_RDCYCLE, OP_RDCYCLEH, OP_SLT, OP_SLTU, OP_SLTI, OP_SLTIU, OP_SUBU, OP_ANDI,
     OP_ORI, OP_XORI, OP_AND, OP_OR, OP_XOR, OP_SRL, OP_SRLI, OP_SRA, OP_SRAI, OP_SLL, OP_SLLI,
     OP_AUIPC, OP_LUI}"

lemma port2_is_port1:
  "uop_op u \<in> cheap_ops \<Longrightarrow> port2 cnt u A B = port1 go cnt u A B"
  unfolding cheap_ops_def
  by (elim insertE emptyE; simp add: port1_def port2_def Let_def port_eqs not_less and.commute or.commute xor.commute)

lemma port2_valid: "t_alu_valid (port2 cnt u A B) \<longleftrightarrow> uop_op u \<in> cheap_ops"
  by (cases "uop_op u") (simp_all add: port2_def Let_def cheap_ops_def writes_def port_branch_def
      port_indirect_def port_default_def)

text \<open>The decoder case by case; the definitions of the cases are only unfolded one at a time.\<close>

lemma decode_cases [case_names load fence opimm auipc store op lui branch jalr jal system bad]:
  assumes "field 0 insn = (0x3 :: 7 word) \<Longrightarrow> decode_riscv insn f = dec_load insn (uop_default f) \<Longrightarrow> P"
    and "field 0 insn = (0xf :: 7 word) \<Longrightarrow> decode_riscv insn f = (uop_default f)\<lparr>uop_op := OP_NOP\<rparr> \<Longrightarrow> P"
    and "field 0 insn = (0x13 :: 7 word) \<Longrightarrow> decode_riscv insn f = dec_opimm insn (uop_default f) \<Longrightarrow> P"
    and "field 0 insn = (0x17 :: 7 word) \<Longrightarrow> decode_riscv insn f = dec_auipc insn (f_pc f + t_imm insn) (uop_default f) \<Longrightarrow> P"
    and "field 0 insn = (0x23 :: 7 word) \<Longrightarrow> decode_riscv insn f = dec_store insn (uop_default f) \<Longrightarrow> P"
    and "field 0 insn = (0x33 :: 7 word) \<Longrightarrow> decode_riscv insn f = dec_op insn (uop_default f) \<Longrightarrow> P"
    and "field 0 insn = (0x37 :: 7 word) \<Longrightarrow> decode_riscv insn f = dec_lui insn (uop_default f) \<Longrightarrow> P"
    and "field 0 insn = (0x63 :: 7 word) \<Longrightarrow>
      decode_riscv insn f = dec_branch insn (insn_pred f) (f_pc f + t_imm insn) (uop_default f) \<Longrightarrow> P"
    and "field 0 insn = (0x67 :: 7 word) \<Longrightarrow>
      decode_riscv insn f = dec_jalr insn (insn_pred_target f) (uop_default f) \<Longrightarrow> P"
    and "field 0 insn = (0x6f :: 7 word) \<Longrightarrow> decode_riscv insn f = dec_jal insn (f_pc f + t_imm insn) (uop_default f) \<Longrightarrow> P"
    and "field 0 insn = (0x73 :: 7 word) \<Longrightarrow> decode_riscv insn f = dec_system insn (uop_default f) \<Longrightarrow> P"
    and "field 0 insn \<notin> {0x3, 0xf, 0x13, 0x17, 0x23, 0x33, 0x37, 0x63, 0x67, 0x6f, 0x73 :: 7 word} \<Longrightarrow>
      decode_riscv insn f = uop_default f \<Longrightarrow> P"
  shows P
  using assms unfolding decode_riscv_def Let_def ppa_sum by (auto split: if_splits)

lemma uop_default_sel [simp]: "uop_op (uop_default f) = OP_II" "is_cheap_int (uop_default f) = False"
    "is_br (uop_default f) = False" "dst_valid (uop_default f) = False" "uop_pc (uop_default f) = f_pc f"
    "rvimm (uop_default f) = 0" "dst (uop_default f) = 0"
  by (simp_all add: uop_default_def)

definition cheap_ok :: "uop_t \<Rightarrow> bool" where
  "cheap_ok u \<longleftrightarrow> (is_cheap_int u \<longrightarrow> uop_op u \<in> cheap_ops \<union> {OP_NOP, OP_J, OP_II})"

lemma cheap_okI: "\<not> is_cheap_int u \<Longrightarrow> cheap_ok u" "uop_op u \<in> cheap_ops \<Longrightarrow> cheap_ok u"
    "uop_op u = OP_NOP \<Longrightarrow> cheap_ok u" "uop_op u = OP_II \<Longrightarrow> cheap_ok u"
  by (simp_all add: cheap_ok_def)

lemma cheap_okD: "cheap_ok u \<Longrightarrow> is_cheap_int u \<Longrightarrow> \<not> fold_uop u \<Longrightarrow> uop_op u \<in> cheap_ops"
  by (auto simp: cheap_ok_def fold_uop_def)

lemma cheap_if: "cheap_ok a \<Longrightarrow> cheap_ok b \<Longrightarrow> cheap_ok (if c then a else b)"
  by simp

lemma cheap_unless_x0: "op \<in> cheap_ops \<Longrightarrow> cheap_ok (u\<lparr>uop_op := unless_x0 insn op, is_cheap_int := True\<rparr>)"
  by (simp add: cheap_ok_def unless_x0_def)

lemma cheap_op_classes:
  "cheap_ok (dec_opimm insn (uop_default f))" "cheap_ok (dec_op insn (uop_default f))"
  unfolding dec_opimm_def dec_op_def Let_def
  by (intro cheap_if cheap_unless_x0; simp add: cheap_ops_def cheap_ok_def)+

lemma cheap_jumps:
  "cheap_ok (dec_jalr insn t (uop_default f))" "cheap_ok (dec_jal insn t (uop_default f))"
  "cheap_ok (dec_branch insn p t (uop_default f))"
  by (simp_all add: dec_jalr_def dec_jal_def dec_branch_def Let_def cheap_ok_def cheap_ops_def)

lemma cheap_rest:
  "cheap_ok (dec_load insn (uop_default f))" "cheap_ok (dec_store insn (uop_default f))"
  "cheap_ok (dec_auipc insn t (uop_default f))" "cheap_ok (dec_lui insn (uop_default f))"
  "cheap_ok (dec_system insn (uop_default f))"
  by (simp_all add: dec_defs Let_def cheap_ok_def cheap_ops_def)

lemma decode_cheap: "cheap_ok (decode_riscv insn f)"
  by (cases insn f rule: decode_cases)
    (simp_all only: cheap_op_classes cheap_jumps cheap_rest, simp_all add: cheap_ok_def)

text \<open>
  C16. An operation the decoder marks as cheap, unless it is folded at allocation, is carried out by the
  second port exactly as by the first: result, target, direction, misprediction.
\<close>

theorem ports_agree:
  assumes "u = decode_riscv insn f" and "is_cheap_int u" and "\<not> fold_uop u"
  shows "port2 cnt u A B = port1 go cnt u A B \<and> t_alu_valid (port2 cnt u A B)"
  using cheap_okD [OF decode_cheap] assms port2_is_port1 port2_valid by blast

text \<open>\<open>sltiu x3, x1, -1\<close>, whose immediate is the largest word.\<close>

lemma ports_agree_witness:
  "let u = decode_riscv 0xfff0b193 \<lparr>f_pc = 0, insn_pred = False, f_pht_idx = 0, insn_pred_target = 0, f_fetch_cycle = 0\<rparr>;
       cnt = \<lparr>r_cycle = 0, r_retired_insns = 0, r_branches = 0, r_branch_faults = 0\<rparr>
   in port2 cnt u 7 0 = port1 True cnt u 7 0 \<and> t_result (port2 cnt u 7 0) = 1"
proof -
  let ?f = "\<lparr>f_pc = 0, insn_pred = False, f_pht_idx = 0, insn_pred_target = 0, f_fetch_cycle = 0\<rparr>"
  let ?cnt = "\<lparr>r_cycle = 0, r_retired_insns = 0, r_branches = 0, r_branch_faults = 0\<rparr>"
  have h: "is_cheap_int (decode_riscv 0xfff0b193 ?f)" "\<not> fold_uop (decode_riscv 0xfff0b193 ?f)" by code_simp+
  moreover have "t_result (port2 ?cnt (decode_riscv 0xfff0b193 ?f) 7 0) = 1" by code_simp
  ultimately show ?thesis using ports_agree [OF refl h, of ?cnt 7 0 True] unfolding Let_def by blast
qed

section \<open>The memory port\<close>

datatype mem_op_t = MEM_LB | MEM_LBU | MEM_LH | MEM_LHU | MEM_LW | MEM_SB | MEM_SH | MEM_SW | MEM_SC | MEM_NOP

record mem_req_t =
  mreq_addr :: u32
  mreq_is_store :: bool
  mreq_is_load :: bool
  mreq_op :: mem_op_t
  spans_cacheline :: bool
  unaligned :: bool
  mreq_rob_ptr :: rob_idx
  dst_ptr :: prf_ptr
  mreq_dst_valid :: bool
  mreq_data :: u32
  mreq_pc :: u32

text \<open>Accesses that run over the end of a 16-byte line: \<open>w_bad_16b_addr\<close>, \<open>w_bad_32b_addr\<close>.\<close>

definition w_bad_16b_addr :: "u32 \<Rightarrow> bool" where
  "w_bad_16b_addr a = (bit a 0 \<and> bit a 1 \<and> bit a 2 \<and> bit a 3)"

definition w_bad_32b_addr :: "u32 \<Rightarrow> bool" where
  "w_bad_32b_addr a = ((bit a 2 \<and> bit a 3) \<and> (bit a 0 \<or> bit a 1))"

definition mem_tail :: "uop_t \<Rightarrow> u32 \<Rightarrow> mem_req_t" where
  "mem_tail u A =
    (let w_agu32 = ppa32 FPGA A (rvimm u);
         bad16 = w_bad_16b_addr w_agu32; bad32 = w_bad_32b_addr w_agu32;
         r = \<lparr>mreq_addr = w_agu32, mreq_is_store = False, mreq_is_load = False, mreq_op = MEM_LW,
           spans_cacheline = False, unaligned = False, mreq_rob_ptr = rob_ptr u, dst_ptr = dst u,
           mreq_dst_valid = False, mreq_data = 0, mreq_pc = uop_pc u\<rparr> in
     case uop_op u of
       OP_SB \<Rightarrow> r\<lparr>mreq_op := MEM_SB, mreq_is_store := True\<rparr>
     | OP_SH \<Rightarrow> r\<lparr>mreq_op := (if bad16 then MEM_NOP else MEM_SH), mreq_is_store := \<not> bad16,
         spans_cacheline := bad16, unaligned := bit w_agu32 0\<rparr>
     | OP_SW \<Rightarrow> r\<lparr>mreq_op := (if bad32 then MEM_NOP else MEM_SW), mreq_is_store := \<not> bad32,
         spans_cacheline := bad32, unaligned := bit w_agu32 0 \<or> bit w_agu32 1\<rparr>
     | OP_SC \<Rightarrow> r\<lparr>mreq_op := MEM_SC, mreq_is_store := True, mreq_dst_valid := True,
         spans_cacheline := bit w_agu32 0 \<or> bit w_agu32 1, unaligned := bit w_agu32 0 \<or> bit w_agu32 1\<rparr>
     | OP_LW \<Rightarrow> r\<lparr>mreq_is_load := True, mreq_op := (if bad32 then MEM_NOP else MEM_LW),
         mreq_dst_valid := dst_valid u, spans_cacheline := bad32,
         unaligned := bit w_agu32 0 \<or> bit w_agu32 1\<rparr>
     | OP_LB \<Rightarrow> r\<lparr>mreq_is_load := True, mreq_op := MEM_LB, mreq_dst_valid := dst_valid u\<rparr>
     | OP_LBU \<Rightarrow> r\<lparr>mreq_is_load := True, mreq_op := MEM_LBU, mreq_dst_valid := dst_valid u\<rparr>
     | OP_LHU \<Rightarrow> r\<lparr>mreq_is_load := True, mreq_op := MEM_LHU, mreq_dst_valid := dst_valid u,
         spans_cacheline := bit w_agu32 0, unaligned := bit w_agu32 0\<rparr>
     | OP_LH \<Rightarrow> r\<lparr>mreq_is_load := True, mreq_op := (if bad16 then MEM_NOP else MEM_LH),
         mreq_dst_valid := dst_valid u, spans_cacheline := bad16, unaligned := bit w_agu32 0\<rparr>
     | _ \<Rightarrow> r)"

text \<open>The line tests are the tests of the bounds of the access.\<close>

lemma low4: "unat (a :: u32) mod 16 = of_bool (bit a 0) + 2 * of_bool (bit a 1) + 4 * of_bool (bit a 2) + 8 * of_bool (bit a 3)"
proof -
  have "take_bit 4 (unat a) = 8 * of_bool (bit a 3) + (4 * of_bool (bit a 2) + (2 * of_bool (bit a 1) + of_bool (bit a 0)))"
    by (simp add: numeral_eq_Suc take_bit_Suc_from_most unsigned_bits)
  then show ?thesis by (simp add: take_bit_eq_mod)
qed

lemma bad_16b_iff: "w_bad_16b_addr a \<longleftrightarrow> unat a mod 16 + 2 > 16"
  by (simp add: low4 w_bad_16b_addr_def)

lemma bad_32b_iff: "w_bad_32b_addr a \<longleftrightarrow> unat a mod 16 + 4 > 16"
  by (auto simp add: low4 w_bad_32b_addr_def)

end
