(* ===== verification/Hw_Agreement.thy ===== *)
theory Hw_Agreement
  imports Hw_Ports Interpreter
begin

text \<open>
  The core against the simulator, one instruction at a time: \<open>decode_riscv.sv\<close> and the ports
  of \<open>exec.sv\<close> on one side, \<open>interpret.cc: execRiscv\<close> on the other. \<open>completes\<close> is what
  a micro-operation does to the architectural state when it retires with the outputs of a port.
\<close>

unbundle bit_operations_syntax

section \<open>Immediates\<close>

lemma imm_i_sext: "imm_i insn = sext_or insn 0xfffff000 (drop_bit 20 insn)"
  by (rule bit_word_eqI) (auto simp: imm_i_def copies31_def sext_or_alt bit_simps dest: bit_imp_le_length)

lemma imm_i_field: "imm_i insn = sext_or insn 0xfffff000 (ucast (field 20 insn :: 12 word))"
  by (simp add: imm_i_def copies31_def sext_or_alt place_def or.commute)

lemma imm_s_sext: "imm_s insn = sext_or insn 0xfffff000
    (ucast (field 7 insn :: u5) OR push_bit 5 (ucast (field 25 insn :: 7 word)))"
  by (simp add: imm_s_def copies31_def sext_or_alt place_def ac_simps)

lemma imm_u_mask: "imm_u insn = insn AND 0xfffff000"
proof -
  have "(0xfffff000 :: u32) = push_bit 12 (mask 20)" by (simp add: mask_eq_exp_minus_1 push_bit_eq_mult)
  then show ?thesis by (simp add: imm_u_def place_field)
qed

lemma imm_b_disp: "imm_b insn = push_bit 1 (ucast (field 8 insn :: 4 word)) OR
    push_bit 5 (ucast (field 25 insn :: 6 word)) OR push_bit 11 (ucast (field 7 insn :: 1 word)) OR
    push_bit 12 (ucast (field 31 insn :: 1 word)) OR (if (field 31 insn :: 1 word) \<noteq> 0 then 0xffffe000 else 0)"
proof -
  have "(field 31 insn :: 1 word) = 0 \<longleftrightarrow> \<not> bit insn 31"
    using one_bit_word [of "field 31 insn"] by (simp add: bit_simps)
  then show ?thesis by (simp add: imm_b_def copies31_def place_def ac_simps)
qed

lemma imm_j_disp: "imm_j insn = sext_or insn 0xffe00000 (push_bit 1 (ucast (field 21 insn :: 10 word)) OR
    push_bit 11 (ucast (field 20 insn :: 1 word)) OR push_bit 12 (ucast (field 12 insn :: u8)) OR
    push_bit 20 (ucast (field 31 insn :: 1 word)))"
  by (simp add: imm_j_def copies31_def sext_or_alt place_def ac_simps)

lemma t_imm_sel:
  "field 0 insn = (0x17 :: 7 word) \<Longrightarrow> t_imm insn = imm_u insn"
  "field 0 insn = (0x63 :: 7 word) \<Longrightarrow> t_imm insn = imm_b insn"
  "field 0 insn = (0x6f :: 7 word) \<Longrightarrow> t_imm insn = imm_j insn"
  by (simp_all add: t_imm_def)

section \<open>Fields\<close>

lemma ucast_dec [simp]: "(ucast (dec_rd insn) :: u5) = field 7 insn"
    "(ucast (dec_rs1 insn) :: u5) = field 15 insn" "(ucast (dec_rs2 insn) :: u5) = field 20 insn"
  by (rule bit_word_eqI; simp add: dec_rd_def dec_rs1_def dec_rs2_def bit_simps)+

lemma dec_rd_0 [simp]: "dec_rd insn = 0 \<longleftrightarrow> (field 7 insn :: u5) = 0"
  by (metis dec_rd_def ucast_dec(1) unsigned_0)

lemma f7_field: "drop_bit 25 insn AND 127 = (ucast (field 25 insn :: 7 word) :: u32)"
  by (rule bit_word_eqI) (auto simp: and_127 bit_simps dest: bit_imp_le_length)

lemma f7_values [simp]: "(ucast (x :: 7 word) :: u32) = 0 \<longleftrightarrow> x = 0" "(ucast x :: u32) = 32 \<longleftrightarrow> x = 0x20"
proof -
  have r: "ucast (ucast x :: u32) = x" by (rule bit_word_eqI) (simp add: bit_simps)
  show "(ucast x :: u32) = 0 \<longleftrightarrow> x = 0" by (metis r unsigned_0)
  show "(ucast x :: u32) = 32 \<longleftrightarrow> x = 0x20"
  proof
    assume "(ucast x :: u32) = 32"
    then have "ucast (ucast x :: u32) = (ucast (32 :: u32) :: 7 word)" by simp
    then show "x = 0x20" unfolding r by simp
  qed simp
qed

lemma shamt_field: "unat (ucast (imm_i insn) :: u5) = unat (drop_bit 20 insn AND 31)"
proof -
  have "take_bit 5 (imm_i insn) = take_bit 5 (drop_bit 20 insn)"
    by (rule bit_word_eqI) (auto simp: imm_i_sext sext_or_alt bit_simps dest: nat_less_5_cases)
  then have "take_bit 5 (unat (imm_i insn)) = unat (drop_bit 20 insn AND 31)"
    by (simp add: and_31 flip: unsigned_take_bit_eq)
  then show ?thesis by (simp add: unsigned_ucast_eq)
qed

text \<open>The low word of an extended value.\<close>

lemma index_31: "n < 32 \<Longrightarrow> 31 \<le> n \<Longrightarrow> n = (31 :: nat)"
  by simp

lemma low_word:
  "(ucast (scast (x :: u8) :: u64) :: u32) = scast x" "(ucast (scast (y :: u16) :: u64) :: u32) = scast y"
  "(ucast (scast (z :: u32) :: u64) :: u32) = z" "(ucast (ucast x :: u64) :: u32) = ucast x"
  "(ucast (ucast y :: u64) :: u32) = ucast y"
  by (rule bit_word_eqI, auto simp: bit_simps min_def dest!: index_31)+

section \<open>One operation\<close>

text \<open>
  The register is written when the port drives a result and the decoder named a destination; the
  next program counter is the port's for a branch or jump and the fall-through otherwise. The
  operations \<open>core.sv\<close> folds do not reach a port: a no-operation advances the program counter,
  a direct jump goes to the target the decoder computed.
\<close>

definition retires :: "uop_t \<Rightarrow> port_out \<Rightarrow> state_t \<Rightarrow> state_t" where
  "retires u p s =
    (if t_wr_int_prf p \<and> dst_valid u then set_gpr s (ucast (dst u)) (t_result p) else s)
      \<lparr>pc := if is_br u then t_pc p else pc s + 4\<rparr>"

definition completes :: "uop_t \<Rightarrow> port_out \<Rightarrow> state_t \<Rightarrow> state_t" where
  "completes u p s = (if uop_op u = OP_NOP then next_pc s
     else if uop_op u = OP_J then s\<lparr>pc := rvimm u\<rparr>
     else retires u p s)"

text \<open>The operands a port reads: the registers the decoder names.\<close>

definition on_port :: "hw_counters \<Rightarrow> uop_t \<Rightarrow> state_t \<Rightarrow> port_out" where
  "on_port cnt u s = port1 True cnt u (gpr s (ucast (srcA u))) (gpr s (ucast (srcB u)))"

definition one_step :: "uop_t \<Rightarrow> bool" where
  "one_step u \<longleftrightarrow> uop_op u \<noteq> OP_II \<and> \<not> uses_mul (uop_op u) \<and> \<not> uses_div (uop_op u)"

text \<open>
  \<open>matches c insn s u\<close>: a micro-operation of one step has the effect the simulator gives
  \<open>insn\<close>. The core leaves bit 0 of the target of an indirect jump; the simulator clears it.
\<close>

definition sim_pc :: "u32 \<Rightarrow> state_t \<Rightarrow> state_t" where
  "sim_pc insn s = (if field 0 insn = (0x67 :: 7 word) then s\<lparr>pc := pc s AND NOT 1\<rparr> else s)"

definition matches :: "hw_counters \<Rightarrow> u32 \<Rightarrow> state_t \<Rightarrow> uop_t \<Rightarrow> bool" where
  "matches cnt insn s u \<longleftrightarrow> (one_step u \<longrightarrow>
     exec_insn insn s = Inr (sim_pc insn (completes u (on_port cnt u s) s)) \<and>
     (fold_uop u \<or> t_alu_valid (on_port cnt u s) \<and> \<not> t_unimp_op (on_port cnt u s)))"

lemma matches_if: "(c \<Longrightarrow> matches cnt insn s a) \<Longrightarrow> (\<not> c \<Longrightarrow> matches cnt insn s b) \<Longrightarrow>
    matches cnt insn s (if c then a else b)"
  by simp

lemma exec_insn_sel:
  "field 0 insn = (0x13 :: 7 word) \<Longrightarrow> exec_insn insn s = exec_opimm insn s"
  "field 0 insn = (0x17 :: 7 word) \<Longrightarrow> exec_insn insn s = exec_auipc insn s"
  "field 0 insn = (0x33 :: 7 word) \<Longrightarrow> exec_insn insn s = exec_op insn s"
  "field 0 insn = (0x37 :: 7 word) \<Longrightarrow> exec_insn insn s = exec_lui insn s"
  "field 0 insn = (0x63 :: 7 word) \<Longrightarrow> exec_insn insn s = exec_branch insn s"
  "field 0 insn = (0x67 :: 7 word) \<Longrightarrow> exec_insn insn s = exec_jalr insn s"
  "field 0 insn = (0x6f :: 7 word) \<Longrightarrow> exec_insn insn s = exec_jal insn s"
  "field 0 insn = (0x3 :: 7 word) \<Longrightarrow> exec_insn insn s = exec_load insn s"
  "field 0 insn = (0xf :: 7 word) \<Longrightarrow> exec_insn insn s = exec_fence s"
  "field 0 insn = (0x23 :: 7 word) \<Longrightarrow> exec_insn insn s = exec_store insn s"
  "field 0 insn = (0x73 :: 7 word) \<Longrightarrow> exec_insn insn s = exec_system insn s"
  by (simp_all add: exec_insn_def Let_def opcode_of_eq_field)

lemma sim_pc_sel:
  "field 0 insn \<in> {0x13, 0x17, 0x33, 0x37, 0x63, 0x6f :: 7 word} \<Longrightarrow> sim_pc insn s = s"
  "field 0 insn = (0x67 :: 7 word) \<Longrightarrow> sim_pc insn s = s\<lparr>pc := pc s AND NOT 1\<rparr>"
  by (auto simp: sim_pc_def)

lemmas port_sel = on_port_def port1_def Let_def writes_def port_branch_def port_indirect_def
  port_default_def fold_uop_def completes_def retires_def one_step_def uses_mul_def uses_div_def
  sim_pc_sel

lemmas port_simps = matches_def exec_insn_sel port_sel port_eqs unless_x0_def view_defs
  shift_right_spec word_sless_alt word_sle_eq next_pc_def set_gpr_def uop_default_def

lemma matches_opimm: "field 0 insn = (0x13 :: 7 word) \<Longrightarrow> matches cnt insn s (dec_opimm insn (uop_default f))"
  unfolding dec_opimm_def Let_def
  by (intro matches_if; simp add: port_simps exec_opimm_def opimm_result_def imm_i_sext [symmetric] shamt_field f7_field)

lemma unat_and_31: "unat (x AND 31 :: u32) = unat (ucast x :: u5)"
  by (simp add: and_31 unsigned_ucast_eq unsigned_take_bit_eq)

lemma matches_op: "field 0 insn = (0x33 :: 7 word) \<Longrightarrow> matches cnt insn s (dec_op insn (uop_default f))"
  unfolding dec_op_def Let_def
  by (intro matches_if; simp add: port_simps exec_op_def op_result_def unat_and_31)

lemma imm_u_not: "imm_u insn = insn AND NOT 4095"
proof -
  have "NOT 4095 = (0xfffff000 :: u32)" by simp
  then show ?thesis by (simp only: imm_u_mask)
qed

lemma matches_lui: "field 0 insn = (0x37 :: 7 word) \<Longrightarrow> matches cnt insn s (dec_lui insn (uop_default f))"
  by (simp add: dec_lui_def port_simps exec_lui_def imm_u_mask)

lemma matches_auipc: "field 0 insn = (0x17 :: 7 word) \<Longrightarrow> pc s = f_pc f \<Longrightarrow>
    matches cnt insn s (dec_auipc insn (f_pc f + t_imm insn) (uop_default f))"
  by (simp add: dec_auipc_def port_simps exec_auipc_def imm_u_not t_imm_sel)

lemma exec_branch_imm: "exec_branch insn s =
    bind_r (take_branch (field 12 insn) (gpr s (field 15 insn)) (gpr s (field 20 insn)))
      (\<lambda>t. Inr (s\<lparr>pc := if t then pc s + imm_b insn else pc s + 4\<rparr>))"
  unfolding exec_branch_def Let_def imm_b_disp by (simp add: branch_of_def add.commute or.assoc cong: if_cong)

lemma branch_sel [case_names beq bne blt bge bltu bgeu bad]:
  fixes sel :: "3 word"
  obtains "sel = 0" | "sel = 1" | "sel = 4" | "sel = 5" | "sel = 6" | "sel = 7"
    | "sel \<notin> {0, 1, 4, 5, 6, 7}"
  by blast

lemma matches_branch: "field 0 insn = (0x63 :: 7 word) \<Longrightarrow> pc s = f_pc f \<Longrightarrow>
    matches cnt insn s (dec_branch insn pred (f_pc f + t_imm insn) (uop_default f))"
  unfolding dec_branch_def Let_def
  by (rule branch_sel [of "field 12 insn"];
      simp add: port_simps exec_branch_imm take_branch_def t_imm_sel not_less add.commute)

lemma matches_jalr: "field 0 insn = (0x67 :: 7 word) \<Longrightarrow> pc s = f_pc f \<Longrightarrow>
    matches cnt insn s (dec_jalr insn t (uop_default f))"
  by (simp add: dec_jalr_def port_simps exec_jalr_def imm_i_field [symmetric] add.commute)

lemma exec_jal_imm: "exec_jal insn s =
    Inr ((if field 7 insn \<noteq> (0 :: u5) then set_gpr s (field 7 insn) (pc s + 4) else s)\<lparr>pc := pc s + imm_j insn\<rparr>)"
  unfolding exec_jal_def Let_def imm_j_disp by (simp add: jal_of_def)

lemma matches_jal: "field 0 insn = (0x6f :: 7 word) \<Longrightarrow> pc s = f_pc f \<Longrightarrow>
    matches cnt insn s (dec_jal insn (f_pc f + t_imm insn) (uop_default f))"
  by (simp add: dec_jal_def port_simps exec_jal_imm t_imm_sel)

lemma matches_fence: "field 0 insn = (0xf :: 7 word) \<Longrightarrow> matches cnt insn s ((uop_default f)\<lparr>uop_op := OP_NOP\<rparr>)"
  by (simp add: matches_def completes_def fold_uop_def sim_pc_def exec_insn_def opcode_of_eq_field exec_fence_def)

text \<open>The opcodes of the integer ports, and the fence.\<close>

definition integer_op :: "u32 \<Rightarrow> bool" where
  "integer_op insn \<longleftrightarrow> field 0 insn \<in> {0xf, 0x13, 0x17, 0x33, 0x37, 0x63, 0x67, 0x6f :: 7 word}"

lemma decode_matches: "integer_op insn \<Longrightarrow> pc s = f_pc f \<Longrightarrow> matches cnt insn s (decode_riscv insn f)"
  by (cases insn f rule: decode_cases)
    (simp_all only: matches_opimm matches_op matches_lui matches_auipc matches_branch matches_jalr matches_jal
      matches_fence, simp_all add: integer_op_def)

text \<open>
  C3. A micro-operation of one step (no multiplication or division) that the decoder accepts has, on
  the operands the decoder names, the effect the simulator gives the instruction: the same
  register, the same value, the same next program counter, up to bit 0 of an indirect target.
\<close>

theorem core_matches_simulator:
  assumes "integer_op insn" and "pc s = f_pc f" and "u = decode_riscv insn f" and "one_step u"
  shows "exec_insn insn s = Inr (sim_pc insn (completes u (on_port cnt u s) s)) \<and>
    (fold_uop u \<or> t_alu_valid (on_port cnt u s) \<and> \<not> t_unimp_op (on_port cnt u s))"
  using decode_matches [of insn s f cnt] assms unfolding matches_def by simp

text \<open>\<open>blt x1, x2, +8\<close> at 0x100 with \<open>x1 = -1\<close> and \<open>x2 = 0\<close>: taken.\<close>

lemma core_matches_simulator_witness:
  "let s = (set_gpr initState 1 (- 1))\<lparr>pc := 0x100\<rparr>;
       f = \<lparr>f_pc = 0x100, insn_pred = False, f_pht_idx = 0, insn_pred_target = 0, f_fetch_cycle = 0\<rparr>;
       cnt = \<lparr>r_cycle = 0, r_retired_insns = 0, r_branches = 0, r_branch_faults = 0\<rparr>;
       u = decode_riscv 0x0020c463 f
   in exec_insn 0x0020c463 s = Inr (completes u (on_port cnt u s) s) \<and>
      pc (completes u (on_port cnt u s) s) = 0x108 \<and> t_mispred_br (on_port cnt u s)"
  using core_matches_simulator
    [of "0x0020c463" "(set_gpr initState 1 (- 1))\<lparr>pc := 0x100\<rparr>"
      "\<lparr>f_pc = 0x100, insn_pred = False, f_pht_idx = 0, insn_pred_target = 0, f_fetch_cycle = 0\<rparr>"
      "decode_riscv 0x0020c463 \<lparr>f_pc = 0x100, insn_pred = False, f_pht_idx = 0, insn_pred_target = 0, f_fetch_cycle = 0\<rparr>"
      "\<lparr>r_cycle = 0, r_retired_insns = 0, r_branches = 0, r_branch_faults = 0\<rparr>"]
  by (simp add: Let_def integer_op_def field_def decode_riscv_def dec_branch_def port_sel sim_pc_def w_AltB_def
     dec_rs1_def dec_rs2_def t_imm_def imm_b_def copies31_def place_def uop_default_def initState_def set_gpr_def)

section \<open>Instructions the decoder rejects\<close>

lemma load_not_failed: "load n m a \<noteq> Inl Assert_failed" "load n m a \<noteq> Inl (Exit_called k)"
    "store n m a w \<noteq> Inl Assert_failed" "store n m a w \<noteq> Inl (Exit_called k)"
  by (simp_all add: load_def store_def)

text \<open>The simulator stops on the word: a failed assertion or its \<open>exit(-1)\<close>.\<close>

definition rejected :: "failure + state_t \<Rightarrow> bool" where
  "rejected r \<longleftrightarrow> r = Inl Assert_failed \<or> r = Inl (Exit_called (- 1))"

lemma rejected_bind: "rejected (bind_r x f) \<longleftrightarrow>
    x = Inl Assert_failed \<or> x = Inl (Exit_called (- 1)) \<or> (\<exists>a. x = Inr a \<and> rejected (f a))"
  by (cases x) (auto simp: rejected_def)

lemma rejected_simps [simp]: "\<not> rejected (Inr s)" "rejected (Inl Assert_failed)" "rejected (Inl (Exit_called (- 1)))"
    "\<not> rejected (Inl Div_trap)" "\<not> rejected (Inl (Bad_access a))"
  by (simp_all add: rejected_def)

definition spares_x0 :: "u32 \<Rightarrow> bool" where
  "spares_x0 insn \<longleftrightarrow> field 0 insn \<in> {0x3, 0x13, 0x33 :: 7 word} \<and> field 7 insn = (0 :: u5)"


lemma rejects_if: "(c \<Longrightarrow> (uop_op a = OP_II) = R) \<Longrightarrow> (\<not> c \<Longrightarrow> (uop_op b = OP_II) = R) \<Longrightarrow>
    (uop_op (if c then a else b) = OP_II) = R"
  by simp

lemma rejected_opimm: "field 7 insn \<noteq> (0 :: u5) \<Longrightarrow> uop_op (dec_opimm insn (uop_default f)) = OP_II \<longleftrightarrow> rejected (exec_opimm insn s)"
  unfolding dec_opimm_def Let_def
  by (intro rejects_if; simp add: exec_opimm_def Let_def opimm_result_def unless_x0_def view_defs f7_field)

lemma rejected_op: "field 7 insn \<noteq> (0 :: u5) \<Longrightarrow> uop_op (dec_op insn (uop_default f)) = OP_II \<longleftrightarrow> rejected (exec_op insn s)"
  unfolding dec_op_def Let_def
  by (intro rejects_if; simp add: exec_op_def Let_def op_result_def unless_x0_def view_defs)

lemma rejected_load: "field 7 insn \<noteq> (0 :: u5) \<Longrightarrow> uop_op (dec_load insn (uop_default f)) = OP_II \<longleftrightarrow> rejected (exec_load insn s)"
  by (simp add: dec_load_def exec_load_def Let_def view_defs rejected_bind load_not_failed)

lemma rejected_store: "uop_op (dec_store insn (uop_default f)) = OP_II \<longleftrightarrow> rejected (exec_store insn s)"
  by (simp add: dec_store_def exec_store_def Let_def view_defs rejected_bind load_not_failed)

lemma rejected_branch: "uop_op (dec_branch insn p t (uop_default f)) = OP_II \<longleftrightarrow> rejected (exec_branch insn s)"
  by (simp add: dec_branch_def exec_branch_imm Let_def take_branch_def)

lemma rejected_rest:
  "uop_op (dec_auipc insn t (uop_default f)) \<noteq> OP_II" "\<not> rejected (exec_auipc insn s)"
  "uop_op (dec_lui insn (uop_default f)) \<noteq> OP_II" "\<not> rejected (exec_lui insn s)"
  "uop_op (dec_jalr insn t (uop_default f)) \<noteq> OP_II" "\<not> rejected (exec_jalr insn s)"
  "uop_op (dec_jal insn t (uop_default f)) \<noteq> OP_II" "\<not> rejected (exec_jal insn s)"
  "uop_op (dec_system insn (uop_default f)) \<noteq> OP_II" "\<not> rejected (exec_system insn s)"
  by (simp_all add: dec_defs Let_def exec_auipc_def exec_lui_def exec_jalr_def exec_jal_def exec_system_def)

lemma x0_not_rejected: "field 7 insn = (0 :: u5) \<Longrightarrow> \<not> rejected (exec_opimm insn s)"
    "field 7 insn = (0 :: u5) \<Longrightarrow> \<not> rejected (exec_op insn s)"
    "field 7 insn = (0 :: u5) \<Longrightarrow> \<not> rejected (exec_load insn s)"
  by (simp_all add: exec_opimm_def exec_op_def exec_load_def exec_fence_def view_defs)

lemma field_of_opcode: "field 0 insn = (ucast (opcode_of insn) :: 7 word)"
  by (rule bit_word_eqI) (simp add: opcode_of_eq_field bit_simps)

lemma exec_insn_bad:
  assumes "field 0 insn \<notin> {0x3, 0xf, 0x13, 0x17, 0x23, 0x33, 0x37, 0x63, 0x67, 0x6f, 0x73 :: 7 word}"
  shows "exec_insn insn s = Inl (Exit_called (- 1))"
  using assms by (cases insn s rule: exec_insn_cases) (simp_all add: field_of_opcode)

text \<open>
  C28. The decoder and the simulator reject the same words: the core raises an illegal instruction
  where the simulator stops, except for malformed loads and arithmetic with destination x0,
  which the simulator executes as no-operations.
\<close>

theorem decoder_rejects:
  "rejected (exec_insn insn s) \<longleftrightarrow> uop_op (decode_riscv insn f) = OP_II \<and> \<not> spares_x0 insn"
proof (cases "field 7 insn = (0 :: u5)")
  case True
  then show ?thesis
    by (cases insn f rule: decode_cases)
      (simp_all add: spares_x0_def exec_insn_sel exec_fence_def x0_not_rejected rejected_rest
        rejected_branch [symmetric] rejected_store [symmetric] exec_insn_bad)
next
  case False
  then show ?thesis
    by (cases insn f rule: decode_cases)
      (simp_all add: spares_x0_def exec_insn_sel exec_fence_def rejected_rest exec_insn_bad
        rejected_opimm [of insn f s] rejected_op [of insn f s] rejected_load [of insn f s]
        rejected_store [of insn f s] rejected_branch [of insn _ _ f s])
qed

section \<open>Predecoding\<close>

lemma dec_rs1_link: "is_link (dec_rs1 insn) \<longleftrightarrow> field 15 insn = (1 :: u5) \<or> field 15 insn = (5 :: u5)"
proof
  assume "is_link (dec_rs1 insn)"
  then show "field 15 insn = (1 :: u5) \<or> field 15 insn = (5 :: u5)"
    using ucast_dec(2) [of insn] by (auto simp: is_link_def simp del: ucast_dec)
qed (auto simp: is_link_def dec_rs1_def)

definition jumps :: "opcode_t set" where
  "jumps = {OP_RET, OP_JR, OP_JALR, OP_J, OP_JAL}"

definition no_jump :: "uop_t \<Rightarrow> bool" where
  "no_jump u \<longleftrightarrow> \<not> is_br u \<and> uop_op u \<notin> jumps"

lemma no_jump_if: "no_jump a \<Longrightarrow> no_jump b \<Longrightarrow> no_jump (if c then a else b)"
  by simp

lemma no_jump_classes:
  "no_jump (dec_opimm insn (uop_default f))" "no_jump (dec_op insn (uop_default f))"
  unfolding dec_opimm_def dec_op_def Let_def
  by (intro no_jump_if; simp add: no_jump_def jumps_def unless_x0_def)+

lemma no_jump_rest: "no_jump (uop_default f)" "no_jump ((uop_default f)\<lparr>uop_op := OP_NOP\<rparr>)"
  "no_jump (dec_load insn (uop_default f))" "no_jump (dec_store insn (uop_default f))"
  "no_jump (dec_auipc insn t (uop_default f))" "no_jump (dec_lui insn (uop_default f))"
  "no_jump (dec_system insn (uop_default f))"
  by (simp_all add: no_jump_def jumps_def dec_defs Let_def)

text \<open>The kind of jump the fetch stage is told agrees with what is decoded later.\<close>

theorem predecode_agrees:
  "let u = decode_riscv insn f; pd = predecode insn
   in (pd \<noteq> 0 \<longleftrightarrow> is_br u) \<and> (pd = 2 \<longleftrightarrow> uop_op u = OP_RET) \<and> (pd = 4 \<longleftrightarrow> uop_op u = OP_JR) \<and>
      (pd = 6 \<longleftrightarrow> uop_op u = OP_JALR) \<and> (pd = 3 \<or> pd = 5 \<longleftrightarrow> uop_op u \<in> {OP_J, OP_JAL})"
proof (cases insn f rule: decode_cases)
  case branch
  then show ?thesis by (simp add: predecode_def dec_branch_def Let_def)
next
  case jalr
  then show ?thesis by (simp add: predecode_def dec_jalr_def Let_def dec_rs1_link)
next
  case jal
  then show ?thesis by (simp add: predecode_def dec_jal_def Let_def)
qed (use no_jump_classes no_jump_rest in \<open>simp_all add: predecode_def Let_def no_jump_def jumps_def\<close>)

end
