(* ===== verification/Hw_Line.thy ===== *)
theory Hw_Line
  imports Hw_Agreement
begin

text \<open>
  What the data cache does to one 16-byte line (\<open>l1d.sv\<close>, the data array of \<open>ram1r1w.sv\<close>):
  the value a load answers, the line a store forwards to a request that follows at once, and the
  bytes it writes to the array. With the decoder and the address generation before it, this is
  the effect of a load or store on registers and memory, compared with the simulator's. Which
  line is in the array, misses and retries are the cache's control, which is not modelled.
\<close>

unbundle bit_operations_syntax

type_synonym line = "128 word"

section \<open>The data path\<close>

text \<open>\<open>{r_req.addr[3:0], 3'd0}\<close>.\<close>

definition line_shift :: "u32 \<Rightarrow> nat" where
  "line_shift addr = unat (push_bit 3 (ucast (ucast addr :: 4 word)) :: 7 word)"

text \<open>\<open>{{56{t_shift[7]}}, t_shift[7:0]}\<close> is the sign extension of the low byte.\<close>

definition t_rsp_data :: "mem_op_t \<Rightarrow> line \<Rightarrow> u32 \<Rightarrow> u64" where
  "t_rsp_data op t_data addr =
    (let t_shift = drop_bit (line_shift addr) t_data in
     case op of
       MEM_LB \<Rightarrow> scast (ucast t_shift :: u8)
     | MEM_LBU \<Rightarrow> ucast (ucast t_shift :: u8)
     | MEM_LH \<Rightarrow> scast (ucast t_shift :: u16)
     | MEM_LHU \<Rightarrow> ucast (ucast t_shift :: u16)
     | MEM_LW \<Rightarrow> scast (ucast t_shift :: u32)
     | MEM_SC \<Rightarrow> 1
     | _ \<Rightarrow> 0)"

definition w_store_mask :: "mem_op_t \<Rightarrow> u32" where
  "w_store_mask op = (if op = MEM_SB then 0xff else if op = MEM_SH then 0xffff
     else if op = MEM_SW then 0xffffffff else 0)"

definition t_store_shift :: "u32 \<Rightarrow> u32 \<Rightarrow> line" where
  "t_store_shift addr dat = push_bit (line_shift addr) (ucast dat)"

definition t_store_mask :: "mem_op_t \<Rightarrow> u32 \<Rightarrow> line" where
  "t_store_mask op addr = push_bit (line_shift addr) (ucast (w_store_mask op))"

definition t_array_data :: "mem_op_t \<Rightarrow> line \<Rightarrow> u32 \<Rightarrow> u32 \<Rightarrow> line" where
  "t_array_data op t_data addr dat =
    (if op \<in> {MEM_SB, MEM_SH, MEM_SW, MEM_SC} then
       (t_store_shift addr dat AND t_store_mask op addr) OR (NOT (t_store_mask op addr) AND t_data)
     else 0)"

text \<open>The array takes the bytes whose enable is set.\<close>

definition w_store_byte_en :: "mem_op_t \<Rightarrow> u32 \<Rightarrow> nat \<Rightarrow> bool" where
  "w_store_byte_en op addr i = bit (t_store_mask op addr) (i * 8)"

definition line_byte :: "line \<Rightarrow> nat \<Rightarrow> u8" where
  "line_byte l i = ucast (drop_bit (8 * i) l)"

definition ram_write :: "(nat \<Rightarrow> bool) \<Rightarrow> line \<Rightarrow> line \<Rightarrow> line" where
  "ram_write wr_byte_en wr_data old =
    le_word (map (\<lambda>i. if wr_byte_en i then line_byte wr_data i else line_byte old i) [0..<16])"

section \<open>Lines of memory\<close>

definition line_base :: "u32 \<Rightarrow> nat" where
  "line_base a = 16 * (unat a div 16)"

definition line_at :: "mem \<Rightarrow> u32 \<Rightarrow> line" where
  "line_at m a = le_word (read_bytes m (line_base a) 16)"

definition put_line :: "mem \<Rightarrow> u32 \<Rightarrow> line \<Rightarrow> mem" where
  "put_line m a l = write_bytes m (line_base a) (le_bytes 16 l)"

lemma line_shift_eq: "line_shift a = 8 * (unat a mod 16)"
proof -
  let ?w = "ucast (ucast a :: 4 word) :: 7 word"
  have "unat ?w = take_bit 7 (take_bit 4 (unat a))" by (simp add: unsigned_take_bit_eq unsigned_ucast_eq take_bit_take_bit)
  then have w: "unat ?w = unat a mod 16" by (simp add: take_bit_eq_mod)
  have "unat (push_bit 3 ?w) = take_bit 7 (push_bit 3 (unat ?w))" by (simp add: unsigned_push_bit_eq)
  also have "\<dots> = 8 * (unat a mod 16)"
    unfolding w push_bit_eq_mult by (subst take_bit_nat_eq_self) simp_all
  finally show ?thesis by (simp only: line_shift_def)
qed

lemma line_base_le: "line_base a \<le> unat a" "unat a = line_base a + unat a mod 16"
  by (simp_all add: line_base_def)

lemma bit_line_at: "bit (line_at m a) k \<longleftrightarrow> k < 128 \<and> bit (m (line_base a + k div 8)) (k mod 8)"
  by (auto simp: line_at_def bit_le_word_iff read_bytes_nth)

text \<open>A field of the shifted line is the little-endian word at the address, when it fits.\<close>

lemma line_field:
  assumes "LENGTH('a) = 8 * n" and "unat a mod 16 + n \<le> 16"
  shows "(ucast (drop_bit (line_shift a) (line_at m a)) :: 'a::len word) = le_word (read_bytes m (unat a) n)"
proof (rule bit_word_eqI)
  fix k assume k: "k < LENGTH('a)"
  have d: "(8 * (unat a mod 16) + k) div 8 = unat a mod 16 + k div 8" "(8 * (unat a mod 16) + k) mod 8 = k mod 8"
    by simp_all
  from k assms have "8 * (unat a mod 16) + k < 128" "k div 8 < n" by auto
  with k assms show "bit (ucast (drop_bit (line_shift a) (line_at m a)) :: 'a word) k =
      bit (le_word (read_bytes m (unat a) n) :: 'a word) k"
    by (simp add: bit_simps line_shift_eq bit_line_at d bit_le_word_iff read_bytes_nth add.assoc [symmetric]
        line_base_le(2) [symmetric] del: div_mult_self1 mod_mult_self1)
qed

section \<open>Stores\<close>

definition store_width :: "mem_op_t \<Rightarrow> nat" where
  "store_width op = (if op = MEM_SB then 1 else if op = MEM_SH then 2 else if op = MEM_SW then 4 else 0)"

lemma w_store_mask_eq: "w_store_mask op = mask (8 * store_width op)"
  by (simp add: w_store_mask_def store_width_def mask_eq_exp_minus_1)

lemma bit_t_store_mask: "bit (t_store_mask op a) k \<longleftrightarrow>
    8 * (unat a mod 16) \<le> k \<and> k < 8 * (unat a mod 16 + store_width op) \<and> k < 128"
  by (auto simp: t_store_mask_def w_store_mask_eq line_shift_eq bit_simps store_width_def)

lemma bit_t_array_data: "op \<in> {MEM_SB, MEM_SH, MEM_SW, MEM_SC} \<Longrightarrow> k < 128 \<Longrightarrow>
    bit (t_array_data op l a x) k \<longleftrightarrow>
      (if 8 * (unat a mod 16) \<le> k \<and> k < 8 * (unat a mod 16 + store_width op)
       then bit x (k - 8 * (unat a mod 16)) else bit l k)"
  by (auto simp: t_array_data_def t_store_shift_def bit_t_store_mask line_shift_eq bit_and_iff bit_or_iff
      bit_not_iff bit_push_bit_iff bit_ucast_iff dest: bit_imp_le_length)

lemma in_byte: "b < 8 \<Longrightarrow> 8 * o1 \<le> 8 * j + b \<and> 8 * j + b < 8 * (o1 + n) \<longleftrightarrow> o1 \<le> j \<and> j < o1 + (n :: nat)"
  by auto

text \<open>The array holds, after a store, what the store forwards.\<close>

lemma byte_enable: "k < 128 \<Longrightarrow> k div 8 < 16 \<Longrightarrow> w_store_byte_en op a (k div 8) \<longleftrightarrow> bit (t_store_mask op a) k"
  using in_byte [of "k mod 8" "unat a mod 16" "k div 8" "store_width op"]
    in_byte [of 0 "unat a mod 16" "k div 8" "store_width op"]
  by (simp add: w_store_byte_en_def bit_t_store_mask mult.commute [of _ 8])

lemma array_is_forwarded:
  assumes "op \<in> {MEM_SB, MEM_SH, MEM_SW, MEM_SC}"
  shows "ram_write (w_store_byte_en op a) (t_store_shift a x) old = t_array_data op old a x"
proof (rule bit_word_eqI)
  fix k assume "k < LENGTH(128)"
  then have k: "k < 128" "k div 8 < 16" "8 * (k div 8) + k mod 8 = k" by auto
  then have "bit (ram_write (w_store_byte_en op a) (t_store_shift a x) old) k \<longleftrightarrow>
      (if bit (t_store_mask op a) k then bit (t_store_shift a x) k else bit old k)"
    by (simp add: ram_write_def bit_le_word_iff line_byte_def bit_ucast_iff bit_drop_bit_eq byte_enable)
  also have "\<dots> = bit (t_array_data op old a x) k"
    using assms k by (auto simp: t_array_data_def bit_and_iff bit_or_iff bit_not_iff)
  finally show "bit (ram_write (w_store_byte_en op a) (t_store_shift a x) old) k = bit (t_array_data op old a x) k" .
qed

lemma put_line_eq:
  assumes bits: "\<And>k. k < 128 \<Longrightarrow> bit l k \<longleftrightarrow> (if 8 * (unat a mod 16) \<le> k \<and> k < 8 * (unat a mod 16 + n)
      then bit x (k - 8 * (unat a mod 16)) else bit (line_at m a) k)"
    and fits: "unat a mod 16 + n \<le> 16"
  shows "put_line m a l = write_bytes m (unat a) (le_bytes n (x :: u32))"
proof
  fix i
  let ?o = "unat a mod 16"
  have a: "unat a = line_base a + ?o" by (rule line_base_le)
  show "put_line m a l i = write_bytes m (unat a) (le_bytes n x) i"
  proof (cases "line_base a \<le> i \<and> i < line_base a + 16")
    case False
    with a fits have "i < unat a \<or> unat a + n \<le> i" by linarith
    with False show ?thesis by (auto simp: put_line_def write_bytes_out not_le not_less)
  next
    case True
    then obtain j where j: "i = line_base a + j" "j < 16" by (metis add_less_cancel_left le_Suc_ex)
    have here: "unat a \<le> i \<and> i < unat a + n \<longleftrightarrow> ?o \<le> j \<and> j < ?o + n" using a j by linarith
    have "ucast (drop_bit (8 * j) l) = (if ?o \<le> j \<and> j < ?o + n then ucast (drop_bit (8 * (j - ?o)) x) else m i)"
    proof (rule bit_word_eqI)
      fix b assume "b < LENGTH(8)"
      then have b: "b < 8" by simp
      then have "8 * j + b < 128" "(8 * j + b) div 8 = j" "(8 * j + b) mod 8 = b" using j by auto
      with b in_byte [OF b, of ?o j n] bits [of "8 * j + b"] j(1)
      show "bit (ucast (drop_bit (8 * j) l) :: u8) b =
          bit (if ?o \<le> j \<and> j < ?o + n then ucast (drop_bit (8 * (j - ?o)) x) else m i) b"
        by (auto simp: bit_ucast_iff bit_drop_bit_eq bit_line_at diff_mult_distrib2 algebra_simps
            simp del: mult_Suc_right)
    qed
    moreover have "line_base a + j - unat a = j - ?o" using a by linarith
    ultimately show ?thesis using True here j
      by (auto simp: put_line_def write_bytes_def le_bytes_nth diff_add_inverse)
  qed
qed

section \<open>Loads and stores against the simulator\<close>

text \<open>
  The effect of a request on a line that is in the cache: a store replaces the line, a load
  answers the low half of \<open>t_rsp_data\<close> to its destination, when it has one.
\<close>

definition mem_completes :: "mem_req_t \<Rightarrow> u32 \<Rightarrow> state_t \<Rightarrow> state_t" where
  "mem_completes r dat s =
    (let l = line_at (mem s) (mreq_addr r) in
     next_pc (if mreq_is_store r
        then s\<lparr>mem := put_line (mem s) (mreq_addr r) (t_array_data (mreq_op r) l (mreq_addr r) dat)\<rparr>
      else if mreq_dst_valid r
        then set_gpr s (ucast (dst_ptr r)) (ucast (t_rsp_data (mreq_op r) l (mreq_addr r)))
      else s))"

lemma line_in_mem: "unat (a :: u32) mod 16 + n \<le> 16 \<Longrightarrow> in_mem (unat a) n"
proof -
  assume fits: "unat a mod 16 + n \<le> 16"
  have "unat a < 16 * 2 ^ 28" using unsigned_less [of a, where ?'a = nat] by simp
  then have "unat a div 16 < 2 ^ 28" by (rule less_mult_imp_div_less [of _ _ 16, unfolded mult.commute [of _ 16]])
  then have "16 * (unat a div 16) + 16 \<le> 4294967296" by simp
  moreover have "unat a = 16 * (unat a div 16) + unat a mod 16" by simp
  ultimately show ?thesis unfolding in_mem_def mem_size_val using fits by linarith
qed

lemma le_bytes_ucast: "8 * n \<le> LENGTH('b::len) \<Longrightarrow> le_bytes n (ucast (x :: 'a::len word) :: 'b word) = le_bytes n x"
proof (rule nth_equalityI)
  fix i assume n: "8 * n \<le> LENGTH('b)" and i: "i < length (le_bytes n (ucast x :: 'b word))"
  show "le_bytes n (ucast x :: 'b word) ! i = le_bytes n x ! i"
  proof (rule bit_word_eqI)
    fix b assume "b < LENGTH(8)"
    with n i show "bit (le_bytes n (ucast x :: 'b word) ! i) b = bit (le_bytes n x ! i) b"
      by (simp add: le_bytes_nth bit_simps)
  qed
qed simp

text \<open>What the decoder and the address generation ask for, operation by operation.\<close>

definition is_memory :: "u32 \<Rightarrow> bool" where
  "is_memory insn \<longleftrightarrow> field 0 insn \<in> {0x3, 0x23 :: 7 word}"

definition on_memory :: "uop_t \<Rightarrow> state_t \<Rightarrow> mem_req_t" where
  "on_memory u s = mem_tail u (gpr s (ucast (srcA u)))"

lemma store_completes:
  assumes "op \<in> {MEM_SB, MEM_SH, MEM_SW}" and "unat a mod 16 + store_width op \<le> 16"
  shows "put_line m a (t_array_data op (line_at m a) a x) = write_bytes m (unat a) (le_bytes (store_width op) x)"
  using assms by (intro put_line_eq) (auto simp: bit_t_array_data)

lemma odd_16: "\<not> bit (a :: u32) 0 \<Longrightarrow> unat a mod 16 \<le> 14"
  by (simp add: low4)

lemma mem_tail_store:
  "uop_op u = OP_SB \<Longrightarrow> mem_completes (mem_tail u A) x s = next_pc (s\<lparr>mem := write_bytes (mem s) (unat (A + rvimm u)) (le_bytes 1 x)\<rparr>)"
  "uop_op u = OP_SH \<Longrightarrow> \<not> spans_cacheline (mem_tail u A) \<Longrightarrow>
     mem_completes (mem_tail u A) x s = next_pc (s\<lparr>mem := write_bytes (mem s) (unat (A + rvimm u)) (le_bytes 2 x)\<rparr>)"
  "uop_op u = OP_SW \<Longrightarrow> \<not> spans_cacheline (mem_tail u A) \<Longrightarrow>
     mem_completes (mem_tail u A) x s = next_pc (s\<lparr>mem := write_bytes (mem s) (unat (A + rvimm u)) (le_bytes 4 x)\<rparr>)"
  by (simp_all add: mem_tail_def mem_completes_def Let_def store_completes store_width_def bad_16b_iff bad_32b_iff)

lemma mem_tail_load:
  "uop_op u = OP_LB \<Longrightarrow> mem_completes (mem_tail u A) x s = next_pc (if dst_valid u then
     set_gpr s (ucast (dst u)) (scast (le_word (read_bytes (mem s) (unat (A + rvimm u)) 1) :: u8)) else s)"
  "uop_op u = OP_LBU \<Longrightarrow> mem_completes (mem_tail u A) x s = next_pc (if dst_valid u then
     set_gpr s (ucast (dst u)) (ucast (le_word (read_bytes (mem s) (unat (A + rvimm u)) 1) :: u8)) else s)"
  "uop_op u = OP_LH \<Longrightarrow> \<not> spans_cacheline (mem_tail u A) \<Longrightarrow> mem_completes (mem_tail u A) x s = next_pc (if dst_valid u then
     set_gpr s (ucast (dst u)) (scast (le_word (read_bytes (mem s) (unat (A + rvimm u)) 2) :: u16)) else s)"
  "uop_op u = OP_LHU \<Longrightarrow> \<not> spans_cacheline (mem_tail u A) \<Longrightarrow> mem_completes (mem_tail u A) x s = next_pc (if dst_valid u then
     set_gpr s (ucast (dst u)) (ucast (le_word (read_bytes (mem s) (unat (A + rvimm u)) 2) :: u16)) else s)"
  "uop_op u = OP_LW \<Longrightarrow> \<not> spans_cacheline (mem_tail u A) \<Longrightarrow> mem_completes (mem_tail u A) x s = next_pc (if dst_valid u then
     set_gpr s (ucast (dst u)) (le_word (read_bytes (mem s) (unat (A + rvimm u)) 4)) else s)"
  by (simp_all add: mem_tail_def mem_completes_def Let_def t_rsp_data_def line_field low_word bad_16b_iff bad_32b_iff odd_16)

lemmas memory_simps = exec_insn_sel view_defs Let_def uop_default_def on_memory_def add.commute [of _ "gpr _ _"]
  load_in store_in line_in_mem odd_16 bad_16b_iff bad_32b_iff

lemma spans_store:
  "uop_op u = OP_SH \<Longrightarrow> spans_cacheline (mem_tail u A) \<longleftrightarrow> \<not> unat (A + rvimm u) mod 16 + 2 \<le> 16"
  "uop_op u = OP_SW \<Longrightarrow> spans_cacheline (mem_tail u A) \<longleftrightarrow> \<not> unat (A + rvimm u) mod 16 + 4 \<le> 16"
  "uop_op u = OP_LH \<Longrightarrow> spans_cacheline (mem_tail u A) \<longleftrightarrow> \<not> unat (A + rvimm u) mod 16 + 2 \<le> 16"
  "uop_op u = OP_LW \<Longrightarrow> spans_cacheline (mem_tail u A) \<longleftrightarrow> \<not> unat (A + rvimm u) mod 16 + 4 \<le> 16"
  "uop_op u = OP_LHU \<Longrightarrow> spans_cacheline (mem_tail u A) \<longleftrightarrow> bit (A + rvimm u) 0"
  by (auto simp: mem_tail_def Let_def bad_16b_iff bad_32b_iff)

lemma load_sel [case_names lb lh lw lbu lhu bad]:
  fixes sel :: "3 word"
  obtains "sel = 0" | "sel = 1" | "sel = 2" | "sel = 4" | "sel = 5" | "sel \<notin> {0, 1, 2, 4, 5}"
  by blast

lemma agree_store:
  assumes "field 0 insn = (0x23 :: 7 word)" and "u = dec_store insn (uop_default f)"
    and "uop_op u \<noteq> OP_II" and "\<not> spans_cacheline (on_memory u s)"
  shows "exec_insn insn s = Inr (mem_completes (on_memory u s) (gpr s (ucast (srcB u))) s)"
  using assms
  by (rule_tac load_sel [of "field 12 insn"];
      simp add: dec_store_def exec_store_def mem_tail_store spans_store memory_simps le_bytes_ucast imm_s_sext [symmetric])

lemma agree_load:
  assumes "field 0 insn = (0x3 :: 7 word)" and "u = dec_load insn (uop_default f)"
    and "uop_op u \<noteq> OP_II" and "\<not> spans_cacheline (on_memory u s)"
  shows "exec_insn insn s = Inr (mem_completes (on_memory u s) x s)"
  using assms
  by (rule_tac load_sel [of "field 12 insn"];
      simp add: dec_load_def exec_load_def exec_fence_def mem_tail_load spans_store memory_simps imm_i_field [symmetric])

lemma memory_cases:
  assumes "is_memory insn"
  obtains "field 0 insn = (0x3 :: 7 word)" "decode_riscv insn f = dec_load insn (uop_default f)"
  | "field 0 insn = (0x23 :: 7 word)" "decode_riscv insn f = dec_store insn (uop_default f)"
  using assms by (cases insn f rule: decode_cases) (simp_all add: is_memory_def)

text \<open>
  C4. A load or store that the decoder accepts and the address generation does not refuse has, through
  the cache line, the effect the simulator gives it: the address is the simulator's effective
  address, the register gets the extended bytes, the memory the stored ones.
\<close>

theorem memory_matches_simulator:
  assumes "is_memory insn" and "u = decode_riscv insn f"
    and "uop_op u \<noteq> OP_II" and "\<not> spans_cacheline (on_memory u s)"
  shows "exec_insn insn s = Inr (mem_completes (on_memory u s) (gpr s (ucast (srcB u))) s)"
  using assms by (cases f rule: memory_cases [OF assms(1)]) (simp_all add: agree_load agree_store)

text \<open>\<open>sh x2, -2(x1)\<close> with \<open>x1 = 16\<close>: the last two bytes of the first line.\<close>

lemma memory_matches_simulator_witness:
  "let s = set_gpr (set_gpr initState 1 16) 2 0x12345678;
       f = \<lparr>f_pc = 0, insn_pred = False, f_pht_idx = 0, insn_pred_target = 0, f_fetch_cycle = 0\<rparr>;
       u = decode_riscv 0xfe209f23 f;
       s' = mem_completes (on_memory u s) (gpr s (ucast (srcB u))) s
   in exec_insn 0xfe209f23 s = Inr s' \<and> mem s' 14 = 0x78 \<and> mem s' 15 = 0x56"
proof -
  let ?f = "\<lparr>f_pc = 0, insn_pred = False, f_pht_idx = 0, insn_pred_target = 0, f_fetch_cycle = 0\<rparr>"
  let ?u = "decode_riscv 0xfe209f23 ?f" and ?s = "set_gpr (set_gpr initState 1 16) 2 0x12345678"
  have h: "is_memory 0xfe209f23" "uop_op ?u \<noteq> OP_II" "\<not> spans_cacheline (on_memory ?u ?s)" by code_simp+
  have "mem (mem_completes (on_memory ?u ?s) (gpr ?s (ucast (srcB ?u))) ?s) 14 = 0x78"
    "mem (mem_completes (on_memory ?u ?s) (gpr ?s (ucast (srcB ?u))) ?s) 15 = 0x56" by code_simp+
  then show ?thesis using memory_matches_simulator [OF h(1) refl h(2,3)] unfolding Let_def by blast
qed

definition access_bytes :: "opcode_t \<Rightarrow> nat" where
  "access_bytes op = (if op \<in> {OP_LB, OP_LBU, OP_SB} then 1 else if op \<in> {OP_LH, OP_LHU, OP_SH} then 2 else 4)"

lemmas request_simps = dec_load_def dec_store_def on_memory_def mem_tail_def access_bytes_def bad_16b_iff
  bad_32b_iff is_store_op_def Let_def

text \<open>
  C29. Which accesses the address generation refuses: those that run over the end of the line, and
  every unsigned half word at an odd address. A refused access is a no-operation to the cache,
  except that half word, whose request is sent with the flag set.
\<close>

theorem refused_accesses:
  assumes "is_memory insn" and "u = decode_riscv insn f" and "uop_op u \<noteq> OP_II"
  shows "let r = on_memory u s in
    (spans_cacheline r \<longleftrightarrow> (if uop_op u = OP_LHU then bit (mreq_addr r) 0
       else 16 < unat (mreq_addr r) mod 16 + access_bytes (uop_op u))) \<and>
    (mreq_op r = MEM_NOP \<longleftrightarrow> spans_cacheline r \<and> uop_op u \<noteq> OP_LHU) \<and>
    (mreq_is_store r \<longleftrightarrow> is_store_op (uop_op u) \<and> \<not> spans_cacheline r)"
proof (cases f rule: memory_cases [OF assms(1)])
  case 1
  with assms(2,3) show ?thesis by (rule_tac load_sel [of "field 12 insn"]; simp add: request_simps)
next
  case 2
  with assms(2,3) show ?thesis by (rule_tac load_sel [of "field 12 insn"]; simp add: request_simps)
qed

text \<open>\<open>lhu x1, 1(x0)\<close> lies inside the line and is refused.\<close>

lemma refused_accesses_witness:
  "let f = \<lparr>f_pc = 0, insn_pred = False, f_pht_idx = 0, insn_pred_target = 0, f_fetch_cycle = 0\<rparr>;
       r = on_memory (decode_riscv 0x00105083 f) initState
   in spans_cacheline r \<and> mreq_op r = MEM_LHU \<and> mreq_addr r = 1 \<and> \<not> mreq_is_store r"
proof -
  let ?f = "\<lparr>f_pc = 0, insn_pred = False, f_pht_idx = 0, insn_pred_target = 0, f_fetch_cycle = 0\<rparr>"
  let ?u = "decode_riscv 0x00105083 ?f"
  have h: "is_memory 0x00105083" "uop_op ?u \<noteq> OP_II" by code_simp+
  have "uop_op ?u = OP_LHU" "mreq_op (on_memory ?u initState) = MEM_LHU" "mreq_addr (on_memory ?u initState) = 1"
    by code_simp+
  with refused_accesses [OF h(1) refl h(2), of initState] show ?thesis
    unfolding Let_def by (simp add: is_store_op_def)
qed

end
