(* ===== verification/Hw_Units.thy ===== *)
theory Hw_Units
  imports Hw_Agreement Interpreter_Correct
begin

text \<open>
  The two clocked units beside the first port: the pipelined multiplier (\<open>mul.sv\<close>, the branch
  \<open>machine.vh\<close> selects) and the restoring divider (\<open>divider.sv\<close> with its quotient register
  \<open>shiftregbit.sv\<close>). A step function gives the registers after a clock edge from the inputs
  before it; the outputs are functions of the registers.

  The locale \<open>functional_unit\<close> is what the port relies on: an operation started when the unit
  accepts one is answered a fixed number of edges later, whatever the inputs in between.
\<close>

unbundle bit_operations_syntax

section \<open>Units with a fixed latency\<close>

text \<open>
  \<open>answers step fin res n s ops\<close>: each operation is an input followed by the inputs of the
  edges until the next one; the answer is read after the first \<open>n\<close> edges of the operation.
\<close>

primrec answers :: "('i \<Rightarrow> 's \<Rightarrow> 's) \<Rightarrow> ('s \<Rightarrow> bool) \<Rightarrow> ('s \<Rightarrow> 'r) \<Rightarrow> nat \<Rightarrow> 's \<Rightarrow> ('i \<times> 'i list) list \<Rightarrow> 'r option list" where
  "answers step fin res n s [] = []"
| "answers step fin res n s (x # ops) =
    (let a = fold step (take n (fst x # snd x)) s in
     (if fin a then Some (res a) else None) # answers step fin res n (fold step (fst x # snd x) s) ops)"

locale functional_unit =
  fixes step :: "'i \<Rightarrow> 's \<Rightarrow> 's" and resets :: "'i \<Rightarrow> bool" and starts :: "'i \<Rightarrow> bool"
    and accepts :: "'s \<Rightarrow> bool" and fin :: "'s \<Rightarrow> bool" and res :: "'s \<Rightarrow> 'r" and val :: "'i \<Rightarrow> 'r"
    and latency :: nat and recovery :: nat
  assumes answered: "accepts s \<Longrightarrow> starts i \<Longrightarrow> \<not> resets i \<Longrightarrow> Suc (length rest) = latency \<Longrightarrow>
      list_all (\<lambda>j. \<not> resets j) rest \<Longrightarrow> fin (fold step (i # rest) s) \<and> res (fold step (i # rest) s) = val i"
    and recovers: "accepts s \<Longrightarrow> starts i \<Longrightarrow> \<not> resets i \<Longrightarrow> Suc (length rest) = latency + recovery \<Longrightarrow>
      list_all (\<lambda>j. \<not> resets j) rest \<Longrightarrow> accepts (fold step (i # rest) s)"
    and positive: "0 < latency"
begin

lemma all_answered:
  assumes "accepts s" and "\<And>i rest. (i, rest) \<in> set ops \<Longrightarrow>
      starts i \<and> \<not> resets i \<and> Suc (length rest) = latency + recovery \<and> list_all (\<lambda>j. \<not> resets j) rest"
  shows "answers step fin res latency s ops = map (\<lambda>x. Some (val (fst x))) ops"
  using assms
proof (induction ops arbitrary: s)
  case (Cons x ops)
  obtain i rest where x: "x = (i, rest)" by (cases x)
  have i: "starts i" "\<not> resets i" "Suc (length rest) = latency + recovery" "list_all (\<lambda>j. \<not> resets j) rest"
    using Cons.prems(2) [of i rest] x by auto
  obtain k where k: "latency = Suc k" using positive by (cases latency) auto
  have "fin (fold step (i # take k rest) s) \<and> res (fold step (i # take k rest) s) = val i"
    using i k Cons.prems(1) by (intro answered) (auto simp: list_all_iff dest: in_set_takeD)
  moreover have "accepts (fold step (i # rest) s)" using i Cons.prems(1) by (intro recovers)
  then have "answers step fin res latency (fold step (i # rest) s) ops = map (\<lambda>x. Some (val (fst x))) ops"
    by (rule Cons.IH) (use Cons.prems(2) in auto)
  ultimately show ?case by (simp add: x k Let_def)
qed simp

end

section \<open>The multiplier\<close>

definition MUL_LAT :: nat where
  "MUL_LAT = 3"

record mul_in =
  m_reset :: bool
  is_signed :: bool
  is_high :: bool
  go :: bool
  src_A :: u32
  src_B :: u32
  rob_ptr_in :: rob_idx
  prf_ptr_in :: prf_ptr

record mul_t =
  r_mul :: "u64 list"
  r_complete :: "bool list"
  r_is_high :: "bool list"
  r_rob_ptr :: "rob_idx list"
  r_gpr_val :: "bool list"
  r_gpr_ptr :: "prf_ptr list"

text \<open>The two operands of the product are 64 bits wide in both branches.\<close>

definition t_mul :: "mul_in \<Rightarrow> u64" where
  "t_mul i = (if is_signed i then scast (src_A i) * scast (src_B i) else ucast (src_A i) * ucast (src_B i))"

definition stage_regs :: "'a \<Rightarrow> 'a list \<Rightarrow> 'a list" where
  "stage_regs d r = map (\<lambda>i. if i = 0 then d else r ! (i - 1)) [0..<Suc MUL_LAT]"

definition mul_step :: "mul_in \<Rightarrow> mul_t \<Rightarrow> mul_t" where
  "mul_step i m =
    (let m1 = m\<lparr>r_mul := stage_regs (t_mul i) (r_mul m)\<rparr>; n = Suc MUL_LAT in
     if m_reset i then
       m1\<lparr>r_rob_ptr := replicate n 0, r_gpr_ptr := replicate n 0, r_complete := replicate n False,
         r_gpr_val := replicate n False, r_is_high := replicate n False\<rparr>
     else
       m1\<lparr>r_complete := stage_regs (go i) (r_complete m), r_is_high := stage_regs (is_high i) (r_is_high m),
         r_rob_ptr := stage_regs (rob_ptr_in i) (r_rob_ptr m), r_gpr_val := stage_regs (go i) (r_gpr_val m),
         r_gpr_ptr := stage_regs (prf_ptr_in i) (r_gpr_ptr m)\<rparr>)"

definition mul_y :: "mul_t \<Rightarrow> u64" where
  "mul_y m = (if r_is_high m ! MUL_LAT then drop_bit 32 (r_mul m ! MUL_LAT) else r_mul m ! MUL_LAT)"

definition mul_complete :: "mul_t \<Rightarrow> bool" where
  "mul_complete m = r_complete m ! MUL_LAT"

definition mul_out :: "mul_t \<Rightarrow> u64 \<times> rob_idx \<times> prf_ptr" where
  "mul_out m = (mul_y m, r_rob_ptr m ! MUL_LAT, r_gpr_ptr m ! MUL_LAT)"

definition mul_value :: "mul_in \<Rightarrow> u64 \<times> rob_idx \<times> prf_ptr" where
  "mul_value i = (if is_high i then drop_bit 32 (t_mul i) else t_mul i, rob_ptr_in i, prf_ptr_in i)"

lemma stage_regs_nth: "i < 4 \<Longrightarrow> stage_regs d r ! i = (if i = 0 then d else r ! (i - 1))"
  by (simp add: stage_regs_def MUL_LAT_def)

lemma length_3: "length xs = 3 \<longleftrightarrow> (\<exists>a b c. xs = [a, b, c])"
  by (simp add: numeral_3_eq_3 length_Suc_conv) blast

lemma mul_answered:
  assumes "\<not> m_reset i" and "Suc (length rest) = 4" and "list_all (\<lambda>j. \<not> m_reset j) rest"
  shows "mul_complete (fold mul_step (i # rest) m) = go i \<and> mul_out (fold mul_step (i # rest) m) = mul_value i"
proof -
  from assms(2) obtain a b c where "rest = [a, b, c]" by (auto simp: length_3)
  with assms show ?thesis
    by (simp add: mul_step_def Let_def mul_complete_def mul_out_def mul_y_def mul_value_def stage_regs_nth MUL_LAT_def)
qed

interpretation multiplier: functional_unit mul_step m_reset go "\<lambda>_. True" mul_complete mul_out mul_value 4 0
  by unfold_locales (simp_all add: mul_answered [simplified])

text \<open>The port gives the multiplier its flags from the opcode.\<close>

definition mul_request :: "uop_t \<Rightarrow> bool \<Rightarrow> u32 \<Rightarrow> u32 \<Rightarrow> mul_in" where
  "mul_request u r_start_int A B = \<lparr>m_reset = False,
     is_signed = (uop_op u = OP_MUL \<or> uop_op u = OP_MULH), is_high = (uop_op u = OP_MULHU \<or> uop_op u = OP_MULH),
     go = r_start_int, src_A = A, src_B = B, rob_ptr_in = rob_ptr u, prf_ptr_in = dst u\<rparr>"

text \<open>What the simulator does with the word behind a multiplication or division.\<close>

definition is_muldiv :: "opcode_t \<Rightarrow> bool" where
  "is_muldiv op \<longleftrightarrow> uses_mul op \<or> uses_div op"

definition op_sel :: "opcode_t \<Rightarrow> 3 word" where
  "op_sel op = (if op = OP_MUL then 0 else if op = OP_MULH then 1 else if op = OP_MULHU then 3
     else if op = OP_DIV then 4 else if op = OP_DIVU then 5 else if op = OP_REM then 6 else 7)"

definition muldiv_ok :: "u32 \<Rightarrow> state_t \<Rightarrow> uop_t \<Rightarrow> bool" where
  "muldiv_ok insn s u \<longleftrightarrow> (is_muldiv (uop_op u) \<longrightarrow> exec_insn insn s =
     bind_r (op_result (op_sel (uop_op u)) 1 (gpr s (ucast (srcA u))) (gpr s (ucast (srcB u))))
       (\<lambda>v. Inr (next_pc (set_gpr s (ucast (dst u)) v))))"

lemma muldiv_if: "(c \<Longrightarrow> muldiv_ok insn s a) \<Longrightarrow> (\<not> c \<Longrightarrow> muldiv_ok insn s b) \<Longrightarrow> muldiv_ok insn s (if c then a else b)"
  by simp

lemmas muldiv_simps = muldiv_ok_def is_muldiv_def uses_mul_def uses_div_def

lemma muldiv_op: "field 0 insn = (0x33 :: 7 word) \<Longrightarrow> muldiv_ok insn s (dec_op insn (uop_default f))"
  unfolding dec_op_def Let_def
  by (intro muldiv_if; simp add: muldiv_simps unless_x0_def exec_insn_sel exec_op_def Let_def view_defs op_sel_def op_result_def)

lemma muldiv_opimm: "muldiv_ok insn s (dec_opimm insn (uop_default f))"
  unfolding dec_opimm_def Let_def by (intro muldiv_if; simp add: muldiv_simps unless_x0_def)

lemma muldiv_rest: "muldiv_ok insn s (uop_default f)" "muldiv_ok insn s ((uop_default f)\<lparr>uop_op := OP_NOP\<rparr>)"
  "muldiv_ok insn s (dec_load insn (uop_default f))" "muldiv_ok insn s (dec_store insn (uop_default f))"
  "muldiv_ok insn s (dec_auipc insn t (uop_default f))" "muldiv_ok insn s (dec_lui insn (uop_default f))"
  "muldiv_ok insn s (dec_branch insn p t (uop_default f))" "muldiv_ok insn s (dec_jal insn t (uop_default f))"
  "muldiv_ok insn s (dec_jalr insn t (uop_default f))" "muldiv_ok insn s (dec_system insn (uop_default f))"
  by (simp_all add: muldiv_simps dec_defs Let_def)

lemma muldiv_exec: "is_muldiv (uop_op (decode_riscv insn f)) \<Longrightarrow> u = decode_riscv insn f \<Longrightarrow> exec_insn insn s =
    bind_r (op_result (op_sel (uop_op u)) 1 (gpr s (ucast (srcA u))) (gpr s (ucast (srcB u))))
      (\<lambda>v. Inr (next_pc (set_gpr s (ucast (dst u)) v)))"
proof -
  assume m: "is_muldiv (uop_op (decode_riscv insn f))" "u = decode_riscv insn f"
  have "muldiv_ok insn s (decode_riscv insn f)"
    by (cases insn f rule: decode_cases) (simp_all only: muldiv_op muldiv_opimm muldiv_rest)
  with m show ?thesis by (simp add: muldiv_ok_def)
qed

lemma ucast_times: "(ucast (x * y :: u64) :: u32) = ucast x * ucast y"
proof (rule word_uint_eqI)
  have "uint (x * y) mod 2 ^ 32 = (uint x mod 2 ^ 32) * (uint y mod 2 ^ 32) mod 2 ^ 32"
    by (simp add: uint_word_ariths(3) mod_mod_cancel mod_mult_eq)
  then show "uint (ucast (x * y) :: u32) = uint (ucast x * ucast y :: u32)"
    by (simp add: unsigned_ucast_eq take_bit_eq_mod uint_word_ariths(3))
qed

lemma ucast_high: "(ucast (drop_bit 32 x :: u64) :: u32) = ucast (signed_drop_bit 32 x)"
  by (rule bit_word_eqI) (auto simp: bit_simps bit_signed_drop_bit_iff dest: bit_imp_le_length)

lemma mul_word:
  assumes "uses_mul (uop_op u)" and "v = (ucast (fst (mul_value (mul_request u g a b))) :: u32)"
  shows "op_result (op_sel (uop_op u)) 1 a b = Inr v"
  using assms by (auto simp: uses_mul_def mul_value_def mul_request_def op_sel_def op_result_def t_mul_def
      ucast_times ucast_high low_word)

text \<open>
  C15. A multiplication started in any state of the pipeline, the unit not being reset, is complete
  after four edges with the tags it was started with; its low word is what the simulator writes.
\<close>

theorem multiplier_matches_simulator:
  assumes "u = decode_riscv insn f" and "uses_mul (uop_op u)"
    and "i = mul_request u True (gpr s (ucast (srcA u))) (gpr s (ucast (srcB u)))"
    and "length waiting = 3" and "list_all (\<lambda>j. \<not> m_reset j) waiting"
    and "m' = fold mul_step (i # waiting) m"
  shows "mul_complete m' \<and> snd (mul_out m') = (rob_ptr u, dst u) \<and>
    exec_insn insn s = Inr (next_pc (set_gpr s (ucast (dst u)) (ucast (mul_y m'))))"
proof -
  have m: "mul_complete m' \<and> mul_out m' = mul_value i"
    unfolding assms(6) using assms(3,4,5) by (intro multiplier.answered) (simp_all add: mul_request_def)
  then have y: "mul_y m' = fst (mul_value i)" by (simp add: mul_out_def prod_eq_iff)
  have "op_result (op_sel (uop_op u)) 1 (gpr s (ucast (srcA u))) (gpr s (ucast (srcB u))) = Inr (ucast (mul_y m'))"
    unfolding y assms(3) using assms(2) by (intro mul_word) simp_all
  with m assms(1-3) show ?thesis
    by (simp add: muldiv_exec [of insn f u s] is_muldiv_def mul_value_def mul_request_def)
qed

definition still :: mul_in where
  "still = \<lparr>m_reset = False, is_signed = False, is_high = False, go = False, src_A = 0, src_B = 0,
     rob_ptr_in = 0, prf_ptr_in = 0\<rparr>"

definition mul_cleared :: mul_t where
  "mul_cleared = \<lparr>r_mul = replicate 4 0, r_complete = replicate 4 False, r_is_high = replicate 4 False,
     r_rob_ptr = replicate 4 0, r_gpr_val = replicate 4 False, r_gpr_ptr = replicate 4 0\<rparr>"

text \<open>\<open>mulh x3, x1, x2\<close> with \<open>x1 = -1\<close> and \<open>x2 = 3\<close>.\<close>

lemma multiplier_matches_simulator_witness:
  "let s = set_gpr (set_gpr initState 1 (- 1)) 2 3;
       u = decode_riscv 0x022091b3 \<lparr>f_pc = 0, insn_pred = False, f_pht_idx = 0, insn_pred_target = 0, f_fetch_cycle = 0\<rparr>;
       m' = fold mul_step (mul_request u True (gpr s (ucast (srcA u))) (gpr s (ucast (srcB u))) # [still, still, still]) mul_cleared
   in mul_complete m' \<and> exec_insn 0x022091b3 s = Inr (next_pc (set_gpr s (ucast (dst u)) (ucast (mul_y m'))))"
proof -
  let ?u = "decode_riscv 0x022091b3 \<lparr>f_pc = 0, insn_pred = False, f_pht_idx = 0, insn_pred_target = 0, f_fetch_cycle = 0\<rparr>"
  have "uses_mul (uop_op ?u)" by code_simp
  moreover have "length [still, still, still] = 3" "list_all (\<lambda>j. \<not> m_reset j) [still, still, still]"
    by (simp_all add: still_def)
  ultimately show ?thesis
    using multiplier_matches_simulator [OF refl _ refl _ _ refl] unfolding Let_def by blast
qed

text \<open>
  One operation may start at every edge: whatever the stream of inputs, the outputs four edges
  after an input are that input's product and tags, complete exactly if it started an operation.
\<close>

theorem multiplier_pipelined:
  assumes "list_all (\<lambda>j. \<not> m_reset j) ins" and "t + 4 \<le> length ins"
  shows "mul_complete (fold mul_step (take (t + 4) ins) m) = go (ins ! t) \<and>
    mul_out (fold mul_step (take (t + 4) ins) m) = mul_value (ins ! t)"
proof -
  have "take (t + 4) ins = take t ins @ ins ! t # take 3 (drop (Suc t) ins)"
    using assms(2) by (simp add: take_add Cons_nth_drop_Suc [symmetric])
  moreover have "\<not> m_reset (ins ! t)" "list_all (\<lambda>j. \<not> m_reset j) (take 3 (drop (Suc t) ins))"
    using assms by (auto simp: list_all_iff dest: in_set_takeD in_set_dropD)
  ultimately show ?thesis
    using mul_answered [of "ins ! t" "take 3 (drop (Suc t) ins)" "fold mul_step (take t ins) m"] assms(2) by simp
qed

lemma multiplier_pipelined_witness:
  "let ins = [still\<lparr>go := True, src_A := 6, src_B := 7\<rparr>, still\<lparr>go := True, src_A := 2, src_B := 3\<rparr>, still, still, still]
   in mul_complete (fold mul_step (take 5 ins) mul_cleared) \<and> mul_y (fold mul_step (take 5 ins) mul_cleared) = 6"
  using multiplier_pipelined [of "[still\<lparr>go := True, src_A := 6, src_B := 7\<rparr>,
      still\<lparr>go := True, src_A := 2, src_B := 3\<rparr>, still, still, still]" 1 mul_cleared]
  by (simp add: Let_def mul_out_def mul_value_def t_mul_def still_def)

section \<open>The quotient register\<close>

definition dffen :: "bool \<Rightarrow> bool \<Rightarrow> bool \<Rightarrow> bool \<Rightarrow> bool" where
  "dffen reset en d q = (if reset then False else if en then d else q)"

definition shiftregbit :: "bool \<Rightarrow> bool \<Rightarrow> bool \<Rightarrow> u32 \<Rightarrow> u32" where
  "shiftregbit reset b valid r =
    bus (map (\<lambda>i. dffen reset valid (if i = 0 then b else bit r (i - 1)) (bit r i)) [0..<32])"

lemma shiftregbit_eq: "shiftregbit False b valid r = (if valid then 2 * r + of_bool b else r)"
proof -
  have "2 * r + of_bool b = 2 * r OR of_bool b"
    by (rule disjunctive_add) (simp only: bit_double_iff bit_of_bool_iff, auto)
  then show ?thesis
    by (intro bit_word_eqI)
      (auto simp: shiftregbit_def bit_bus dffen_def bit_or_iff bit_double_iff bit_of_bool_iff)
qed

lemma shiftregbit_reset: "shiftregbit True b valid r = 0"
  by (rule bit_word_eqI) (simp add: shiftregbit_def bit_bus dffen_def)

section \<open>The divider\<close>

datatype div_state = DIV_IDLE | DIVIDE | PACK_OUTPUT | WAIT_FOR_WB

record div_in =
  d_reset :: bool
  srcA_in :: u32
  srcB_in :: u32
  d_rob_ptr_in :: rob_idx
  d_prf_ptr_in :: prf_ptr
  is_signed_div :: bool
  is_rem :: bool
  start_div :: bool

record div_t =
  r_state :: div_state
  r_is_signed :: bool
  r_sign :: bool
  r_rem_sign :: bool
  r_is_rem_op :: bool
  d_rob_ptr :: rob_idx
  r_gpr_prf_ptr :: prf_ptr
  r_A :: u32
  r_B :: u32
  r_Y :: u64
  r_D :: u64
  r_R :: u64
  r_idx :: u5
  t_ss :: u32

definition div_reset :: div_t where
  "div_reset = \<lparr>r_state = DIV_IDLE, r_is_signed = False, r_sign = False, r_rem_sign = False,
     r_is_rem_op = False, d_rob_ptr = 0, r_gpr_prf_ptr = 0, r_A = 0, r_B = 0, r_Y = 0, r_D = 0,
     r_R = 0, r_idx = 0, t_ss = 0\<rparr>"

text \<open>The magnitude the divider works on.\<close>

definition magnitude :: "bool \<Rightarrow> u32 \<Rightarrow> u32" where
  "magnitude neg x = (if neg \<and> bit x 31 then NOT x + 1 else x)"

definition div_idle :: "div_in \<Rightarrow> div_t \<Rightarrow> div_t" where
  "div_idle i d =
    (let n_A = magnitude (is_signed_div i) (srcA_in i); n_B = magnitude (is_signed_div i) (srcB_in i) in
     d\<lparr>d_rob_ptr := d_rob_ptr_in i, r_gpr_prf_ptr := d_prf_ptr_in i, r_is_rem_op := is_rem i,
       r_is_signed := is_signed_div i, r_state := (if start_div i then DIVIDE else DIV_IDLE), r_idx := 31,
       r_sign := bit (srcA_in i) 31 \<noteq> bit (srcB_in i) 31, r_rem_sign := bit (srcA_in i) 31,
       r_A := n_A, r_B := n_B, r_D := push_bit 32 (ucast n_B), r_R := ucast n_A\<rparr>)"

text \<open>\<open>{r_R[W2-2:0], 1'b0}\<close> is the shift by one.\<close>

definition div_divide :: "div_t \<Rightarrow> div_t" where
  "div_divide d =
    (let r2 = push_bit 1 (r_R d); fits = r_D d \<le> r2 in
     d\<lparr>r_R := (if fits then r2 - r_D d else r2), t_ss := shiftregbit False fits True (t_ss d),
       r_state := (if r_idx d = 0 then PACK_OUTPUT else DIVIDE), r_idx := r_idx d - 1\<rparr>)"

definition div_pack :: "div_t \<Rightarrow> div_t" where
  "div_pack d =
    (let high = ucast (drop_bit 32 (r_R d)) :: u32;
         q = (if r_is_signed d \<and> r_sign d then NOT (t_ss d) + 1 else t_ss d);
         r = (if r_is_signed d \<and> r_rem_sign d then NOT high + 1 else high)
     in d\<lparr>r_state := WAIT_FOR_WB,
          r_Y := push_bit 32 (ucast r) OR ucast (if r_is_rem_op d then r else q)\<rparr>)"

definition div_step :: "div_in \<Rightarrow> div_t \<Rightarrow> div_t" where
  "div_step i d =
    (if d_reset i then div_reset
     else case r_state d of
       DIV_IDLE \<Rightarrow> div_idle i d
     | DIVIDE \<Rightarrow> div_divide d
     | PACK_OUTPUT \<Rightarrow> div_pack d
     | WAIT_FOR_WB \<Rightarrow> d\<lparr>r_state := DIV_IDLE\<rparr>)"

lemma div_step_sel:
  "\<not> d_reset i \<Longrightarrow> r_state d = DIV_IDLE \<Longrightarrow> div_step i d = div_idle i d"
  "\<not> d_reset i \<Longrightarrow> r_state d = DIVIDE \<Longrightarrow> div_step i d = div_divide d"
  "\<not> d_reset i \<Longrightarrow> r_state d = PACK_OUTPUT \<Longrightarrow> div_step i d = div_pack d"
  "\<not> d_reset i \<Longrightarrow> r_state d = WAIT_FOR_WB \<Longrightarrow> div_step i d = d\<lparr>r_state := DIV_IDLE\<rparr>"
  by (simp_all add: div_step_def)

definition div_ready :: "div_in \<Rightarrow> div_t \<Rightarrow> bool" where
  "div_ready i d = (r_state d = DIV_IDLE \<and> \<not> start_div i)"

definition div_complete :: "div_t \<Rightarrow> bool" where
  "div_complete d = (r_state d = WAIT_FOR_WB)"

definition div_out :: "div_t \<Rightarrow> u64 \<times> rob_idx \<times> prf_ptr" where
  "div_out d = (r_Y d, d_rob_ptr d, r_gpr_prf_ptr d)"

section \<open>Long division\<close>

text \<open>The remainder and quotient after each of the divider's steps, as numbers.\<close>

primrec long_div :: "nat \<Rightarrow> nat \<Rightarrow> nat \<Rightarrow> nat \<times> nat" where
  "long_div D A 0 = (A, 0)"
| "long_div D A (Suc j) = (let (R, Q) = long_div D A j in
     if D \<le> 2 * R then (2 * R - D, 2 * Q + 1) else (2 * R, 2 * Q))"

lemma long_div_inv: "long_div D A j = (R, Q) \<Longrightarrow> R + Q * D = A * 2 ^ j \<and> (A < D \<longrightarrow> R < D) \<and> (D = 0 \<longrightarrow> Q + 1 = 2 ^ j)"
proof (induction j arbitrary: R Q)
  case (Suc j)
  obtain r q where r: "long_div D A j = (r, q)" by (cases "long_div D A j")
  from Suc.IH [OF r] have "r + q * D = A * 2 ^ j" "A < D \<Longrightarrow> r < D" "D = 0 \<Longrightarrow> q + 1 = 2 ^ j" by auto
  moreover have "2 * r + 2 * q * D = A * 2 ^ Suc j" using \<open>r + q * D = A * 2 ^ j\<close> by (simp add: algebra_simps)
  ultimately show ?case using Suc.prems r by (auto simp: algebra_simps split: if_splits)
qed simp

lemma div_plus_mult: "(r :: nat) < m \<Longrightarrow> (r + q * m) div m = q"
  by (cases "m = 0") simp_all

lemma long_div_result:
  assumes "A < 2 ^ n" and "long_div (B * 2 ^ n) A n = (R, Q)"
  shows "Q = (if B = 0 then 2 ^ n - 1 else A div B) \<and> R div 2 ^ n = A mod B"
proof (cases "B = 0")
  case True
  with long_div_inv [OF assms(2)] have "R = A * 2 ^ n" "Q + 1 = 2 ^ n" by simp_all
  then have "Q = 2 ^ n - 1" by linarith
  with True \<open>R = A * 2 ^ n\<close> show ?thesis by simp
next
  case False
  define p where "p = (2 :: nat) ^ n"
  have "0 < p" "p \<le> B * p" using False by (simp_all add: p_def)
  then have "A < B * p" using assms(1) by (simp add: p_def less_le_trans)
  with long_div_inv [OF assms(2)] have e: "A * p = R + Q * (B * p)" "R < B * p" by (simp_all add: p_def)
  have "A div B = A * p div (B * p)" "(A mod B) * p = A * p mod (B * p)" using \<open>0 < p\<close> by simp_all
  moreover have "(R + Q * (B * p)) div (B * p) = Q" using e(2) by (rule div_plus_mult)
  ultimately have "A div B = Q" "(A mod B) * p = R" using e by simp_all
  with False \<open>0 < p\<close> show ?thesis by (auto simp flip: p_def)
qed

lemma long_div_bound: "long_div D A j = (R, Q) \<Longrightarrow> A < 2 ^ 32 \<Longrightarrow> R < 2 ^ (32 + j)"
proof -
  assume "long_div D A j = (R, Q)" and A: "A < 2 ^ 32"
  then have "R \<le> A * 2 ^ j" using long_div_inv [of D A j R Q] by (metis le_add1)
  also have "\<dots> < 2 ^ (32 + j)" using A by (simp add: power_add)
  finally show ?thesis .
qed

section \<open>The divider's iteration\<close>

definition iterated :: "div_t \<Rightarrow> nat \<Rightarrow> nat \<times> nat \<Rightarrow> div_t" where
  "iterated d j rq = d\<lparr>r_R := of_nat (fst rq), t_ss := of_nat (2 ^ j) * t_ss d + of_nat (snd rq),
     r_state := (if j = 32 then PACK_OUTPUT else DIVIDE), r_idx := 31 - of_nat j\<rparr>"

lemma idx_31: "j < 32 \<Longrightarrow> (of_nat j :: u5) = 31 \<longleftrightarrow> j = 31"
proof -
  assume "j < 32"
  then have "(of_nat j :: u5) = of_nat 31 \<longleftrightarrow> j = 31"
    by (subst word_of_nat_eq_iff) (simp add: take_bit_nat_eq_self)
  then show ?thesis by simp
qed

lemma divide_once:
  assumes j: "j < 32" and D: "unat (r_D d) = D" and A: "A < 2 ^ 32"
  shows "div_divide (iterated d j (long_div D A j)) = iterated d (Suc j) (long_div D A (Suc j))"
proof -
  obtain R Q where r: "long_div D A j = (R, Q)" by (cases "long_div D A j")
  have "R < 2 ^ (32 + j)" using r A by (rule long_div_bound)
  also have "(2 :: nat) ^ (32 + j) \<le> 2 ^ 63" using j by (intro power_increasing) simp_all
  finally have R: "2 * R < 2 ^ 64" by simp
  have d: "r_D d = of_nat D" using D by auto
  have "unat (of_nat (2 * R) :: u64) = 2 * R" by (rule unat_of_nat_small) (use R in simp)
  then have c: "r_D d \<le> of_nat (2 * R) \<longleftrightarrow> D \<le> 2 * R" unfolding word_le_nat_alt D by simp
  show ?thesis using c j R
    by (simp add: div_divide_def iterated_def r Let_def shiftregbit_eq idx_31 push_bit_eq_mult d of_nat_diff
       algebra_simps split: if_splits)
qed

lemma divide_iterates:
  assumes "r_state d = DIVIDE" and "r_idx d = 31" and "r_R d = of_nat A" and "unat (r_D d) = D"
    and "A < 2 ^ 32" and "j \<le> 32"
  shows "(div_divide ^^ j) d = iterated d j (long_div D A j)"
  using assms(6)
proof (induction j)
  case 0
  show ?case using assms(1-3) by (simp add: iterated_def)
next
  case (Suc j)
  then have "(div_divide ^^ j) d = iterated d j (long_div D A j)" by simp
  then show ?case using divide_once [of j d D A] Suc.prems assms(4,5) by simp
qed

lemma fold_divide:
  assumes "r_state d = DIVIDE" and "r_idx d = 31" and "r_R d = of_nat A" and "unat (r_D d) = D"
    and "A < 2 ^ 32" and "list_all (\<lambda>i. \<not> d_reset i) ins" and "length ins \<le> 32"
  shows "fold div_step ins d = (div_divide ^^ length ins) d"
  using assms(6,7)
proof (induction ins rule: rev_induct)
  case (snoc i ins)
  then have l: "length ins < 32" and f: "fold div_step ins d = (div_divide ^^ length ins) d" by simp_all
  have "r_state ((div_divide ^^ length ins) d) = DIVIDE"
    using l divide_iterates [OF assms(1-5), of "length ins"] by (simp add: iterated_def)
  then show ?case using snoc.prems f by (simp add: div_step_sel)
qed simp

section \<open>What the divider computes\<close>

text \<open>
  Quotient and remainder of the magnitudes, the quotient all ones for a zero divisor, with the
  signs put back by the two sign bits alone.
\<close>

definition div_quotient :: "bool \<Rightarrow> u32 \<Rightarrow> u32 \<Rightarrow> u32" where
  "div_quotient neg a b =
    (let x = magnitude neg a; y = magnitude neg b; q = (if y = 0 then NOT 0 else x div y)
     in if neg \<and> (bit a 31 \<noteq> bit b 31) then - q else q)"

definition div_remainder :: "bool \<Rightarrow> u32 \<Rightarrow> u32 \<Rightarrow> u32" where
  "div_remainder neg a b = (let r = magnitude neg a mod magnitude neg b in if neg \<and> bit a 31 then - r else r)"

definition div_value :: "div_in \<Rightarrow> u64 \<times> rob_idx \<times> prf_ptr" where
  "div_value i =
    (let q = div_quotient (is_signed_div i) (srcA_in i) (srcB_in i);
         r = div_remainder (is_signed_div i) (srcA_in i) (srcB_in i)
     in (push_bit 32 (ucast r) OR ucast (if is_rem i then r else q), d_rob_ptr_in i, d_prf_ptr_in i))"

lemma not_plus_1: "NOT x + 1 = - (x :: 'a::len word)"
  by (simp add: not_eq_complement)

lemma unat_ucast64: "unat (ucast (x :: u32) :: u64) = unat x"
proof -
  have "unat x < 2 ^ 64" using unsigned_less [of x, where ?'a = nat] by simp
  then show ?thesis by (simp add: unsigned_ucast_eq take_bit_nat_eq_self)
qed

text \<open>The registers after the 32 steps on \<open>a\<close> and \<open>b\<close>.\<close>

lemma divided:
  assumes "r_state d = DIVIDE" and "r_idx d = 31" and "r_R d = ucast a" and "r_D d = push_bit 32 (ucast b)"
    and "list_all (\<lambda>i. \<not> d_reset i) ins" and "length ins = 32"
  shows "\<exists>R idx. fold div_step ins d = d\<lparr>r_R := R, t_ss := (if b = 0 then NOT 0 else a div b),
    r_state := PACK_OUTPUT, r_idx := idx\<rparr> \<and> ucast (drop_bit 32 R) = a mod b"
proof -
  let ?A = "unat a" and ?D = "unat b * 2 ^ 32"
  have A: "?A < 2 ^ 32" "unat b < 2 ^ 32" using unsigned_less [of a, where ?'a = nat] unsigned_less [of b, where ?'a = nat] by simp_all
  have "unat (push_bit 32 (ucast b :: u64)) = take_bit 64 (push_bit 32 (unat b))"
    unfolding unsigned_push_bit_eq unat_ucast64 by simp
  also have "\<dots> = ?D" unfolding push_bit_eq_mult by (rule take_bit_nat_eq_self) (use A(2) in simp)
  finally have D: "unat (r_D d) = ?D" unfolding assms(4) .
  have ra: "r_R d = of_nat ?A" by (simp add: assms(3))
  obtain R Q where r: "long_div ?D ?A 32 = (R, Q)" by (cases "long_div ?D ?A 32")
  have f: "fold div_step ins d = iterated d 32 (R, Q)"
    using fold_divide [OF assms(1,2) ra D A(1) assms(5)] divide_iterates [OF assms(1,2) ra D A(1) order.refl] assms(6)
    unfolding r by simp
  have q: "Q = (if unat b = 0 then 2 ^ 32 - 1 else ?A div unat b)" "R div 2 ^ 32 = ?A mod unat b"
    using long_div_result [OF A(1) r] by simp_all
  have w: "of_nat Q = (if b = 0 then NOT 0 else a div b)"
  proof (cases "b = 0")
    case False
    then have "Q = unat (a div b)" using q by (simp add: unat_div_distrib unat_eq_zero)
    with False show ?thesis by simp
  qed (simp add: q)
  have "R < 2 ^ 64" using long_div_bound [OF r A(1)] by simp
  then have "unat (of_nat R :: u64) = R" by (intro unat_of_nat_small) simp
  moreover have "unat (drop_bit 32 (of_nat R :: u64)) = drop_bit 32 (unat (of_nat R :: u64))"
    by (rule unat_drop_bit_eq)
  ultimately have h: "unat (drop_bit 32 (of_nat R :: u64)) = unat (a mod b)"
    using q(2) by (simp only: drop_bit_eq_div unat_mod_distrib)
  have "ucast (drop_bit 32 (of_nat R :: u64)) = (of_nat (unat (drop_bit 32 (of_nat R :: u64))) :: u32)"
    by (rule of_nat_unat [symmetric])
  then have "ucast (drop_bit 32 (of_nat R :: u64)) = a mod b" unfolding h by simp
  moreover have z: "(of_nat (2 ^ 32) :: u32) = 0" by (simp add: word_of_nat_eq_0_iff)
  have "iterated d 32 (R, Q) = d\<lparr>r_R := of_nat R, t_ss := (if b = 0 then NOT 0 else a div b),
      r_state := PACK_OUTPUT, r_idx := 31 - of_nat 32\<rparr>"
    unfolding iterated_def fst_conv snd_conv z w by simp
  ultimately show ?thesis unfolding f by blast
qed

text \<open>34 edges after the start the answer is there, and the edge after that frees the divider.\<close>

lemma list_33: "length xs = 33 \<Longrightarrow> \<exists>ys y. xs = ys @ [y] \<and> length ys = 32"
  by (cases xs rule: rev_cases) auto

lemma div_packed: "div_complete (div_pack d)" "div_out (div_pack d) =
    (let h = ucast (drop_bit 32 (r_R d)) :: u32; r = (if r_is_signed d \<and> r_rem_sign d then - h else h);
         q = (if r_is_signed d \<and> r_sign d then - t_ss d else t_ss d)
     in (push_bit 32 (ucast r) OR ucast (if r_is_rem_op d then r else q), d_rob_ptr d, r_gpr_prf_ptr d))"
  by (simp_all add: div_pack_def Let_def div_complete_def div_out_def not_plus_1)

lemma div_answered:
  assumes "r_state d = DIV_IDLE" and "start_div i" and "\<not> d_reset i"
    and "list_all (\<lambda>j. \<not> d_reset j) ins" and "length ins = 33"
  shows "div_complete (fold div_step ins (div_step i d)) \<and> div_out (fold div_step ins (div_step i d)) = div_value i"
proof -
  from assms(5) obtain ys y where ys: "ins = ys @ [y]" "length ys = 32" using list_33 by blast
  define e where "e = div_step i d"
  have e: "e = div_idle i d" using assms(1,3) by (simp add: e_def div_step_sel)
  have s: "r_state e = DIVIDE" "r_idx e = 31" "r_R e = ucast (r_A e)" "r_D e = push_bit 32 (ucast (r_B e))"
    using assms(2) by (simp_all add: e div_idle_def Let_def)
  have "list_all (\<lambda>j. \<not> d_reset j) ys" "\<not> d_reset y" using assms(4) ys by simp_all
  with divided [OF s this(1) ys(2)] obtain R idx where
    f: "fold div_step ys e = e\<lparr>r_R := R, t_ss := (if r_B e = 0 then NOT 0 else r_A e div r_B e), r_state := PACK_OUTPUT, r_idx := idx\<rparr>"
      "ucast (drop_bit 32 R) = r_A e mod r_B e" by blast
  have g: "fold div_step ins e = div_pack (fold div_step ys e)" using \<open>\<not> d_reset y\<close> f by (simp add: ys div_step_sel)
  define X where "X = fold div_step ys e"
  have sel: "r_is_signed X = is_signed_div i" "r_sign X = (bit (srcA_in i) 31 \<noteq> bit (srcB_in i) 31)"
    "r_rem_sign X = bit (srcA_in i) 31" "r_is_rem_op X = is_rem i" "d_rob_ptr X = d_rob_ptr_in i"
    "r_gpr_prf_ptr X = d_prf_ptr_in i" "r_R X = R" "t_ss X = (if r_B e = 0 then NOT 0 else r_A e div r_B e)"
    "r_A e = magnitude (is_signed_div i) (srcA_in i)" "r_B e = magnitude (is_signed_div i) (srcB_in i)"
    unfolding X_def f(1) by (simp_all add: e div_idle_def Let_def)
  show ?thesis unfolding e_def [symmetric] g X_def [symmetric] div_packed(2)
    unfolding div_value_def div_quotient_def div_remainder_def Let_def
    by (simp only: f(2) sel div_packed(1) simp_thms)
qed

lemma div_recovers:
  assumes "r_state d = DIV_IDLE" and "start_div i" and "\<not> d_reset i"
    and "list_all (\<lambda>j. \<not> d_reset j) ins" and "length ins = 34"
  shows "r_state (fold div_step ins (div_step i d)) = DIV_IDLE"
proof -
  obtain ys y where ys: "ins = ys @ [y]" "length ys = 33" using assms(5) by (cases ins rule: rev_cases) auto
  with assms(4) div_answered [OF assms(1-3), of ys] show ?thesis by (simp add: div_complete_def div_step_sel)
qed

interpretation divider: functional_unit div_step d_reset start_div "\<lambda>d. r_state d = DIV_IDLE" div_complete
  div_out div_value 34 1
  by unfold_locales (simp_all add: div_answered div_recovers)

section \<open>The divider against the simulator\<close>

definition div_request :: "uop_t \<Rightarrow> hw_counters \<Rightarrow> u32 \<Rightarrow> u32 \<Rightarrow> div_in" where
  "div_request u cnt A B = (let p = port1 True cnt u A B in
     \<lparr>d_reset = False, srcA_in = A, srcB_in = B, d_rob_ptr_in = rob_ptr u, d_prf_ptr_in = dst u,
      is_signed_div = t_signed_div p, is_rem = t_is_rem p, start_div = t_start_div p\<rparr>)"

text \<open>A signed operand and its magnitude.\<close>

lemma sint_neg: "bit (x :: u32) 31 \<longleftrightarrow> sint x < 0"
  using bit_last_iff [of x] by simp

lemma magnitude_word: "magnitude True x = word_of_int \<bar>sint x\<bar>"
  by (simp add: magnitude_def not_plus_1 sint_neg abs_if)

lemma uint_magnitude: "uint (magnitude True x) = \<bar>sint x\<bar>"
proof -
  have "\<bar>sint x\<bar> < 2 ^ 32" using sint_ge [of x] sint_lt [of x] by simp
  then show ?thesis by (simp add: magnitude_word uint_word_of_int_eq take_bit_int_eq_self)
qed

lemma magnitude_zero: "magnitude True x = 0 \<longleftrightarrow> x = 0"
  by (auto simp: magnitude_def not_plus_1)

lemma unsigned_quotient:
  "div_quotient False a b = (if b = 0 then - 1 else a div b)" "div_remainder False a b = a mod b"
  by (simp_all add: div_quotient_def div_remainder_def magnitude_def Let_def)

lemma signed_quotient: "div_quotient True a b = (if b = 0 then if sint a < 0 then 1 else - 1
    else word_of_int (sint a sdiv sint b))"
proof (cases "b = 0")
  case False
  have "magnitude True a div magnitude True b = word_of_int (\<bar>sint a\<bar> div \<bar>sint b\<bar>)"
    by (simp add: word_div_def uint_magnitude)
  with False show ?thesis
    by (auto simp: div_quotient_def Let_def magnitude_zero sint_neg signed_divide_int_def sgn_if)
qed (simp add: div_quotient_def Let_def magnitude_zero sint_neg)

lemma signed_remainder: "div_remainder True a b = (if b = 0 then a else word_of_int (sint a smod sint b))"
proof -
  have "magnitude True a mod magnitude True b = word_of_int (\<bar>sint a\<bar> mod \<bar>sint b\<bar>)"
    by (simp add: word_mod_def uint_magnitude)
  then show ?thesis
    by (auto simp: div_remainder_def Let_def sint_neg signed_modulo_int_def sgn_if abs_if)
qed

text \<open>The operation of the manual each opcode stands for.\<close>

definition div_op_of :: "opcode_t \<Rightarrow> muldiv_op" where
  "div_op_of op = (if op = OP_DIV then DIV else if op = OP_DIVU then DIVU else if op = OP_REM then REM else REMU)"

definition core_div :: "muldiv_op \<Rightarrow> u32 \<Rightarrow> u32 \<Rightarrow> u32" where
  "core_div m a b = (if m = DIV \<and> b = 0 \<and> sint a < 0 then 1 else muldiv_spec m a b)"

lemma low_of_pair: "(ucast (push_bit 32 x OR ucast (y :: u32) :: u64) :: u32) = y"
  by (rule bit_word_eqI) (simp add: bit_simps)

lemma div_word:
  assumes "uses_div (uop_op u)"
  shows "(ucast (fst (div_value (div_request u cnt a b))) :: u32) = core_div (div_op_of (uop_op u)) a b"
  using assms unfolding uses_div_def
  by (auto simp: div_value_def div_request_def port1_def port_default_def Let_def low_of_pair core_div_def div_op_of_def
      unsigned_quotient signed_quotient signed_remainder word_div_def word_mod_def)

lemma divider_answer:
  assumes "uses_div (uop_op u)" and "i = div_request u cnt a b" and "r_state d = DIV_IDLE"
    and "length waiting = 33" and "list_all (\<lambda>j. \<not> d_reset j) waiting"
    and "d' = fold div_step (i # waiting) d"
  shows "div_complete d' \<and> snd (div_out d') = (rob_ptr u, dst u) \<and>
    ucast (r_Y d') = core_div (div_op_of (uop_op u)) a b"
proof -
  have i: "start_div i" "\<not> d_reset i"
    using assms(1) by (auto simp: assms(2) uses_div_def div_request_def port1_def Let_def port_default_def)
  have d: "div_complete d' \<and> div_out d' = div_value i"
    unfolding assms(6) using assms(3-5) i by (intro divider.answered) simp_all
  then have "r_Y d' = fst (div_value i)" by (simp add: div_out_def prod_eq_iff)
  with d div_word [OF assms(1), of cnt a b] show ?thesis
    by (simp add: assms(2) div_value_def div_request_def Let_def)
qed

definition div_still :: div_in where
  "div_still = \<lparr>d_reset = False, srcA_in = 0, srcB_in = 0, d_rob_ptr_in = 0, d_prf_ptr_in = 0,
     is_signed_div = False, is_rem = False, start_div = False\<rparr>"

definition no_counts :: hw_counters where
  "no_counts = \<lparr>r_cycle = 0, r_retired_insns = 0, r_branches = 0, r_branch_faults = 0\<rparr>"

definition div_uop :: uop_t where
  "div_uop = (uop_default \<lparr>f_pc = 0, insn_pred = False, f_pht_idx = 0, insn_pred_target = 0, f_fetch_cycle = 0\<rparr>)
     \<lparr>uop_op := OP_DIV, rob_ptr := 9, dst := 3\<rparr>"

text \<open>
  C14. A division started in an idle divider, which is not reset, is complete after 34 edges, whatever
  its inputs meanwhile, with the tags it was started with; its result is the one the manual asks
  for, with one exception: a negative dividend divided by zero gives 1 and not all ones.
\<close>

theorem divider_implements_manual:
  assumes "uses_div (uop_op u)" and "i = div_request u cnt a b" and "r_state d = DIV_IDLE"
    and "length waiting = 33" and "list_all (\<lambda>j. \<not> d_reset j) waiting"
    and "d' = fold div_step (i # waiting) d"
  shows "div_complete d' \<and> snd (div_out d') = (rob_ptr u, dst u) \<and>
    ucast (r_Y d') = core_div (div_op_of (uop_op u)) a b"
  by (rule divider_answer [OF assms])

text \<open>-7 by 0 gives 1, where the manual has all ones.\<close>

lemma divider_implements_manual_witness:
  "let d' = fold div_step (div_request div_uop no_counts (- 7) 0 # replicate 33 div_still) div_reset
   in div_complete d' \<and> ucast (r_Y d') = (1 :: u32) \<and> muldiv_spec DIV (- 7) 0 = - 1"
  using divider_implements_manual [of div_uop _ no_counts "- 7" 0 div_reset "replicate 33 div_still", OF _ refl _ _ _ refl]
  by (simp add: Let_def div_uop_def uses_div_def div_reset_def div_still_def list_all_iff core_div_def div_op_of_def)

theorem divider_matches_simulator:
  assumes "u = decode_riscv insn f" and "uses_div (uop_op u)"
    and "a = gpr s (ucast (srcA u))" and "b = gpr s (ucast (srcB u))"
    and "implemented (div_op_of (uop_op u)) a b" and "b \<noteq> 0" and "r_state d = DIV_IDLE"
    and "length waiting = 33" and "list_all (\<lambda>j. \<not> d_reset j) waiting"
    and "d' = fold div_step (div_request u cnt a b # waiting) d"
  shows "div_complete d' \<and> exec_insn insn s = Inr (next_pc (set_gpr s (ucast (dst u)) (ucast (r_Y d'))))"
proof -
  have r: "div_complete d'" "ucast (r_Y d') = core_div (div_op_of (uop_op u)) a b"
    using divider_answer [OF assms(2) refl assms(7-10)] by simp_all
  have "op_sel (uop_op u) = muldiv_funct3 (div_op_of (uop_op u))"
    using assms(2) by (auto simp: uses_div_def op_sel_def div_op_of_def)
  then have "op_result (op_sel (uop_op u)) 1 a b = Inr (ucast (r_Y d'))"
    using muldiv_correct [OF assms(5)] assms(6) by (simp add: r core_div_def)
  with r assms(1-4) show ?thesis by (simp add: muldiv_exec [of insn f u s] is_muldiv_def)
qed

text \<open>\<open>rem x3, x1, x2\<close> with \<open>x1 = -7\<close> and \<open>x2 = 2\<close>.\<close>

lemma divider_matches_simulator_witness:
  "let s = set_gpr (set_gpr initState 1 (- 7)) 2 2;
       u = decode_riscv 0x0220e1b3 \<lparr>f_pc = 0, insn_pred = False, f_pht_idx = 0, insn_pred_target = 0, f_fetch_cycle = 0\<rparr>;
       d' = fold div_step (div_request u no_counts (gpr s (ucast (srcA u))) (gpr s (ucast (srcB u))) #
         replicate 33 div_still) div_reset
   in div_complete d' \<and> exec_insn 0x0220e1b3 s = Inr (next_pc (set_gpr s (ucast (dst u)) (ucast (r_Y d'))))"
proof -
  let ?u = "decode_riscv 0x0220e1b3 \<lparr>f_pc = 0, insn_pred = False, f_pht_idx = 0, insn_pred_target = 0, f_fetch_cycle = 0\<rparr>"
  let ?s = "set_gpr (set_gpr initState 1 (- 7)) 2 2"
  have h: "uses_div (uop_op ?u)" "implemented (div_op_of (uop_op ?u)) (gpr ?s (ucast (srcA ?u))) (gpr ?s (ucast (srcB ?u)))"
    "gpr ?s (ucast (srcB ?u)) \<noteq> 0" by code_simp+
  have "r_state div_reset = DIV_IDLE" "length (replicate 33 div_still) = 33"
    "list_all (\<lambda>j. \<not> d_reset j) (replicate 33 div_still)"
    by (simp_all add: div_reset_def div_still_def list_all_iff)
  from divider_matches_simulator [OF refl h(1) refl refl h(2,3) this refl, of no_counts] show ?thesis
    unfolding Let_def .
qed

text \<open>
  C17. A sequence of divisions, each given its 35 edges: every one is answered, in order, whatever the
  inputs of the edges in between.
\<close>

theorem divisions_answered:
  assumes "r_state d = DIV_IDLE" and "\<And>i waiting. (i, waiting) \<in> set ops \<Longrightarrow>
      start_div i \<and> \<not> d_reset i \<and> length waiting = 34 \<and> list_all (\<lambda>j. \<not> d_reset j) waiting"
  shows "answers div_step div_complete div_out 34 d ops = map (\<lambda>x. Some (div_value (fst x))) ops"
  by (rule divider.all_answered) (use assms in auto)

lemma divisions_answered_witness:
  "let op = \<lambda>a b. (div_request div_uop no_counts a b, replicate 34 div_still)
   in map (map_option (\<lambda>x. ucast (fst x))) (answers div_step div_complete div_out 34 div_reset [op 100 7, op 9 4]) =
     [Some (14 :: u32), Some 2]"
proof -
  let ?i = "div_request div_uop no_counts"
  let ?ops = "[(?i 100 7, replicate 34 div_still), (?i 9 4, replicate 34 div_still)]"
  have i: "start_div (?i a b)" "\<not> d_reset (?i a b)" for a b
    by (simp_all add: div_request_def div_uop_def port1_def port_default_def Let_def)
  have v: "ucast (fst (div_value (?i a b))) = core_div DIV a b" for a b
    using div_word [of div_uop no_counts a b] by (simp add: div_uop_def uses_div_def div_op_of_def)
  have "core_div DIV 100 7 = 14" "core_div DIV 9 4 = 2" by code_simp+
  moreover have a: "answers div_step div_complete div_out 34 div_reset ?ops = map (\<lambda>x. Some (div_value (fst x))) ?ops"
    by (rule divisions_answered) (auto simp: i div_reset_def div_still_def list_all_iff)
  ultimately show ?thesis unfolding Let_def a by (simp add: v)
qed

end
