(* ===== verification/Hw_Writeback.thy ===== *)
theory Hw_Writeback
  imports Hw_Units
begin

text \<open>
  The first port with its units, clocked: \<open>exec.sv\<close> lines 598 to 622 (the reservations
  \<open>r_wb_bitvec\<close>), 736 to 744 (what starts), 896 to 902 (when an entry may be picked), 1349 to 1413
  (the units) and 2229 to 2316 (write port 0 of the register file and the completion bundle).
  Three sources share the write port: the port itself, the multiplier and the divider; the code
  checks with \<open>$stop\<close> that no two of them want it in one cycle.
\<close>

unbundle bit_operations_syntax

definition DIV32_LAT :: nat where
  "DIV32_LAT = 33"

record exec_t =
  r_start_int :: bool
  int_uop :: uop_t
  r_wb_bitvec :: "34 word"
  x_mul :: mul_t
  x_div :: div_t

text \<open>
  What the rest of the core supplies in a cycle: the entry the scheduler points at and whether
  its operands are ready, the operands of the operation that starts, and two control signals.
\<close>

record exec_in =
  x_reset :: bool
  ds_done :: bool
  t_picked_uop :: uop_t
  operands_ready :: bool
  t_srcA :: u32
  t_srcB :: u32
  counters_in :: hw_counters

definition the_port :: "exec_in \<Rightarrow> exec_t \<Rightarrow> port_out" where
  "the_port i x = port1 (r_start_int x \<and> \<not> ds_done i) (counters_in i) (int_uop x) (t_srcA i) (t_srcB i)"

definition mul_port :: "exec_in \<Rightarrow> exec_t \<Rightarrow> mul_in" where
  "mul_port i x = (mul_request (int_uop x) (t_start_mul (the_port i x) \<and> r_start_int x) (t_srcA i) (t_srcB i))
     \<lparr>m_reset := x_reset i\<rparr>"

definition div_port :: "exec_in \<Rightarrow> exec_t \<Rightarrow> div_in" where
  "div_port i x = (let p = the_port i x in
     \<lparr>d_reset = x_reset i, srcA_in = t_srcA i, srcB_in = t_srcB i, d_rob_ptr_in = rob_ptr (int_uop x),
      d_prf_ptr_in = dst (int_uop x), is_signed_div = t_signed_div p, is_rem = t_is_rem p, start_div = t_start_div p\<rparr>)"

definition n_wb_bitvec :: "bool \<Rightarrow> bool \<Rightarrow> 34 word \<Rightarrow> 34 word" where
  "n_wb_bitvec starts_div starts_mul v = bus (map (\<lambda>i. if i = MUL_LAT \<and> starts_mul then True
     else if i = DIV32_LAT then starts_div else bit v (i + 1)) [0..<34])"

text \<open>The part of \<open>t_alu_entry_rdy\<close> that is about the units.\<close>

definition unit_free :: "exec_in \<Rightarrow> exec_t \<Rightarrow> bool" where
  "unit_free i x = (let op = uop_op (t_picked_uop i) in
     if uses_div op then div_ready (div_port i x) (x_div x)
     else if uses_mul op then \<not> bit (r_wb_bitvec x) (MUL_LAT + 2)
     else \<not> bit (r_wb_bitvec x) 1)"

definition exec_step :: "exec_in \<Rightarrow> exec_t \<Rightarrow> exec_t" where
  "exec_step i x = \<lparr>
     r_start_int = (if x_reset i then False else (operands_ready i \<and> unit_free i x) \<and> \<not> ds_done i),
     int_uop = t_picked_uop i,
     r_wb_bitvec = (if x_reset i then 0 else n_wb_bitvec (start_div (div_port i x) \<and> r_start_int x)
       (go (mul_port i x)) (r_wb_bitvec x)),
     x_mul = mul_step (mul_port i x) (x_mul x),
     x_div = div_step (div_port i x) (x_div x)\<rparr>"

text \<open>Write port 0 of the register file: enable, register, value.\<close>

definition write_port :: "exec_in \<Rightarrow> exec_t \<Rightarrow> (prf_ptr \<times> u32) option" where
  "write_port i x =
    (let mc = mul_complete (x_mul x); dc = div_complete (x_div x); p = the_port i x in
     if mc \<or> dc \<or> r_start_int x \<and> t_wr_int_prf p then
       Some (if mc then snd (snd (mul_out (x_mul x))) else if dc then r_gpr_prf_ptr (x_div x) else dst (int_uop x),
             if mc then ucast (mul_y (x_mul x)) else if dc then ucast (r_Y (x_div x)) else t_result p)
     else None)"

record complete_t =
  c_rob_ptr :: rob_idx
  c_complete :: bool
  c_faulted :: bool
  c_restart_pc :: u32
  c_is_ii :: bool
  c_take_br :: bool
  c_data :: u32

definition complete_bundle_1 :: "exec_in \<Rightarrow> exec_t \<Rightarrow> complete_t option" where
  "complete_bundle_1 i x =
    (let mc = mul_complete (x_mul x); dc = div_complete (x_div x); p = the_port i x in
     if r_start_int x \<and> t_alu_valid p \<or> mc \<or> dc then Some
       (if mc \<or> dc then
          \<lparr>c_rob_ptr = (if mc then fst (snd (mul_out (x_mul x))) else d_rob_ptr (x_div x)), c_complete = True,
           c_faulted = False, c_restart_pc = 0, c_is_ii = False, c_take_br = False,
           c_data = (if mc then ucast (mul_y (x_mul x)) else ucast (r_Y (x_div x)))\<rparr>
        else
          \<lparr>c_rob_ptr = rob_ptr (int_uop x), c_complete = t_alu_valid p,
           c_faulted = (t_mispred_br p \<or> t_unimp_op p), c_restart_pc = t_pc p, c_is_ii = t_unimp_op p,
           c_take_br = t_take_br p, c_data = t_result p\<rparr>)
     else None)"

section \<open>The reservations\<close>

text \<open>In how many cycles the divider will be complete.\<close>

definition div_due :: "div_t \<Rightarrow> nat \<Rightarrow> bool" where
  "div_due d k = (case r_state d of DIV_IDLE \<Rightarrow> False | DIVIDE \<Rightarrow> k = unat (r_idx d) + 2
     | PACK_OUTPUT \<Rightarrow> k = 1 | WAIT_FOR_WB \<Rightarrow> k = 0)"

definition mul_due :: "mul_t \<Rightarrow> nat \<Rightarrow> bool" where
  "mul_due m k \<longleftrightarrow> k \<le> 3 \<and> r_complete m ! (3 - k)"

text \<open>
  Bit \<open>k\<close> is set exactly if a unit completes in \<open>k\<close> cycles, never both; what starts now has the
  cycle of its result for itself.
\<close>

definition reserved :: "exec_t \<Rightarrow> bool" where
  "reserved x \<longleftrightarrow>
    (\<forall>k < 34. bit (r_wb_bitvec x) k \<longleftrightarrow> mul_due (x_mul x) k \<or> div_due (x_div x) k) \<and>
    (\<forall>k. \<not> (mul_due (x_mul x) k \<and> div_due (x_div x) k)) \<and>
    (r_start_int x \<longrightarrow>
      (uses_mul (uop_op (int_uop x)) \<longrightarrow> \<not> bit (r_wb_bitvec x) 4) \<and>
      (uses_div (uop_op (int_uop x)) \<longrightarrow> r_state (x_div x) = DIV_IDLE) \<and>
      (\<not> is_muldiv (uop_op (int_uop x)) \<longrightarrow> \<not> bit (r_wb_bitvec x) 0))"

lemma port_starts:
  "t_start_mul (port1 g cnt u A B) \<longleftrightarrow> uses_mul (uop_op u) \<and> g"
  "t_start_div (port1 g cnt u A B) \<longleftrightarrow> uses_div (uop_op u) \<and> g"
  "t_wr_int_prf (port1 g cnt u A B) \<Longrightarrow> \<not> is_muldiv (uop_op u)"
  "t_alu_valid (port1 g cnt u A B) \<longleftrightarrow> \<not> is_muldiv (uop_op u)"
  by (cases "uop_op u"; simp add: port1_def Let_def port_default_def uses_mul_def uses_div_def is_muldiv_def
      writes_def port_branch_def port_indirect_def)+

lemma starts: "go (mul_port i x) \<longleftrightarrow> uses_mul (uop_op (int_uop x)) \<and> r_start_int x \<and> \<not> ds_done i"
    "start_div (div_port i x) \<longleftrightarrow> uses_div (uop_op (int_uop x)) \<and> r_start_int x \<and> \<not> ds_done i"
    "m_reset (mul_port i x) = x_reset i" "d_reset (div_port i x) = x_reset i"
  by (auto simp: mul_port_def div_port_def mul_request_def the_port_def Let_def port_starts)

lemma mul_due_step: "\<not> m_reset i \<Longrightarrow> mul_due (mul_step i m) k \<longleftrightarrow> (if k = 3 then go i else mul_due m (k + 1))"
proof (cases "k < 3")
  case True
  then have "3 - k < 4" "3 - k \<noteq> 0" "3 - k - 1 = 3 - (k + 1)" by auto
  moreover assume "\<not> m_reset i"
  ultimately show ?thesis using True by (simp add: mul_due_def mul_step_def Let_def stage_regs_nth)
qed (auto simp: mul_due_def mul_step_def Let_def stage_regs_nth)

lemma unat_pred5: "(x :: u5) \<noteq> 0 \<Longrightarrow> unat (x - 1) + 1 = unat x"
  by (simp add: unat_minus_one unat_gt_0)

lemma div_due_step: "\<not> d_reset i \<Longrightarrow> (start_div i \<longrightarrow> r_state d = DIV_IDLE) \<Longrightarrow>
    div_due (div_step i d) k \<longleftrightarrow> k = 33 \<and> start_div i \<or> div_due d (k + 1)"
  by (cases "r_state d"; cases "r_idx d = 0")
    (auto simp: div_step_sel div_due_def div_idle_def div_divide_def div_pack_def Let_def
      dest: unat_pred5 split: div_state.splits)

lemma div_due_bound: "div_due d k \<Longrightarrow> k \<le> 33"
  using unsigned_less [of "r_idx d", where ?'a = nat] by (auto simp: div_due_def split: div_state.splits)

lemma bit_n_wb: "k < 34 \<Longrightarrow> bit (n_wb_bitvec sd sm v) k \<longleftrightarrow>
    (if k = 3 \<and> sm then True else if k = 33 then sd else bit v (k + 1))"
  by (simp add: n_wb_bitvec_def bit_bus MUL_LAT_def DIV32_LAT_def)

definition exec_clear :: exec_t where
  "exec_clear = \<lparr>r_start_int = False, int_uop = div_uop, r_wb_bitvec = 0, x_mul = mul_cleared, x_div = div_reset\<rparr>"

lemma mul_due_clear: "\<not> mul_due (mul_step i m) k" if "m_reset i"
  using that by (auto simp: mul_due_def mul_step_def Let_def MUL_LAT_def)

lemma reserved_reset: "x_reset i \<Longrightarrow> reserved (exec_step i x)"
  by (simp add: reserved_def exec_step_def mul_due_clear starts div_due_def div_step_def div_reset_def)

lemma reserved_clear: "reserved exec_clear"
  by (auto simp: reserved_def exec_clear_def mul_due_def mul_cleared_def div_due_def div_reset_def)

lemma starts_free: "r_start_int (exec_step i x) \<Longrightarrow> unit_free i x"
  by (simp add: exec_step_def split: if_splits)

lemma unit_freeD:
  "unit_free i x \<Longrightarrow> uses_div (uop_op (t_picked_uop i)) \<Longrightarrow> r_state (x_div x) = DIV_IDLE \<and> \<not> start_div (div_port i x)"
  "unit_free i x \<Longrightarrow> uses_mul (uop_op (t_picked_uop i)) \<Longrightarrow> \<not> bit (r_wb_bitvec x) 5"
  "unit_free i x \<Longrightarrow> \<not> is_muldiv (uop_op (t_picked_uop i)) \<Longrightarrow> \<not> bit (r_wb_bitvec x) 1"
  by (auto simp: unit_free_def Let_def MUL_LAT_def uses_mul_def uses_div_def is_muldiv_def div_ready_def)

lemma reserved_step:
  assumes r: "reserved x"
  shows "reserved (exec_step i x)"
proof (cases "x_reset i")
  case False
  let ?m = "x_mul x" and ?d = "x_div x" and ?op = "uop_op (int_uop x)" and ?wb = "r_wb_bitvec x"
  define sm where "sm = (uses_mul ?op \<and> r_start_int x \<and> \<not> ds_done i)"
  define sd where "sd = (uses_div ?op \<and> r_start_int x \<and> \<not> ds_done i)"
  have bits: "k < 34 \<Longrightarrow> bit ?wb k \<longleftrightarrow> mul_due ?m k \<or> div_due ?d k" for k using r by (simp add: reserved_def)
  have once: "\<not> (mul_due ?m k \<and> div_due ?d k)" for k using r by (simp add: reserved_def)
  have idle: "sd \<Longrightarrow> r_state ?d = DIV_IDLE" and free: "sm \<Longrightarrow> \<not> bit ?wb 4"
    using r by (auto simp: reserved_def sd_def sm_def)
  have m: "mul_due (x_mul (exec_step i x)) k \<longleftrightarrow> (if k = 3 then sm else mul_due ?m (k + 1))" for k
    using False by (simp add: exec_step_def mul_due_step starts sm_def)
  have d: "div_due (x_div (exec_step i x)) k \<longleftrightarrow> k = 33 \<and> sd \<or> div_due ?d (k + 1)" for k
    using False idle by (simp add: exec_step_def div_due_step starts sd_def)
  have v: "bit (r_wb_bitvec (exec_step i x)) k \<longleftrightarrow> (if k = 3 \<and> sm then True else if k = 33 then sd else bit ?wb (k + 1))"
    if "k < 34" for k
    using that False by (simp add: exec_step_def bit_n_wb starts sm_def sd_def) blast
  have no4: "\<not> mul_due ?m 4" "\<not> mul_due ?m 34" "\<not> div_due ?d 34" "sm \<Longrightarrow> \<not> div_due ?d 4"
    using free bits [of 4] div_due_bound [of ?d 34] by (auto simp: mul_due_def)
  have "bit (r_wb_bitvec (exec_step i x)) k \<longleftrightarrow> mul_due (x_mul (exec_step i x)) k \<or> div_due (x_div (exec_step i x)) k"
    if "k < 34" for k
    using bits [of "k + 1"] no4 that unfolding v [OF that] m d by (cases "k = 33") auto
  moreover have "\<not> (mul_due (x_mul (exec_step i x)) k \<and> div_due (x_div (exec_step i x)) k)" for k
    using once [of "k + 1"] no4 unfolding m d by auto
  moreover have "\<not> bit (r_wb_bitvec (exec_step i x)) 4" if "r_start_int (exec_step i x)" "uses_mul (uop_op (t_picked_uop i))"
    using unit_freeD(2) [OF starts_free] that by (simp add: v)
  moreover have "r_state (x_div (exec_step i x)) = DIV_IDLE" if "r_start_int (exec_step i x)" "uses_div (uop_op (t_picked_uop i))"
    using unit_freeD(1) [OF starts_free [OF that(1)] that(2)] False
    by (simp add: exec_step_def div_step_sel starts div_idle_def Let_def)
  moreover have "\<not> bit (r_wb_bitvec (exec_step i x)) 0" if "r_start_int (exec_step i x)" "\<not> is_muldiv (uop_op (t_picked_uop i))"
    using unit_freeD(3) [OF starts_free] that by (simp add: v)
  moreover have "int_uop (exec_step i x) = t_picked_uop i" by (simp add: exec_step_def)
  ultimately show ?thesis unfolding reserved_def by simp
qed (rule reserved_reset)

text \<open>
  C6. In every state the port can reach, whatever the scheduler, the operands and the control signals
  do: the three checks of the code never stop it, and what the port, the multiplier or the divider
  produces in a cycle is what the register file and the reorder buffer are given.
\<close>

theorem writeback_exclusive:
  "let x = fold exec_step ins exec_clear; p = the_port i x;
       mc = mul_complete (x_mul x); dc = div_complete (x_div x); sw = r_start_int x \<and> t_wr_int_prf p
   in \<not> (mc \<and> dc) \<and> \<not> (mc \<and> sw) \<and> \<not> (dc \<and> sw) \<and>
    (sw \<longrightarrow> write_port i x = Some (dst (int_uop x), t_result p)) \<and>
    (mc \<longrightarrow> write_port i x = Some (snd (snd (mul_out (x_mul x))), ucast (mul_y (x_mul x)))) \<and>
    (dc \<longrightarrow> write_port i x = Some (snd (snd (div_out (x_div x))), ucast (r_Y (x_div x))))"
proof -
  define x where "x = fold exec_step ins exec_clear"
  define mc dc sw where "mc = mul_complete (x_mul x)" and "dc = div_complete (x_div x)"
    and "sw = (r_start_int x \<and> t_wr_int_prf (the_port i x))"
  note d = this
  have "reserved (fold exec_step ins x0)" if "reserved x0" for x0
    using that by (induction ins arbitrary: x0) (simp_all add: reserved_step)
  then have r: "reserved x" unfolding x_def using reserved_clear by blast
  have "mc \<longleftrightarrow> mul_due (x_mul x) 0" "dc \<longleftrightarrow> div_due (x_div x) 0"
    by (auto simp: d mul_due_def mul_complete_def MUL_LAT_def div_complete_def div_due_def split: div_state.splits)
  moreover have "sw \<Longrightarrow> \<not> bit (r_wb_bitvec x) 0"
    using r port_starts(3) by (auto simp: d reserved_def the_port_def)
  moreover have "\<not> (mul_due (x_mul x) 0 \<and> div_due (x_div x) 0)" using r unfolding reserved_def by blast
  moreover have "bit (r_wb_bitvec x) 0 \<longleftrightarrow> mul_due (x_mul x) 0 \<or> div_due (x_div x) 0"
    using r unfolding reserved_def by (meson zero_less_numeral)
  ultimately have "\<not> (mc \<and> dc)" "\<not> (mc \<and> sw)" "\<not> (dc \<and> sw)" by auto
  then show ?thesis
    by (auto simp: Let_def write_port_def d div_out_def x_def [symmetric])
qed

text \<open>A multiplication of 6 by 7 to register 5, picked in the first cycle, is written after the fifth.\<close>

definition picks_mul :: "bool \<Rightarrow> exec_in" where
  "picks_mul ready = \<lparr>x_reset = False, ds_done = False, t_picked_uop = div_uop\<lparr>uop_op := OP_MUL, dst := 5\<rparr>,
     operands_ready = ready, t_srcA = 6, t_srcB = 7, counters_in = no_counts\<rparr>"

lemma writeback_exclusive_witness:
  "let x = fold exec_step (picks_mul True # replicate 4 (picks_mul False)) exec_clear
   in mul_complete (x_mul x) \<and> write_port (picks_mul False) x = Some (5, 42)"
proof -
  let ?x = "fold exec_step (picks_mul True # replicate 4 (picks_mul False)) exec_clear"
  have m: "mul_complete (x_mul ?x)" by code_simp
  then have "write_port (picks_mul False) ?x = Some (snd (snd (mul_out (x_mul ?x))), ucast (mul_y (x_mul ?x)))"
    using writeback_exclusive [of "picks_mul True # replicate 4 (picks_mul False)" "picks_mul False"]
    unfolding Let_def by blast
  moreover have "snd (snd (mul_out (x_mul ?x))) = 5" "ucast (mul_y (x_mul ?x)) = (42 :: u32)" by code_simp+
  ultimately show ?thesis using m unfolding Let_def by simp
qed

end
