(* ===== verification/Hw_Scheduler.thy ===== *)
theory Hw_Scheduler
  imports Hw_Decode
begin

text \<open>
  The scheduler of the first port (\<open>exec.sv\<close>, lines 660 to 850, 1000 to 1003 and 1288 to 1308):
  eight entries, a valid bit and a micro-operation each, and a matrix whose row \<open>i\<close> is the set of
  entries older than \<open>i\<close>. The specification is a queue in order of arrival, of which the first
  ready element is taken. When an entry's operands are ready is an input.
\<close>

unbundle bit_operations_syntax

record sched_t =
  r_alu_sched_valid :: u8
  r_alu_sched_uops :: "nat \<Rightarrow> uop_t"
  r_alu_sched_matrix :: "nat \<Rightarrow> u8"

record sched_in =
  s_reset :: bool
  t_flash_clear :: bool
  t_uq_empty :: bool
  uq :: uop_t
  ready_entries :: u8

definition t_alu_entry_rdy :: "sched_in \<Rightarrow> sched_t \<Rightarrow> u8" where
  "t_alu_entry_rdy i s = r_alu_sched_valid s AND ready_entries i"

definition t_pop_uq :: "sched_in \<Rightarrow> sched_t \<Rightarrow> bool" where
  "t_pop_uq i s = (\<not> (t_flash_clear i \<or> t_uq_empty i \<or> r_alu_sched_valid s = NOT 0))"

text \<open>The pointers, without their highest bit, which says that no bit was set.\<close>

definition t_alu_sched_alloc_ptr :: "sched_t \<Rightarrow> nat" where
  "t_alu_sched_alloc_ptr s = find_first_set_hw 1 (unat (NOT (r_alu_sched_valid s))) mod 8"

definition w_alu_sched_oldest_ready :: "sched_in \<Rightarrow> sched_t \<Rightarrow> u8" where
  "w_alu_sched_oldest_ready i s = bus (map (\<lambda>e. bit (t_alu_entry_rdy i s) e \<and>
     t_alu_entry_rdy i s AND r_alu_sched_matrix s e = 0) [0..<8])"

definition t_alu_sched_select_ptr :: "sched_in \<Rightarrow> sched_t \<Rightarrow> nat" where
  "t_alu_sched_select_ptr i s = find_first_set_hw 1 (unat (w_alu_sched_oldest_ready i s)) mod 8"

definition sched_pick :: "sched_in \<Rightarrow> sched_t \<Rightarrow> uop_t" where
  "sched_pick i s = r_alu_sched_uops s (t_alu_sched_select_ptr i s)"

definition t_alu_select_entry :: "sched_in \<Rightarrow> sched_t \<Rightarrow> u8" where
  "t_alu_select_entry i s = (if t_alu_entry_rdy i s \<noteq> 0 then push_bit (t_alu_sched_select_ptr i s) 1 else 0)"

definition sched_step :: "sched_in \<Rightarrow> sched_t \<Rightarrow> sched_t" where
  "sched_step i s =
    (let clear = (s_reset i \<or> t_flash_clear i); a = t_alu_sched_alloc_ptr s; any = (t_alu_entry_rdy i s \<noteq> 0);
         v = r_alu_sched_valid s;
         v1 = (if t_pop_uq i s then set_bit a v else v);
         v2 = (if any then unset_bit (t_alu_sched_select_ptr i s) v1 else v1)
     in \<lparr>r_alu_sched_valid = (if clear then 0 else v2),
         r_alu_sched_uops = (if \<not> clear \<and> t_pop_uq i s then (r_alu_sched_uops s)(a := uq i) else r_alu_sched_uops s),
         r_alu_sched_matrix = (\<lambda>e. if clear then 0
           else if t_pop_uq i s \<and> e = a then v AND NOT (t_alu_select_entry i s)
           else if any then r_alu_sched_matrix s e AND NOT (t_alu_select_entry i s)
           else r_alu_sched_matrix s e)\<rparr>)"

section \<open>The queue\<close>

text \<open>Elements in order of arrival, with the entry each is kept in: the highest free one.\<close>

type_synonym age_queue = "(nat \<times> uop_t) list"

definition queue_pick :: "u8 \<Rightarrow> age_queue \<Rightarrow> (nat \<times> uop_t) option" where
  "queue_pick r q = find (\<lambda>x. bit r (fst x)) q"

definition queue_step :: "sched_in \<Rightarrow> age_queue \<Rightarrow> age_queue" where
  "queue_step i q =
    (if s_reset i \<or> t_flash_clear i then []
     else (case queue_pick (ready_entries i) q of None \<Rightarrow> q | Some x \<Rightarrow> filter (\<lambda>y. fst y \<noteq> fst x) q) @
       (if t_uq_empty i \<or> length q = 8 then [] else [(Max ({..<8} - fst ` set q), uq i)]))"

section \<open>Who is before whom\<close>

definition before :: "nat list \<Rightarrow> nat \<Rightarrow> nat set" where
  "before es e = set (takeWhile (\<lambda>x. x \<noteq> e) es)"

lemma before_Cons: "before (x # es) e = (if x = e then {} else insert x (before es e))"
  unfolding before_def by (cases "x = e") simp_all

lemma before_Nil: "before [] e = {}"
  by (simp add: before_def)

lemma before_filter: "e \<noteq> p \<Longrightarrow> before (filter (\<lambda>x. x \<noteq> p) es) e = before es e - {p}"
proof (induction es)
  case (Cons x es)
  then show ?case by (cases "x = p"; cases "x = e") (simp_all add: before_Cons insert_Diff_if)
qed (simp add: before_Nil)

lemma before_append: "e \<in> set es \<Longrightarrow> before (es @ xs) e = before es e"
  by (simp add: before_def takeWhile_append1)

lemma before_new: "e \<notin> set es \<Longrightarrow> before (es @ [e]) e = set es"
  unfolding before_def by (subst takeWhile_append2) auto

lemma before_subset: "before es e \<subseteq> set es"
  by (auto simp: before_def dest: set_takeWhileD)

lemma find_first: "find P es = Some e \<Longrightarrow> e \<in> set es \<and> P e \<and> (\<forall>x \<in> before es e. \<not> P x)"
  by (induction es) (auto simp: before_Cons split: if_splits)

lemma first_unique: "find P es = Some e \<Longrightarrow> x \<in> set es \<Longrightarrow> P x \<Longrightarrow> \<forall>y \<in> before es x. \<not> P y \<Longrightarrow> x = e"
proof (induction es)
  case (Cons y es)
  then show ?case by (cases "P y"; cases "y = x") (simp_all add: before_Cons)
qed simp

section \<open>The highest set bit\<close>

lemma top_bit_Max: "(x :: u8) \<noteq> 0 \<Longrightarrow> find_first_set_hw 1 (unat x) mod 8 = Max {i. bit x i} \<and> bit x (find_first_set_hw 1 (unat x) mod 8)"
proof -
  assume x: "x \<noteq> 0"
  define j where "j = find_first_set_hw 1 (unat x)"
  have "LENGTH(8) = 2 ^ (1 + 2)" by simp
  from highest_bit [OF x this, folded j_def] have "j = Max {i. bit x i}" "bit x j" "j < 8" by auto
  then show ?thesis unfolding j_def [symmetric] by simp
qed

section \<open>The scheduler is the queue\<close>

definition keeps_queue :: "age_queue \<Rightarrow> sched_t \<Rightarrow> bool" where
  "keeps_queue q s \<longleftrightarrow> distinct (map fst q) \<and>
    (\<forall>e. bit (r_alu_sched_valid s) e \<longleftrightarrow> e \<in> fst ` set q) \<and>
    (\<forall>x \<in> set q. r_alu_sched_uops s (fst x) = snd x) \<and>
    (\<forall>e \<in> fst ` set q. \<forall>j. bit (r_alu_sched_matrix s e) j \<longleftrightarrow> j \<in> before (map fst q) e)"

lemma keeps_queueD:
  assumes "keeps_queue q s"
  shows "distinct (map fst q)" "bit (r_alu_sched_valid s) e \<longleftrightarrow> e \<in> fst ` set q"
    "x \<in> set q \<Longrightarrow> r_alu_sched_uops s (fst x) = snd x"
    "e \<in> fst ` set q \<Longrightarrow> bit (r_alu_sched_matrix s e) j \<longleftrightarrow> j \<in> before (map fst q) e"
    "fst ` set q \<subseteq> {..<8}"
  using assms bit_imp_le_length [of "r_alu_sched_valid s"] unfolding keeps_queue_def by auto

lemma queue_full:
  assumes "keeps_queue q s"
  shows "r_alu_sched_valid s = NOT 0 \<longleftrightarrow> length q = 8"
proof -
  let ?E = "fst ` set q"
  have c: "length q = card ?E" using keeps_queueD(1) [OF assms] distinct_card by fastforce
  have "r_alu_sched_valid s = NOT 0 \<longleftrightarrow> ?E = {..<8}"
    using keeps_queueD(2,5) [OF assms] by (auto simp: bit_eq_iff bit_not_iff)
  also have "\<dots> \<longleftrightarrow> card ?E = 8"
    using card_subset_eq [of "{..<8::nat}" ?E] keeps_queueD(5) [OF assms] by auto
  finally show ?thesis by (simp only: c)
qed

lemma alloc_ptr:
  assumes "keeps_queue q s" and "length q \<noteq> 8"
  shows "t_alu_sched_alloc_ptr s = Max ({..<8} - fst ` set q) \<and> t_alu_sched_alloc_ptr s \<in> {..<8} - fst ` set q"
proof -
  have "NOT (r_alu_sched_valid s) \<noteq> 0" using queue_full [OF assms(1)] assms(2) by (metis bit.double_compl)
  moreover have "{i. bit (NOT (r_alu_sched_valid s)) i} = {..<8} - fst ` set q"
    using keeps_queueD(2) [OF assms(1)] by (auto simp: bit_not_iff)
  ultimately show ?thesis using top_bit_Max [of "NOT (r_alu_sched_valid s)"]
    unfolding t_alu_sched_alloc_ptr_def by (metis mem_Collect_eq)
qed

lemma no_bits: "(w :: u8) = 0 \<longleftrightarrow> (\<forall>j. \<not> bit w j)"
  by (auto intro: bit_word_eqI)

lemma find_fst: "find P (map fst q) = map_option fst (find (\<lambda>x. P (fst x)) q)"
  by (induction q) simp_all

lemma pick_none:
  assumes "keeps_queue q s"
  shows "queue_pick (ready_entries i) q = None \<longleftrightarrow> t_alu_entry_rdy i s = 0"
  using keeps_queueD(2) [OF assms]
  by (auto simp: queue_pick_def find_None_iff t_alu_entry_rdy_def no_bits bit_and_iff)

lemma pick_some:
  assumes k: "keeps_queue q s" and p: "queue_pick (ready_entries i) q = Some (e, u)"
  shows "t_alu_sched_select_ptr i s = e \<and> sched_pick i s = u \<and> (e, u) \<in> set q \<and> t_alu_entry_rdy i s \<noteq> 0"
proof -
  let ?es = "map fst q" and ?r = "ready_entries i"
  have f: "find (bit ?r) ?es = Some e" using p by (simp add: find_fst queue_pick_def)
  have q: "(e, u) \<in> set q" using p by (auto simp: queue_pick_def find_Some_iff in_set_conv_nth)
  have rdy: "bit (t_alu_entry_rdy i s) x \<longleftrightarrow> x \<in> set ?es \<and> bit ?r x" for x
    using keeps_queueD(2) [OF k] by (simp add: t_alu_entry_rdy_def bit_and_iff)
  have none: "t_alu_entry_rdy i s AND r_alu_sched_matrix s x = 0 \<longleftrightarrow> (\<forall>y \<in> before ?es x. \<not> bit ?r y)"
    if "x \<in> set ?es" for x
    using that keeps_queueD(4) [OF k, of x] before_subset [of ?es x] rdy by (auto simp: no_bits bit_and_iff)
  have "bit (w_alu_sched_oldest_ready i s) x \<longleftrightarrow> x = e" for x
  proof -
    have "bit (w_alu_sched_oldest_ready i s) x \<longleftrightarrow>
        x < 8 \<and> bit (t_alu_entry_rdy i s) x \<and> t_alu_entry_rdy i s AND r_alu_sched_matrix s x = 0"
      by (auto simp: w_alu_sched_oldest_ready_def bit_bus)
    also have "\<dots> \<longleftrightarrow>
        x < 8 \<and> x \<in> set ?es \<and> bit ?r x \<and> (\<forall>y \<in> before ?es x. \<not> bit ?r y)"
      using rdy none by blast
    also have "\<dots> \<longleftrightarrow> x = e"
      using find_first [OF f] first_unique [OF f] keeps_queueD(5) [OF k] unfolding set_map by blast
    finally show ?thesis .
  qed
  note o = this
  have "w_alu_sched_oldest_ready i s \<noteq> 0" using o [of e] by auto
  moreover have "{x. bit (w_alu_sched_oldest_ready i s) x} = {e}" using o by auto
  ultimately have ptr: "t_alu_sched_select_ptr i s = e"
    using top_bit_Max [of "w_alu_sched_oldest_ready i s"] by (simp add: t_alu_sched_select_ptr_def)
  moreover have "sched_pick i s = u" using keeps_queueD(3) [OF k q] by (simp add: sched_pick_def ptr)
  moreover have "bit (t_alu_entry_rdy i s) e" using rdy find_first [OF f] by simp
  then have "t_alu_entry_rdy i s \<noteq> 0" by auto
  ultimately show ?thesis using q by simp
qed

lemma bit_select: "p < 8 \<Longrightarrow> bit (v AND NOT (2 ^ p :: u8)) j \<longleftrightarrow> bit v j \<and> j \<noteq> p"
  by (auto simp: bit_and_iff bit_not_iff bit_exp_iff dest: bit_imp_le_length)

lemma keeps_step:
  assumes k: "keeps_queue q s"
  shows "keeps_queue (queue_step i q) (sched_step i s)"
proof (cases "s_reset i \<or> t_flash_clear i")
  case True
  then show ?thesis by (simp add: keeps_queue_def queue_step_def sched_step_def Let_def)
next
  case run: False
  let ?es = "map fst q" and ?a = "t_alu_sched_alloc_ptr s"
  define pop where "pop = t_pop_uq i s"
  have pop: "pop \<longleftrightarrow> \<not> (t_uq_empty i \<or> length q = 8)"
    using run queue_full [OF k] by (simp add: pop_def t_pop_uq_def)
  have a: "pop \<Longrightarrow> ?a = Max ({..<8} - fst ` set q)" "pop \<Longrightarrow> ?a < 8" "pop \<Longrightarrow> ?a \<notin> fst ` set q"
      "pop \<Longrightarrow> (?a, u) \<notin> set q" for u
    using alloc_ptr [OF k] pop by force+
  obtain P q1 where q1: "q1 = filter (\<lambda>y. fst y \<notin> P) q" "queue_step i q = q1 @ (if pop then [(?a, uq i)] else [])"
    and v: "\<And>e. bit (r_alu_sched_valid (sched_step i s)) e \<longleftrightarrow> (bit (r_alu_sched_valid s) e \<or> pop \<and> e = ?a) \<and> e \<notin> P"
    and m: "\<And>e j. bit (r_alu_sched_matrix (sched_step i s) e) j \<longleftrightarrow>
      (if pop \<and> e = ?a then bit (r_alu_sched_valid s) j else bit (r_alu_sched_matrix s e) j) \<and> j \<notin> P"
    and P: "P \<subseteq> fst ` set q" "\<And>e. e \<notin> P \<Longrightarrow> before (filter (\<lambda>x. x \<notin> P) ?es) e = before ?es e - P"
  proof (cases "queue_pick (ready_entries i) q")
    case None
    show thesis
      by (rule that [of q "{}"]) (use None run pop a pick_none [OF k, of i] in
        \<open>auto simp: queue_step_def sched_step_def Let_def pop_def [symmetric] t_alu_select_entry_def bit_set_bit_iff\<close>)
  next
    case (Some x)
    obtain p u where x: "x = (p, u)" by (cases x)
    note s = pick_some [OF k Some [unfolded x]]
    then have p: "p \<in> fst ` set q" "p < 8" using keeps_queueD(5) [OF k] by force+
    show thesis
      by (rule that [of "filter (\<lambda>y. fst y \<notin> {p}) q" "{p}"]) (use Some x s p run pop a before_filter [of _ p ?es] in
        \<open>auto simp: queue_step_def sched_step_def Let_def pop_def [symmetric] t_alu_select_entry_def bit_select
          bit_set_bit_iff bit_unset_bit_iff\<close>)
  qed
  have u: "r_alu_sched_uops (sched_step i s) = (if pop then (r_alu_sched_uops s)(?a := uq i) else r_alu_sched_uops s)"
    using run by (auto simp: sched_step_def Let_def pop_def)
  let ?es1 = "filter (\<lambda>x. x \<notin> P) ?es"
  have es1: "map fst q1 = ?es1" by (simp add: q1(1) filter_map o_def)
  then have es': "map fst (queue_step i q) = ?es1 @ (if pop then [?a] else [])" by (simp add: q1(2))
  have set': "fst ` set (queue_step i q) = (fst ` set q - P) \<union> (if pop then {?a} else {})"
    using arg_cong [OF es', of set] by auto
  have aP: "pop \<Longrightarrow> ?a \<notin> P" using a(3) P(1) by blast
  have "distinct (map fst (queue_step i q))"
    unfolding es' using keeps_queueD(1) [OF k] a(3) by (auto simp: distinct_filter)
  moreover have "bit (r_alu_sched_valid (sched_step i s)) e \<longleftrightarrow> e \<in> fst ` set (queue_step i q)" for e
    unfolding v set' keeps_queueD(2) [OF k] using aP by auto
  moreover have "r_alu_sched_uops (sched_step i s) (fst x) = snd x" if "x \<in> set (queue_step i q)" for x
  proof -
    have "x \<in> set q \<or> pop \<and> x = (?a, uq i)" using that by (auto simp: q1 split: if_splits)
    moreover have "pop \<Longrightarrow> x \<in> set q \<Longrightarrow> fst x \<noteq> ?a" using a(3) by force
    ultimately show ?thesis using keeps_queueD(3) [OF k, of x] by (auto simp: u)
  qed
  moreover have "bit (r_alu_sched_matrix (sched_step i s) e) j \<longleftrightarrow> j \<in> before (map fst (queue_step i q)) e"
    if e: "e \<in> fst ` set (queue_step i q)" for e j
  proof (cases "pop \<and> e = ?a")
    case True
    then have "before (map fst (queue_step i q)) e = set ?es1"
      unfolding es' using a(3) by (auto simp: before_new)
    with True show ?thesis unfolding m keeps_queueD(2) [OF k] by auto
  next
    case False
    then have "e \<in> fst ` set q" "e \<notin> P" using e set' by (auto split: if_splits)
    moreover from this have "before (map fst (queue_step i q)) e = before ?es e - P"
      unfolding es' by (subst before_append) (auto simp: P(2))
    ultimately show ?thesis using False keeps_queueD(4) [OF k, of e j] unfolding m by auto
  qed
  ultimately show ?thesis unfolding keeps_queue_def by blast
qed

definition sched_clear :: sched_t where
  "sched_clear = \<lparr>r_alu_sched_valid = 0, r_alu_sched_uops = (\<lambda>_. uop_default \<lparr>f_pc = 0, insn_pred = False,
     f_pht_idx = 0, insn_pred_target = 0, f_fetch_cycle = 0\<rparr>), r_alu_sched_matrix = (\<lambda>_. 0)\<rparr>"

text \<open>
  C5. From reset on, whatever is pushed, ready or flushed, the scheduler picks what the queue picks,
  the oldest element that is ready, picks something exactly when one is, and holds what the queue
  holds.
\<close>

theorem scheduler_is_age_queue:
  "let s = fold sched_step ins sched_clear; q = fold queue_step ins []
   in (\<forall>e. bit (r_alu_sched_valid s) e \<longleftrightarrow> e \<in> fst ` set q) \<and> length q \<le> 8 \<and>
      (if t_alu_entry_rdy i s = 0 then None else Some (t_alu_sched_select_ptr i s, sched_pick i s)) =
        queue_pick (ready_entries i) q"
proof -
  define s where "s = fold sched_step ins sched_clear"
  define q where "q = fold queue_step ins []"
  have "keeps_queue (fold queue_step ins q0) (fold sched_step ins s0)" if "keeps_queue q0 s0" for q0 s0
    using that by (induction ins arbitrary: q0 s0) (simp_all add: keeps_step)
  moreover have "keeps_queue [] sched_clear" by (simp add: keeps_queue_def sched_clear_def)
  ultimately have k: "keeps_queue q s" unfolding s_def q_def by blast
  have "length q = card (fst ` set q)" using keeps_queueD(1) [OF k] distinct_card by fastforce
  also have "\<dots> \<le> card {..<8::nat}" by (intro card_mono keeps_queueD(5) [OF k]) simp
  finally have "length q \<le> 8" by simp
  moreover have "(if t_alu_entry_rdy i s = 0 then None else Some (t_alu_sched_select_ptr i s, sched_pick i s)) =
      queue_pick (ready_entries i) q"
    using pick_none [OF k, of i] pick_some [OF k, of i] by (cases "queue_pick (ready_entries i) q") auto
  ultimately show ?thesis
    using keeps_queueD(2) [OF k] unfolding Let_def s_def [symmetric] q_def [symmetric] by blast
qed

end
