(* ===== verification/Spec2Isabelle.thy ===== *)
theory Spec2Isabelle
  imports Program Sim_Bitvec Gen_Html Legacy_Formats Retired_Stream Sparse_Mem Hw_Line Hw_Writeback Hw_Scheduler
begin

text \<open>
  Verification of rv32core: the C++ programs that run a SystemVerilog RV32 core beside an
  instruction-set simulator, check one against the other and record how the core behaves; and
  of the core itself the data path, from the instruction word to results and memory.

  The program. \<open>top.cc\<close> loads an ELF file (\<open>loadelf.cc\<close>) or a checkpoint (\<open>saveState.cc\<close>)
  twice, once into the memory the core works on and once into the simulator's
  (\<open>interpret.cc\<close>), resets the core and runs its main loop: each cycle it evaluates the core,
  serves a request of the guest to the host, steps the simulator for every retired
  instruction and compares registers, guards against a core that is stuck, and answers the
  core's memory requests. The core calls back into counting functions and a pipeline logger
  (\<open>pipeline_record.hh\<close>), whose file \<open>gen_html.cc\<close> turns into a page; at the end statistics
  are written. \<open>helper.hh\<close>, \<open>sim_bitvec.hh\<close> and \<open>disassemble.cc\<close> are utilities.

  The core. \<open>decode_riscv.sv\<close> turns instruction words into micro-operations (\<open>uop.vh\<close>). In
  \<open>exec.sv\<close> a scheduler picks the oldest one whose operands are ready for the first integer
  port, which computes its result, starts the multiplier (\<open>mul.sv\<close>) or the divider
  (\<open>divider.sv\<close>), and shares a write port with both; a second port takes cheap operations; a
  third computes addresses and sends requests to the data cache (\<open>l1d.sv\<close>).

  Conventions. Machine integers are words of their width, read by \<open>sint\<close> where the code
  treats them as signed. The 4 GiB of guest memory are a function from offsets to bytes; an
  access that leaves them is the failure \<open>Bad_access\<close>. Whatever ends the process (\<open>assert\<close>,
  \<open>exit\<close>, the processor's divide trap, an access outside an object) is a value of the type
  \<open>failure\<close>, and a computation that may fail returns \<open>failure + 'a\<close>; what was printed before a
  failure is not kept. A loop that may not end is a \<open>partial_function (option)\<close> or an option
  value, where \<open>None\<close> is not ending. Libraries, the operating system and the translated core
  are parameters.

  Theories, in the order they build on each other.

  \<^item> \<open>Prelude\<close>: words, failures and their sequencing, little-endian bytes; the locales \<open>codec\<close>
    (structures of a fixed number of bytes), \<open>overlay\<close> (bit-field structs over a word) and
    \<open>word_struct\<close>, an overlay that is a codec too.
  \<^item> \<open>Memory\<close>, \<open>Machine_State\<close>: the guest memory with the locale \<open>byte_store\<close>, and \<open>state_t\<close> of
    \<open>interpret.hh\<close> with the accessors of \<open>top.hh\<close> and of the core's interface.
  \<^item> \<open>Insn_Formats\<close>, \<open>Interpreter\<close>: the union \<open>riscv_t\<close>, and the instruction switch of
    \<open>execRiscv\<close>, one definition per case.
  \<^item> \<open>Riscv_ISA\<close>, \<open>Interpreter_Correct\<close>, \<open>Interpreter_Frame\<close>: RV32IM as the manual describes it,
    on instructions as a datatype; the proof that the switch implements it on every encoding,
    with the divisions by zero and the overflows in which it does not; what an instruction
    leaves alone and how it can fail.
  \<^item> \<open>Helper\<close>, \<open>Text_Format\<close>, \<open>Disassemble\<close>: \<open>helper.hh\<close> and \<open>helper.cc\<close> (the locale
    \<open>xor_linear\<close> carries the error detection of the CRC), numbers as text, register names.
  \<^item> \<open>Syscalls\<close>, \<open>Exec\<close>: \<open>handle_syscall\<close> with all its calls, and \<open>execRiscv\<close> as a whole, as a
    function, as runs of \<open>n\<close> steps and as a step relation with its reachable states.
  \<^item> \<open>Save_State\<close>, \<open>Load_Elf\<close>: checkpoints and the code that rebuilds a register file; loading
    an ELF file, its boot ROM and symbols.
  \<^item> \<open>Histogram\<close>, \<open>Perf_Counters\<close>, \<open>Pipeline_Record\<close>, \<open>Retirement\<close>: ordered counters (the locale
    \<open>counters\<close>), the counting functions the core calls, the pipeline log and
    \<open>record_retirement\<close>, \<open>dump_histo\<close>.
  \<^item> \<open>Memory_Port\<close>: the core's memory requests as the main loop serves them.
  \<^item> \<open>Run_Text\<close>: what the loop prints, and \<open>histo_mean_median\<close>.
  \<^item> \<open>Harness\<close>: the main loop, one definition per block of its body, composed by \<open>loop_body\<close>
    and iterated by \<open>main_loop\<close>. \<open>Cosimulation\<close>: what it guarantees. \<open>Reference_Core\<close>: the
    locale \<open>isa_core\<close>, the contract of a core the checker accepts, with the simulator itself as
    such a core. \<open>Retired_Stream\<close>: runs as sequences of iterations, and the simulator's path.
  \<^item> \<open>Startup\<close>: the argument vector, the reset sequence, the two ways to start.
  \<^item> \<open>Run_Log\<close>: the log file and the summary at the end. \<open>Observed_Run\<close>: the loop with the
    functions the core calls back into. \<open>Program\<close>: \<open>main\<close> from its options to its files.
  \<^item> \<open>Sim_Bitvec\<close>: the bit vector, an implementation of sets of indices (the locale
    \<open>index_set\<close>). \<open>Gen_Html\<close>: the Kanata log and the page. \<open>Legacy_Formats\<close>, \<open>Sparse_Mem\<close>:
    unused unions, and a class over a block of memory that no program uses.
  \<^item> \<open>Hw_Arith\<close>: adders, shifter, bit searches and population count of the core.
    \<open>Hw_Decode\<close>, \<open>Hw_Ports\<close>: micro-operations and the decoder, the two integer ports and the
    address generation. \<open>Hw_Agreement\<close>: decoder and first port against \<open>execRiscv\<close>.
  \<^item> \<open>Hw_Line\<close>: loads and stores on a cache line, against the simulator's memory.
  \<^item> \<open>Hw_Units\<close>: multiplier and divider, clocked, two interpretations of the locale
    \<open>functional_unit\<close> (a unit that answers each request after a fixed number of edges).
    \<open>Hw_Writeback\<close>: the port with its units and the write port they share.
  \<^item> \<open>Hw_Scheduler\<close>: the age matrix as an implementation of a queue in order of arrival.

  What the lemmas show. The simulator refines the RV32IM specification, step by step, keeps
  register 0 and an even \<open>pc\<close>, and serves every request of the guest once. A checkpoint
  read back is the machine that was dumped; its register code, executed, rebuilds the
  registers, except for the values on which the code's assertion fails. The main loop counts a
  check for each instruction the simulator executes; what the core retires in a run is what
  the simulator executes, in order; an iteration that goes on has agreed with
  the core on a sequential instruction, one that does not agree stops the run and marks it
  incorrect, and nothing else marks it; a stuck core is given up after 2 ^ 16 cycles; every
  memory request is answered on time; limits are kept. Over a core that follows the simulator
  no alarm is raised. The calls of the core do not influence the run, and what they count stays
  well-formed. The whole of \<open>main\<close> writes its log exactly when no divergence was found, with
  the number of executed instructions as the number of checks. The reader of
  the pipeline log gets the retirements of its window. The log's restart
  lines and the means and medians are those of the core's calls. The bit vector is a set of indices and its searches return what they promise,
  but for the ones the findings name.

  In the core, the adder networks are addition, and an instruction the decoder accepts has on
  the first port the effect \<open>execRiscv\<close> gives it: arithmetic, branches, jumps, multiplications,
  divisions by something other than zero, loads and stores that stay in a line. The words the
  decoder rejects are those the simulator stops on, and some with target register 0. The two ports
  compute the same. The divider gives the results of the manual except for a negative number
  divided by zero, and answers every request. The write port is never wanted twice in a cycle.
  The scheduler picks the oldest operation that is ready, and loses none.

  Bounds. Nothing is bounded by fuel. \<open>main_loop\<close> terminates because the cycle counter grows
  towards \<open>max_cycle\<close>; \<open>nextPow2\<close>, \<open>ln2\<close>, the wait for the core and the register code of a
  checkpoint may run forever, and the theorems about them say when they do. The numbers in the
  statements are the code's: 20 arguments, 2 ^ 16 idle cycles, 128 extra cycles, 191 words of
  register code, the 2048 register values whose rounding overflows; 4 edges of the multiplier, 34
  of the divider and one more before the next division, 8 entries of the scheduler, lines of 16
  bytes.

  Parameters. The core: its state, one evaluation, its outputs (\<open>rtl\<close>). The host: each system
  call as a function of a world of its own type (\<open>host\<close>). The disassembler (\<open>capstone\<close>), the
  text of a double, the archive of the pipeline log, the hash combiner, the file contents.
  Where a property needs a hypothesis on one of them, its witness instantiates it.

  Not modelled. Of the core: register renaming, the reorder buffer, fetch and branch prediction,
  the queues and the forwarding of operands in \<open>exec.sv\<close>, the scheduler of the second port, the
  control of the caches, and the branches of the multiplier that \<open>machine.vh\<close> switches off. What
  the translated core does inside one evaluation is a parameter of the main loop, and so is which
  functions it calls back. What it calls while it is reset is
  summed up in the counters the loop is entered with. The value of a floating-point expression,
  of which only the tree is kept; exact arithmetic is used to say what it approximates. The
  clock of the machine, whose two readings are an argument of \<open>run_main\<close>. The parsing of command lines by \<open>boost::program_options\<close>, the SDL
  window, the archive format of \<open>boost::serialization\<close>. The constructor, the destructor
  and \<open>clear\<close> of \<open>sparse_mem\<close>, which have no definition. The trace output under
  \<open>globals::log\<close>, which nothing sets, and code under \<open>#if 0\<close>. Of \<open>osx_elf.h\<close>, a copy of the
  system's \<open>elf.h\<close>, all but the structures and constants the loader uses.
\<close>

end
